(* ===== verification/Relay_Prelude.thy ===== *)
theory Relay_Prelude
  imports
    Main
    "HOL-Library.Word"
    "HOL-Library.Char_ord"
    "HOL-Library.List_Lexorder"
    "HOL-Library.Sublist"
    "HOL-Library.Multiset"
    "HOL-Library.AList"
    "HOL-Library.Monad_Syntax" "HOL-Library.Code_Target_Nat"
begin

text \<open>
  Shared vocabulary of the SNIrelay model: machine bytes and integers, the part of Rust's
  \<open>str\<close> and \<open>slice\<close> library the sources call, UTF-8 validation, decimal and hexadecimal
  numbers, and the two map types of \<open>std::collections\<close>.

  Rust strings are their UTF-8 byte sequences, one HOL \<open>char\<close> per byte, so \<open>len\<close>,
  slicing, prefix and suffix tests mean what they mean in the sources. Case folding and
  white space are those of the ASCII range; bytes above 127 are left alone.
\<close>

named_theorems relay_simps \<open>rewrite rules the component proofs share\<close>
named_theorems relay_inv \<open>preservation of component invariants\<close>

section \<open>Bytes and integers\<close>

type_synonym byte = "8 word"
type_synonym u16 = "16 word"
type_synonym u32 = "32 word"
type_synonym u64 = "64 word"
type_synonym bytes = "byte list"

text \<open>\<open>u16::from_be_bytes\<close>, \<open>u16::to_be_bytes\<close> and the saturating operations.\<close>

definition u16_from_be :: "byte \<Rightarrow> byte \<Rightarrow> u16" where
  "u16_from_be hi lo = of_nat (unat hi * 256 + unat lo)"

definition u16_to_be :: "u16 \<Rightarrow> bytes" where
  "u16_to_be w = [of_nat (unat w div 256), of_nat (unat w mod 256)]"

definition u32_saturating_add :: "u32 \<Rightarrow> u32 \<Rightarrow> u32" where
  "u32_saturating_add a b = (if unat a + unat b < 2 ^ 32 then a + b else 4294967295)"

definition u64_saturating_sub :: "u64 \<Rightarrow> u64 \<Rightarrow> u64" where
  "u64_saturating_sub a b = (if a \<le> b then 0 else a - b)"

lemma unat_byte_bound [simp]: "unat (b :: byte) < 256"
  using unsigned_less [of b, where ?'a = nat] by simp

lemma unat_u16_bound [simp]: "unat (w :: u16) < 65536"
  using unsigned_less [of w, where ?'a = nat] by simp

lemma unat_of_nat_byte [simp]: "n < 256 \<Longrightarrow> unat (of_nat n :: byte) = n"
  by (simp add: unat_of_nat)

lemma unat_of_nat_u16 [simp]: "n < 65536 \<Longrightarrow> unat (of_nat n :: u16) = n"
  by (simp add: unat_of_nat)

lemma be_value_bound: "unat (hi :: byte) * 256 + unat (lo :: byte) < 65536"
proof -
  have "unat hi \<le> 255" and "unat lo \<le> 255"
    using unat_byte_bound [of hi] unat_byte_bound [of lo] by linarith+
  then show ?thesis by linarith
qed

lemma unat_u16_from_be [simp]: "unat (u16_from_be hi lo) = unat hi * 256 + unat lo"
  unfolding u16_from_be_def by (rule unat_of_nat_u16) (rule be_value_bound)

lemma unat_suc_less:
  fixes x m :: "'a :: len word"
  assumes "x < m"
  shows "unat (x + 1) = Suc (unat x)"
proof -
  have "Suc (unat x) \<le> unat m" using assms by (simp add: word_less_nat_alt)
  also have "\<dots> < 2 ^ LENGTH('a)" by (rule unsigned_less)
  finally show ?thesis by (simp add: unat_word_ariths)
qed

lemma length_u16_to_be [simp]: "length (u16_to_be w) = 2"
  by (simp add: u16_to_be_def)

lemma u16_div_bound: "unat (w :: u16) div 256 < 256"
  by (simp add: less_mult_imp_div_less)

lemma u16_from_to_be [simp]:
  "u16_from_be (of_nat (unat w div 256)) (of_nat (unat w mod 256)) = w"
proof -
  have "unat (u16_from_be (of_nat (unat w div 256)) (of_nat (unat w mod 256))) = unat w"
    unfolding unat_u16_from_be
    by (subst unat_of_nat_byte, rule u16_div_bound) (subst unat_of_nat_byte, simp_all)
  then show ?thesis by (rule unsigned_word_eqI)
qed

lemma unat_saturating_add:
  "unat (u32_saturating_add a b) = min (unat a + unat b) (2 ^ 32 - 1)"
proof (cases "unat a + unat b < 2 ^ 32")
  case True
  then show ?thesis
    by (simp add: u32_saturating_add_def unat_word_ariths)
next
  case False
  then show ?thesis
    by (simp add: u32_saturating_add_def)
qed

lemma unat_saturating_sub: "unat (u64_saturating_sub a b) = unat a - unat b"
proof (cases "a \<le> b")
  case True
  then show ?thesis
    by (simp add: u64_saturating_sub_def word_le_nat_alt)
next
  case False
  then show ?thesis
    by (simp add: u64_saturating_sub_def unat_sub not_le order_less_imp_le)
qed

section \<open>Characters and strings\<close>

definition byte_of_char :: "char \<Rightarrow> byte" where
  "byte_of_char c = of_nat (of_char c)"

definition char_of_byte :: "byte \<Rightarrow> char" where
  "char_of_byte b = char_of (unat b)"

text \<open>\<open>str::as_bytes\<close> and the string a valid UTF-8 subslice denotes.\<close>

definition as_bytes :: "string \<Rightarrow> bytes" where
  "as_bytes s = map byte_of_char s"

definition str_of_bytes :: "bytes \<Rightarrow> string" where
  "str_of_bytes bs = map char_of_byte bs"

lemma unat_byte_of_char [simp]: "unat (byte_of_char c) = of_char c"
  unfolding byte_of_char_def by (rule unat_of_nat_byte) (rule nat_of_char_less_256)

lemma char_of_byte_of_char [simp]: "char_of_byte (byte_of_char c) = c"
  by (simp add: char_of_byte_def)

lemma byte_of_char_of_byte [simp]: "byte_of_char (char_of_byte b) = b"
proof -
  have "unat (byte_of_char (char_of_byte b)) = unat b"
    unfolding unat_byte_of_char by (simp add: char_of_byte_def)
  then show ?thesis by (rule unsigned_word_eqI)
qed

lemma str_of_as_bytes [simp]: "str_of_bytes (as_bytes s) = s"
  by (simp add: str_of_bytes_def as_bytes_def o_def)

lemma as_bytes_of_str [simp]: "as_bytes (str_of_bytes bs) = bs"
  by (simp add: str_of_bytes_def as_bytes_def o_def)

lemma length_as_bytes [simp]: "length (as_bytes s) = length s"
  by (simp add: as_bytes_def)

lemma length_str_of_bytes [simp]: "length (str_of_bytes bs) = length bs"
  by (simp add: str_of_bytes_def)

lemma as_bytes_append [simp]: "as_bytes (s @ t) = as_bytes s @ as_bytes t"
  by (simp add: as_bytes_def)

lemma as_bytes_inject [simp]: "as_bytes s = as_bytes t \<longleftrightarrow> s = t"
  by (metis str_of_as_bytes)

text \<open>\<open>to_lowercase\<close>, \<open>eq_ignore_ascii_case\<close>, \<open>char::is_whitespace\<close> and \<open>trim\<close>.\<close>

definition ascii_lower :: "char \<Rightarrow> char" where
  "ascii_lower c =
     (let n = (of_char c :: nat) in if 65 \<le> n \<and> n \<le> 90 then char_of (n + 32) else c)"

definition to_lowercase :: "string \<Rightarrow> string" where
  "to_lowercase s = map ascii_lower s"

definition eq_ignore_ascii_case :: "string \<Rightarrow> string \<Rightarrow> bool" where
  "eq_ignore_ascii_case s t \<longleftrightarrow> to_lowercase s = to_lowercase t"

definition is_whitespace :: "char \<Rightarrow> bool" where
  "is_whitespace c = (let n = (of_char c :: nat) in n = 32 \<or> (9 \<le> n \<and> n \<le> 13))"

definition is_ascii :: "string \<Rightarrow> bool" where
  "is_ascii s = list_all (\<lambda>c. (of_char c :: nat) < 128) s"

definition is_ascii_alphanumeric :: "char \<Rightarrow> bool" where
  "is_ascii_alphanumeric c =
     (let n = (of_char c :: nat)
      in (48 \<le> n \<and> n \<le> 57) \<or> (65 \<le> n \<and> n \<le> 90) \<or> (97 \<le> n \<and> n \<le> 122))"

definition trim_start :: "string \<Rightarrow> string" where
  "trim_start s = dropWhile is_whitespace s"

definition trim_end :: "string \<Rightarrow> string" where
  "trim_end s = rev (dropWhile is_whitespace (rev s))"

definition trim :: "string \<Rightarrow> string" where
  "trim s = trim_end (trim_start s)"

lemma ascii_lower_idem [simp]: "ascii_lower (ascii_lower c) = ascii_lower c"
  by (simp add: ascii_lower_def Let_def)

lemma to_lowercase_idem [simp]: "to_lowercase (to_lowercase s) = to_lowercase s"
  by (simp add: to_lowercase_def o_def)

lemma length_to_lowercase [simp]: "length (to_lowercase s) = length s"
  by (simp add: to_lowercase_def)

lemma to_lowercase_append [simp]: "to_lowercase (s @ t) = to_lowercase s @ to_lowercase t"
  by (simp add: to_lowercase_def)

lemma to_lowercase_Nil [simp]: "to_lowercase [] = []" "to_lowercase s = [] \<longleftrightarrow> s = []"
  by (simp_all add: to_lowercase_def)

lemma trim_Nil [simp]: "trim [] = []"
  by (simp add: trim_def trim_start_def trim_end_def)

lemma dropWhile_fixed: "(xs = [] \<or> \<not> P (hd xs)) \<Longrightarrow> dropWhile P xs = xs"
  by (cases xs) auto

lemma dropWhile_hd: "dropWhile P xs = [] \<or> \<not> P (hd (dropWhile P xs))"
  by (induction xs) auto

text \<open>A string without leading or trailing white space is a fixed point of \<open>trim\<close>.\<close>

lemma trim_id:
  assumes "s = [] \<or> (\<not> is_whitespace (hd s) \<and> \<not> is_whitespace (last s))"
  shows "trim s = s"
proof -
  have a: "trim_start s = s"
    unfolding trim_start_def by (rule dropWhile_fixed) (use assms in blast)
  have "dropWhile is_whitespace (rev s) = rev s"
    by (rule dropWhile_fixed) (use assms in \<open>auto simp: hd_rev\<close>)
  then show ?thesis
    by (simp add: trim_def a trim_end_def)
qed

lemma trim_no_ws: "list_all (\<lambda>c. \<not> is_whitespace c) s \<Longrightarrow> trim s = s"
  by (rule trim_id) (cases s, auto simp: list_all_iff)

lemma last_dropWhile: "dropWhile P xs \<noteq> [] \<Longrightarrow> last (dropWhile P xs) = last xs"
  by (induction xs) (auto split: if_splits)

lemma trim_ends:
  "trim s = [] \<or> (\<not> is_whitespace (hd (trim s)) \<and> \<not> is_whitespace (last (trim s)))"
proof (cases "trim s = []")
  case False
  define t where "t = trim_start s"
  define r where "r = dropWhile is_whitespace (rev t)"
  have r: "trim s = rev r" by (simp add: trim_def trim_end_def t_def r_def)
  with False have ne: "r \<noteq> []" by simp
  have "\<not> is_whitespace (hd r)"
    using dropWhile_hd [of is_whitespace "rev t"] ne unfolding r_def by blast
  moreover have "last r = hd t"
    using last_dropWhile [of is_whitespace "rev t"] ne unfolding r_def
    by (simp add: last_rev)
  moreover have "t \<noteq> []" using ne unfolding r_def by auto
  then have "\<not> is_whitespace (hd t)"
    using dropWhile_hd [of is_whitespace s] unfolding t_def trim_start_def by blast
  ultimately show ?thesis by (simp add: r hd_rev last_rev)
qed simp

lemma trim_idem [simp]: "trim (trim s) = trim s"
  by (rule trim_id) (rule trim_ends)

section \<open>Indexing that may panic\<close>

text \<open>
  Rust's \<open>xs[i]\<close> and \<open>xs[i..j]\<close> panic out of range. Code that indexes is modelled in the
  option monad, with \<open>None\<close> for the panic, so that its absence is a theorem and not a convention.
\<close>

definition idx :: "'a list \<Rightarrow> nat \<Rightarrow> 'a option" where
  "idx xs i = (if i < length xs then Some (xs ! i) else None)"

definition subslice :: "'a list \<Rightarrow> nat \<Rightarrow> nat \<Rightarrow> 'a list option" where
  "subslice xs i j = (if i \<le> j \<and> j \<le> length xs then Some (take (j - i) (drop i xs)) else None)"

lemma idx_ok [simp]: "i < length xs \<Longrightarrow> idx xs i = Some (xs ! i)"
  by (simp add: idx_def)

lemma subslice_ok [simp]: "i \<le> j \<Longrightarrow> j \<le> length xs \<Longrightarrow> subslice xs i j = Some (take (j - i) (drop i xs))"
  by (simp add: subslice_def)

lemma subslice_Some: "subslice xs i j = Some ys \<longleftrightarrow> i \<le> j \<and> j \<le> length xs \<and> ys = take (j - i) (drop i xs)"
  by (auto simp: subslice_def)

lemma subslice_append [simp]: "j \<le> length xs \<Longrightarrow> subslice (xs @ ys) i j = subslice xs i j"
  by (simp add: subslice_def)

lemma idx_append [simp]: "i < length xs \<Longrightarrow> idx (xs @ ys) i = idx xs i"
  by (simp add: idx_def nth_append)

section \<open>Lists\<close>

text \<open>Counting the elements of a list one of which is replaced.\<close>

lemma length_filter_update:
  "i < length xs \<Longrightarrow>
     length (filter P (xs[i := y])) + of_bool (P (xs ! i)) = length (filter P xs) + of_bool (P y)"
proof (induction xs arbitrary: i)
  case (Cons x xs)
  then show ?case by (cases i) auto
qed simp

lemma length_filter_mono: "(\<And>x. P x \<Longrightarrow> Q x) \<Longrightarrow> length (filter P xs) \<le> length (filter Q xs)"
  by (induction xs) (auto simp: le_SucI)

lemma find_append: "find P (xs @ ys) = (case find P xs of None \<Rightarrow> find P ys | Some x \<Rightarrow> Some x)"
  by (induction xs) simp_all

lemma find_None_iff_ex: "find P xs \<noteq> None \<longleftrightarrow> (\<exists>x \<in> set xs. P x)"
  by (auto simp: find_None_iff)

lemma find_SomeD: "find P xs = Some x \<Longrightarrow> x \<in> set xs \<and> P x"
  by (induction xs) (auto split: if_splits)

section \<open>Searching and splitting strings\<close>

text \<open>
  \<open>starts_with\<close>, \<open>ends_with\<close>, \<open>strip_prefix\<close>, \<open>strip_suffix\<close>, \<open>contains\<close>,
  \<open>find\<close>/\<open>rfind\<close> of a character, \<open>split_once\<close>/\<open>rsplit_once\<close>, \<open>lines\<close>,
  \<open>split_whitespace\<close> and \<open>join\<close>.
\<close>

definition starts_with :: "'a list \<Rightarrow> 'a list \<Rightarrow> bool" where
  "starts_with s p \<longleftrightarrow> take (length p) s = p"

definition ends_with :: "'a list \<Rightarrow> 'a list \<Rightarrow> bool" where
  "ends_with s p \<longleftrightarrow> length p \<le> length s \<and> drop (length s - length p) s = p"

definition strip_prefix :: "'a list \<Rightarrow> 'a list \<Rightarrow> 'a list option" where
  "strip_prefix p s = (if starts_with s p then Some (drop (length p) s) else None)"

definition strip_suffix :: "'a list \<Rightarrow> 'a list \<Rightarrow> 'a list option" where
  "strip_suffix p s = (if ends_with s p then Some (take (length s - length p) s) else None)"

fun contains_sub :: "'a list \<Rightarrow> 'a list \<Rightarrow> bool" where
  "contains_sub [] p = (p = [])"
| "contains_sub (c # s) p = (starts_with (c # s) p \<or> contains_sub s p)"

definition split_once :: "char \<Rightarrow> string \<Rightarrow> (string \<times> string) option" where
  "split_once c s =
     (if c \<in> set s then Some (takeWhile (\<lambda>x. x \<noteq> c) s, tl (dropWhile (\<lambda>x. x \<noteq> c) s)) else None)"

definition rsplit_once :: "char \<Rightarrow> string \<Rightarrow> (string \<times> string) option" where
  "rsplit_once c s =
     (case split_once c (rev s) of None \<Rightarrow> None | Some (a, b) \<Rightarrow> Some (rev b, rev a))"

definition strip_cr :: "string \<Rightarrow> string" where
  "strip_cr acc = (if acc \<noteq> [] \<and> hd acc = CHR 0x0D then tl acc else acc)"

fun split_lines :: "string \<Rightarrow> string \<Rightarrow> string list" where
  "split_lines acc [] = (if acc = [] then [] else [rev acc])"
| "split_lines acc (c # s) =
     (if c = CHR 0x0A
      then rev (strip_cr acc) # split_lines [] s
      else split_lines (c # acc) s)"

text \<open>
  \<open>str::lines\<close>: pieces end at a line feed, which is removed together with one carriage
  return before it; a last piece without line feed is kept as it is, an empty one dropped.
\<close>

definition lines :: "string \<Rightarrow> string list" where
  "lines s = split_lines [] s"

fun split_ws :: "string \<Rightarrow> string \<Rightarrow> string list" where
  "split_ws acc [] = (if acc = [] then [] else [rev acc])"
| "split_ws acc (c # s) =
     (if is_whitespace c
      then (if acc = [] then split_ws [] s else rev acc # split_ws [] s)
      else split_ws (c # acc) s)"

definition split_whitespace :: "string \<Rightarrow> string list" where
  "split_whitespace s = split_ws [] s"

text \<open>\<open>str::split\<close> by a predicate (empty pieces are kept) and \<open>trim_end_matches\<close> of a character.\<close>

fun split_pred :: "(char \<Rightarrow> bool) \<Rightarrow> string \<Rightarrow> string \<Rightarrow> string list" where
  "split_pred P acc [] = [rev acc]"
| "split_pred P acc (c # s) =
     (if P c then rev acc # split_pred P [] s else split_pred P (c # acc) s)"

definition trim_end_matches :: "char \<Rightarrow> string \<Rightarrow> string" where
  "trim_end_matches c s = rev (dropWhile (\<lambda>x. x = c) (rev s))"

fun join :: "string \<Rightarrow> string list \<Rightarrow> string" where
  "join sep [] = []"
| "join sep [x] = x"
| "join sep (x # y # xs) = x @ sep @ join sep (y # xs)"

lemma starts_with_prefix [simp]: "starts_with s p \<longleftrightarrow> prefix p s"
  unfolding starts_with_def by (metis append_take_drop_id prefixI take_is_prefix prefix_def append_eq_conv_conj)

lemma ends_with_suffix [simp]: "ends_with s p \<longleftrightarrow> suffix p s"
proof
  assume "ends_with s p"
  then have "s = take (length s - length p) s @ p"
    unfolding ends_with_def by (metis append_take_drop_id)
  then show "suffix p s" by (metis suffixI)
next
  assume "suffix p s"
  then obtain q where "s = q @ p" by (auto simp: suffix_def)
  then show "ends_with s p" by (simp add: ends_with_def)
qed

lemma strip_prefix_Some [simp]: "strip_prefix p s = Some r \<longleftrightarrow> s = p @ r"
  by (auto simp: strip_prefix_def prefix_def)

lemma strip_prefix_None [simp]: "strip_prefix p s = None \<longleftrightarrow> \<not> prefix p s"
  by (auto simp: strip_prefix_def)

lemma strip_suffix_Some [simp]: "strip_suffix p s = Some r \<longleftrightarrow> s = r @ p"
  by (auto simp: strip_suffix_def suffix_def)

lemma contains_sub_iff: "contains_sub s p \<longleftrightarrow> (\<exists>a b. s = a @ p @ b)"
proof (induction s)
  case Nil
  then show ?case by auto
next
  case (Cons c s)
  show ?case
  proof
    assume "contains_sub (c # s) p"
    then show "\<exists>a b. c # s = a @ p @ b"
      using Cons.IH by (fastforce simp: prefix_def intro: exI [of _ "[]"] exI [of _ "c # _"])
  next
    assume "\<exists>a b. c # s = a @ p @ b"
    then obtain a b where ab: "c # s = a @ p @ b" by blast
    then show "contains_sub (c # s) p"
    proof (cases a)
      case Nil
      with ab have "prefix p (c # s)" by (simp add: prefix_def)
      then show ?thesis by simp
    next
      case (Cons x a')
      with ab have "\<exists>a b. s = a @ p @ b" by auto
      with Cons.IH show ?thesis by simp
    qed
  qed
qed

lemma split_once_append [simp]:
  "c \<notin> set a \<Longrightarrow> split_once c (a @ c # b) = Some (a, b)"
  by (induction a) (auto simp: split_once_def)

lemma split_once_None [simp]: "split_once c s = None \<longleftrightarrow> c \<notin> set s"
  by (simp add: split_once_def)

lemma split_once_SomeD: "split_once c s = Some (a, b) \<Longrightarrow> s = a @ c # b \<and> c \<notin> set a"
proof -
  assume sp: "split_once c s = Some (a, b)"
  then have "c \<in> set s" by (auto simp: split_once_def split: if_splits)
  then obtain u v where "s = u @ c # v" and "c \<notin> set u"
    by (meson split_list_first)
  with sp show ?thesis by simp
qed

lemma rsplit_once_append [simp]:
  "c \<notin> set b \<Longrightarrow> rsplit_once c (a @ c # b) = Some (a, b)"
  by (simp add: rsplit_once_def)

lemma rsplit_once_None [simp]: "rsplit_once c s = None \<longleftrightarrow> c \<notin> set s"
  by (simp add: rsplit_once_def split_once_def)

lemma rsplit_once_SomeD: "rsplit_once c s = Some (a, b) \<Longrightarrow> s = a @ c # b \<and> c \<notin> set b"
  by (auto simp: rsplit_once_def split: option.splits dest!: split_once_SomeD)
    (metis append.assoc append_Cons append_Nil rev.simps(2) rev_append rev_rev_ident)+

text \<open>A text assembled from lines with a trailing line feed splits into those lines again.\<close>

definition unlines :: "string list \<Rightarrow> string" where
  "unlines ls = concat (map (\<lambda>l. l @ [CHR 0x0A]) ls)"

lemma split_lines_line:
  "CHR 0x0A \<notin> set l \<Longrightarrow> split_lines acc (l @ CHR 0x0A # s) =
     rev (strip_cr (rev l @ acc)) # split_lines [] s"
  by (induction l arbitrary: acc) auto

lemma lines_Nil [simp]: "lines [] = []"
  by (simp add: lines_def)

lemma lines_Cons:
  assumes "CHR 0x0A \<notin> set l" and "l = [] \<or> last l \<noteq> CHR 0x0D"
  shows "lines (l @ CHR 0x0A # s) = l # lines s"
proof -
  have "strip_cr (rev l) = rev l"
    using assms(2) by (auto simp: strip_cr_def hd_rev)
  then show ?thesis
    using assms(1) by (simp add: lines_def split_lines_line)
qed

definition plain_line :: "string \<Rightarrow> bool" where
  "plain_line l \<longleftrightarrow> CHR 0x0A \<notin> set l \<and> (l = [] \<or> last l \<noteq> CHR 0x0D)"

lemma lines_unlines: "list_all plain_line ls \<Longrightarrow> lines (unlines ls) = ls"
  by (induction ls) (auto simp: unlines_def plain_line_def lines_Cons)

lemma split_lines_no_lf:
  "CHR 0x0A \<notin> set acc \<Longrightarrow> l \<in> set (split_lines acc s) \<Longrightarrow> CHR 0x0A \<notin> set l"
  by (induction acc s rule: split_lines.induct)
    (auto simp: strip_cr_def split: if_splits dest: list.set_sel(2))

lemma lines_no_lf: "l \<in> set (lines s) \<Longrightarrow> CHR 0x0A \<notin> set l"
  unfolding lines_def by (rule split_lines_no_lf) auto

lemma split_ws_word:
  "list_all (\<lambda>c. \<not> is_whitespace c) w \<Longrightarrow> split_ws acc (w @ s) = split_ws (rev w @ acc) s"
  by (induction w arbitrary: acc) auto

lemma split_whitespace_word:
  assumes "w \<noteq> []" and "list_all (\<lambda>c. \<not> is_whitespace c) w"
  shows "split_whitespace w = [w]"
    and "is_whitespace c \<Longrightarrow> split_whitespace (w @ c # s) = w # split_whitespace s"
  using assms split_ws_word [of w "[]" "[]"] split_ws_word [of w "[]" "c # s"]
  by (simp_all add: split_whitespace_def)

section \<open>Numbers in text\<close>

text \<open>\<open>char::to_digit\<close>, \<open>from_str_radix\<close>/\<open>parse\<close> of an unsigned integer, and \<open>Display\<close>.\<close>

definition to_digit :: "nat \<Rightarrow> char \<Rightarrow> nat option" where
  "to_digit radix c =
     (let n = (of_char c :: nat);
          d = (if 48 \<le> n \<and> n \<le> 57 then n - 48
               else if 97 \<le> n \<and> n \<le> 122 then n - 87
               else if 65 \<le> n \<and> n \<le> 90 then n - 55 else 99)
      in if d < radix \<and> d < 36 then Some d else None)"

definition digit_char :: "nat \<Rightarrow> char" where
  "digit_char d = char_of (if d < 10 then 48 + d else 87 + d)"

fun digits_acc :: "nat \<Rightarrow> nat \<Rightarrow> string \<Rightarrow> nat option" where
  "digits_acc radix acc [] = Some acc"
| "digits_acc radix acc (c # s) =
     (case to_digit radix c of None \<Rightarrow> None | Some d \<Rightarrow> digits_acc radix (acc * radix + d) s)"

text \<open>An optional \<open>+\<close>, at least one digit, and a value below the bound of the type.\<close>

definition parse_unsigned :: "nat \<Rightarrow> nat \<Rightarrow> string \<Rightarrow> nat option" where
  "parse_unsigned radix bound s =
     (let t = (if s \<noteq> [] \<and> hd s = CHR ''+'' \<and> tl s \<noteq> [] then tl s else s)
      in if t = [] then None
         else case digits_acc radix 0 t of
                None \<Rightarrow> None
              | Some n \<Rightarrow> if n < bound then Some n else None)"

definition parse_u16 :: "string \<Rightarrow> u16 option" where
  "parse_u16 s = map_option of_nat (parse_unsigned 10 65536 s)"

definition parse_u32 :: "string \<Rightarrow> u32 option" where
  "parse_u32 s = map_option of_nat (parse_unsigned 10 (2 ^ 32) s)"

definition parse_u64 :: "string \<Rightarrow> u64 option" where
  "parse_u64 s = map_option of_nat (parse_unsigned 10 (2 ^ 64) s)"

fun show_radix :: "nat \<Rightarrow> nat \<Rightarrow> string" where
  "show_radix radix n =
     (if radix < 2 \<or> n < radix then [digit_char n]
      else show_radix radix (n div radix) @ [digit_char (n mod radix)])"

declare show_radix.simps [simp del]

abbreviation show_nat :: "nat \<Rightarrow> string" where
  "show_nat n \<equiv> show_radix 10 n"

lemma of_char_digit_char: "d < 36 \<Longrightarrow> (of_char (digit_char d) :: nat) = (if d < 10 then 48 + d else 87 + d)"
  by (simp add: digit_char_def)

lemma to_digit_digit_char [simp]: "d < radix \<Longrightarrow> radix \<le> 36 \<Longrightarrow> to_digit radix (digit_char d) = Some d"
  by (simp add: to_digit_def of_char_digit_char)

lemma digits_acc_append:
  "digits_acc r a (s @ t) = (case digits_acc r a s of None \<Rightarrow> None | Some b \<Rightarrow> digits_acc r b t)"
  by (induction s arbitrary: a) (auto split: option.splits)

lemma show_radix_induct [consumes 1, case_names small step]:
  fixes n :: nat
  assumes "2 \<le> r"
    and "\<And>n. n < r \<Longrightarrow> P n"
    and "\<And>n. r \<le> n \<Longrightarrow> P (n div r) \<Longrightarrow> P n"
  shows "P n"
proof (induction n rule: less_induct)
  case (less n)
  show ?case
  proof (cases "n < r")
    case False
    with assms(1) have lt: "n div r < n" by simp
    from False have "r \<le> n" by simp
    then show ?thesis by (rule assms(3)) (rule less.IH [OF lt])
  qed (rule assms(2))
qed

lemma show_radix_small: "n < r \<Longrightarrow> show_radix r n = [digit_char n]"
  by (simp add: show_radix.simps)

lemma show_radix_step:
  "2 \<le> r \<Longrightarrow> r \<le> n \<Longrightarrow> show_radix r n = show_radix r (n div r) @ [digit_char (n mod r)]"
  by (subst show_radix.simps) simp

lemma show_radix_nonempty [simp]: "show_radix r n \<noteq> []"
  by (subst show_radix.simps) simp

lemma show_radix_digits:
  assumes "2 \<le> r" and "r \<le> 36"
  shows "c \<in> set (show_radix r n) \<Longrightarrow> \<exists>d < r. c = digit_char d"
  using assms(1)
proof (induction n rule: show_radix_induct)
  case (step n)
  then consider "c \<in> set (show_radix r (n div r))" | "c = digit_char (n mod r)"
    using assms(1) by (auto simp: show_radix_step)
  then show ?case
  proof cases
    case 2
    moreover have "n mod r < r" using assms(1) by simp
    ultimately show ?thesis by blast
  qed (rule step.IH)
qed (use assms in \<open>auto simp: show_radix_small\<close>)

lemma digits_acc_show:
  assumes "2 \<le> r" and "r \<le> 36"
  shows "digits_acc r 0 (show_radix r n) = Some n"
  using assms(1)
proof (induction n rule: show_radix_induct)
  case (step n)
  then show ?case using assms by (simp add: show_radix_step digits_acc_append)
qed (use assms in \<open>auto simp: show_radix_small\<close>)

lemma length_show_radix:
  assumes "2 \<le> r" and "n < r ^ k" and "0 < k"
  shows "length (show_radix r n) \<le> k"
  using assms(1,2,3)
proof (induction n arbitrary: k rule: show_radix_induct)
  case (step n)
  then obtain j where k: "k = Suc j" by (cases k) auto
  with step have "n div r < r ^ j" and "0 < j"
    by (auto simp: less_mult_imp_div_less mult.commute intro: gr0I)
  with step k assms(1) show ?case by (simp add: show_radix_step)
qed (auto simp: show_radix_small)

lemma show_radix_leading_zero:
  assumes "2 \<le> r" and "r \<le> 36" and "hd (show_radix r n) = CHR ''0''"
  shows "n = 0"
  using assms(1,3)
proof (induction n rule: show_radix_induct)
  case (small n)
  then have "(of_char (digit_char n) :: nat) = 48" by (simp add: show_radix_small)
  with small assms(2) show ?case by (simp add: of_char_digit_char split: if_splits)
next
  case (step n)
  then have "n div r = 0" using assms(1) by (simp add: show_radix_step)
  with step assms(1) show ?case by (simp add: div_eq_0_iff)
qed

lemma digit_char_neq:
  "d < 36 \<Longrightarrow> digit_char d \<noteq> CHR ''.''" "d < 36 \<Longrightarrow> digit_char d \<noteq> CHR '':''"
  "d < 36 \<Longrightarrow> digit_char d \<noteq> CHR ''+''" "d < 36 \<Longrightarrow> digit_char d \<noteq> CHR ''/''"
  "d < 36 \<Longrightarrow> \<not> is_whitespace (digit_char d)"
  using of_char_digit_char [of d] by (auto simp: is_whitespace_def split: if_splits)

lemma hd_show_radix_neq_plus: "hd (show_nat n) \<noteq> CHR ''+''"
proof -
  obtain d where "d < 10" and "hd (show_nat n) = digit_char d"
    using show_radix_digits [of 10 "hd (show_nat n)" n] by auto
  then show ?thesis using digit_char_neq(3) [of d] by simp
qed

lemma parse_unsigned_show [simp]: "n < bound \<Longrightarrow> parse_unsigned 10 bound (show_nat n) = Some n"
  by (simp add: parse_unsigned_def Let_def hd_show_radix_neq_plus digits_acc_show)

lemma parse_u16_show [simp]: "parse_u16 (show_nat (unat w)) = Some w"
  by (simp add: parse_u16_def)

section \<open>UTF-8\<close>

text \<open>\<open>std::str::from_utf8\<close>: the well-formed byte sequences of the Unicode standard.\<close>

definition is_cont :: "nat \<Rightarrow> bool" where
  "is_cont b \<longleftrightarrow> 128 \<le> b \<and> b \<le> 191"

fun utf8_ok :: "nat list \<Rightarrow> bool" where
  "utf8_ok [] = True"
| "utf8_ok (a # s) =
     (if a < 128 then utf8_ok s
      else if 194 \<le> a \<and> a \<le> 223 then
        (case s of b # s' \<Rightarrow> is_cont b \<and> utf8_ok s' | _ \<Rightarrow> False)
      else if 224 \<le> a \<and> a \<le> 239 then
        (case s of b # c # s' \<Rightarrow>
           is_cont b \<and> (a = 224 \<longrightarrow> 160 \<le> b) \<and> (a = 237 \<longrightarrow> b \<le> 159) \<and> is_cont c \<and> utf8_ok s'
         | _ \<Rightarrow> False)
      else if 240 \<le> a \<and> a \<le> 244 then
        (case s of b # c # d # s' \<Rightarrow>
           is_cont b \<and> (a = 240 \<longrightarrow> 144 \<le> b) \<and> (a = 244 \<longrightarrow> b \<le> 143) \<and> is_cont c \<and> is_cont d
           \<and> utf8_ok s'
         | _ \<Rightarrow> False)
      else False)"

definition from_utf8 :: "bytes \<Rightarrow> string option" where
  "from_utf8 bs = (if utf8_ok (map unat bs) then Some (str_of_bytes bs) else None)"

lemma utf8_ok_ascii: "list_all (\<lambda>n. n < 128) ns \<Longrightarrow> utf8_ok ns"
  by (induction ns) auto

lemma from_utf8_ascii [simp]: "is_ascii s \<Longrightarrow> from_utf8 (as_bytes s) = Some s"
  by (simp add: from_utf8_def as_bytes_def is_ascii_def list.pred_map o_def utf8_ok_ascii
      str_of_bytes_def)

lemma from_utf8_Some: "from_utf8 bs = Some s \<Longrightarrow> s = str_of_bytes bs"
  by (auto simp: from_utf8_def split: if_splits)

section \<open>Maps\<close>

text \<open>
  A Rust map type is used through insertion, removal and lookup. The locale states what the
  clients rely on; \<open>HashMap\<close> and \<open>BTreeMap\<close> below are its two interpretations.
\<close>

locale kv_map =
  fixes mempty :: 'm
    and minsert :: "'k \<Rightarrow> 'v \<Rightarrow> 'm \<Rightarrow> 'm"
    and mremove :: "'k \<Rightarrow> 'm \<Rightarrow> 'm"
    and mget :: "'m \<Rightarrow> 'k \<Rightarrow> 'v option"
    and minv :: "'m \<Rightarrow> bool"
  assumes get_empty: "mget mempty k = None"
    and get_insert: "minv m \<Longrightarrow> mget (minsert k v m) j = (if j = k then Some v else mget m j)"
    and get_remove: "minv m \<Longrightarrow> mget (mremove k m) j = (if j = k then None else mget m j)"
    and inv_empty: "minv mempty"
    and inv_insert: "minv m \<Longrightarrow> minv (minsert k v m)"
    and inv_remove: "minv m \<Longrightarrow> minv (mremove k m)"
begin

lemma inv_foldl_insert: "minv m \<Longrightarrow> minv (foldl (\<lambda>m (k, v). minsert k v m) m kvs)"
  by (induction kvs arbitrary: m) (auto simp: inv_insert split: prod.splits)

text \<open>Building a map by successive insertion: the last entry of a key wins.\<close>

lemma get_foldl_insert:
  "minv m \<Longrightarrow> mget (foldl (\<lambda>m (k, v). minsert k v m) m kvs) j =
     (case map_of (rev kvs) j of Some v \<Rightarrow> Some v | None \<Rightarrow> mget m j)"
proof (induction kvs rule: rev_induct)
  case (snoc kv kvs)
  obtain k v where kv: "kv = (k, v)" by (cases kv)
  have "minv (foldl (\<lambda>m (k, v). minsert k v m) m kvs)"
    using snoc.prems by (rule inv_foldl_insert)
  then show ?case
    using snoc by (simp add: kv get_insert)
qed simp

lemma insert_remove_other:
  "minv m \<Longrightarrow> j \<noteq> k \<Longrightarrow> mget (mremove k (minsert k v m)) j = mget m j"
  by (simp add: get_remove get_insert inv_insert)

end

text \<open>
  A \<open>HashMap\<close> is the list of its entries in iteration order, with distinct keys. Rust leaves
  the iteration order open: a result that depends on it depends on the order of this list, and
  the theorems say where it does not.
\<close>

type_synonym ('k, 'v) hash_map = "('k \<times> 'v) list"

definition hm_get :: "('k, 'v) hash_map \<Rightarrow> 'k \<Rightarrow> 'v option" where
  "hm_get m k = map_of m k"

definition hm_contains :: "('k, 'v) hash_map \<Rightarrow> 'k \<Rightarrow> bool" where
  "hm_contains m k \<longleftrightarrow> hm_get m k \<noteq> None"

definition hm_insert :: "'k \<Rightarrow> 'v \<Rightarrow> ('k, 'v) hash_map \<Rightarrow> ('k, 'v) hash_map" where
  "hm_insert k v m = AList.update k v m"

definition hm_remove :: "'k \<Rightarrow> ('k, 'v) hash_map \<Rightarrow> ('k, 'v) hash_map" where
  "hm_remove k m = filter (\<lambda>(j, _). j \<noteq> k) m"

definition hm_wf :: "('k, 'v) hash_map \<Rightarrow> bool" where
  "hm_wf m \<longleftrightarrow> distinct (map fst m)"

text \<open>\<open>collect\<close> into a \<open>HashMap\<close>: entries are inserted in the order the iterator yields them.\<close>

definition hm_collect :: "('k \<times> 'v) list \<Rightarrow> ('k, 'v) hash_map" where
  "hm_collect kvs = foldl (\<lambda>m (k, v). hm_insert k v m) [] kvs"

lemma map_of_filter_key: "map_of (filter (\<lambda>(j, _). j \<noteq> k) m) j = (if j = k then None else map_of m j)"
  by (induction m) auto

interpretation hm: kv_map "[]" hm_insert hm_remove hm_get hm_wf
proof unfold_locales
  fix m :: "('k, 'v) hash_map" and k j :: 'k and v :: 'v
  show "hm_get (hm_insert k v m) j = (if j = k then Some v else hm_get m j)"
    by (simp add: hm_get_def hm_insert_def update_conv')
  show "hm_get (hm_remove k m) j = (if j = k then None else hm_get m j)"
    by (simp add: hm_get_def hm_remove_def map_of_filter_key)
  show "hm_wf m \<Longrightarrow> hm_wf (hm_insert k v m)"
    by (simp add: hm_wf_def hm_insert_def distinct_update)
  show "hm_wf m \<Longrightarrow> hm_wf (hm_remove k m)"
    by (simp add: hm_wf_def hm_remove_def distinct_map_filter)
qed (simp_all add: hm_get_def hm_wf_def)

lemma hm_contains_iff: "hm_contains m k \<longleftrightarrow> k \<in> fst ` set m"
  by (simp add: hm_contains_def hm_get_def map_of_eq_None_iff)

lemma set_hm_insert: "set (hm_insert k v m) \<subseteq> insert (k, v) (set m)"
  unfolding hm_insert_def by (induction m) (auto split: if_splits)

lemma hm_get_SomeD: "hm_get m k = Some v \<Longrightarrow> (k, v) \<in> set m"
  by (simp add: hm_get_def map_of_SomeD)

lemma hm_get_in_set: "hm_wf m \<Longrightarrow> hm_get m k = Some v \<longleftrightarrow> (k, v) \<in> set m"
  by (simp add: hm_get_def hm_wf_def)

lemma hm_get_perm: "hm_wf m \<Longrightarrow> mset m = mset m' \<Longrightarrow> hm_get m = hm_get m'"
  unfolding hm_get_def hm_wf_def
  by (metis map_of_inject_set mset_eq_setD distinct_map mset_eq_imp_distinct_iff mset_map)

text \<open>A \<open>BTreeMap\<close> is the list of its entries, sorted by key.\<close>

type_synonym ('k, 'v) btree_map = "('k \<times> 'v) list"

fun bt_insert :: "'k :: linorder \<Rightarrow> 'v \<Rightarrow> ('k, 'v) btree_map \<Rightarrow> ('k, 'v) btree_map" where
  "bt_insert k v [] = [(k, v)]"
| "bt_insert k v ((j, w) # m) =
     (if k < j then (k, v) # (j, w) # m
      else if k = j then (k, v) # m
      else (j, w) # bt_insert k v m)"

definition bt_get :: "('k, 'v) btree_map \<Rightarrow> 'k \<Rightarrow> 'v option" where
  "bt_get m k = map_of m k"

definition bt_contains :: "('k, 'v) btree_map \<Rightarrow> 'k \<Rightarrow> bool" where
  "bt_contains m k \<longleftrightarrow> bt_get m k \<noteq> None"

definition bt_remove :: "'k \<Rightarrow> ('k, 'v) btree_map \<Rightarrow> ('k, 'v) btree_map" where
  "bt_remove k m = filter (\<lambda>(j, _). j \<noteq> k) m"

definition bt_wf :: "('k :: linorder, 'v) btree_map \<Rightarrow> bool" where
  "bt_wf m \<longleftrightarrow> sorted_wrt (<) (map fst m)"

lemma set_bt_insert: "fst ` set (bt_insert k v m) = insert k (fst ` set m)"
  by (induction k v m rule: bt_insert.induct) auto

lemma bt_wf_insert: "bt_wf m \<Longrightarrow> bt_wf (bt_insert k v m)"
  unfolding bt_wf_def
proof (induction k v m rule: bt_insert.induct)
  case (2 k v j w m)
  have "set (map fst (bt_insert k v m)) = insert k (set (map fst m))"
    using set_bt_insert [of k v m] by simp
  with 2 show ?case by (auto simp: image_iff)
qed simp

lemma bt_wf_head: "bt_wf ((j, w) # m) \<Longrightarrow> k \<le> j \<Longrightarrow> map_of m k = None"
  by (fastforce simp: bt_wf_def map_of_eq_None_iff)

lemma bt_get_insert: "bt_wf m \<Longrightarrow> bt_get (bt_insert k v m) j = (if j = k then Some v else bt_get m j)"
  by (induction k v m rule: bt_insert.induct) (auto simp: bt_get_def bt_wf_def)

interpretation bt: kv_map "[]" bt_insert bt_remove bt_get bt_wf
proof unfold_locales
  fix m :: "('k :: linorder, 'v) btree_map" and k j :: 'k and v :: 'v
  show "bt_wf m \<Longrightarrow> bt_get (bt_insert k v m) j = (if j = k then Some v else bt_get m j)"
    by (rule bt_get_insert)
  show "bt_get (bt_remove k m) j = (if j = k then None else bt_get m j)"
    by (simp add: bt_get_def bt_remove_def map_of_filter_key)
  show "bt_wf m \<Longrightarrow> bt_wf (bt_insert k v m)"
    by (rule bt_wf_insert)
  show "bt_wf m \<Longrightarrow> bt_wf (bt_remove k m)"
    unfolding bt_wf_def bt_remove_def by (induction m) (auto simp: split: prod.splits)
qed (simp_all add: bt_get_def bt_wf_def)

lemma bt_contains_iff: "bt_contains m k \<longleftrightarrow> k \<in> fst ` set m"
  by (simp add: bt_contains_def bt_get_def map_of_eq_None_iff)

text \<open>Two sorted maps with the same lookups are the same list of entries.\<close>

lemma bt_wf_distinct: "bt_wf m \<Longrightarrow> distinct (map fst m)"
  by (simp add: bt_wf_def strict_sorted_iff)

lemma bt_get_map_of: "bt_get m = map_of m"
  by (rule ext) (simp add: bt_get_def)

lemma bt_ext:
  assumes "bt_wf m" and "bt_wf m'" and "bt_get m = bt_get m'"
  shows "m = m'"
proof -
  have keys: "map fst m = map fst m'"
  proof (rule sorted_distinct_set_unique)
    have "dom (bt_get m) = dom (bt_get m')" using assms(3) by simp
    then show "set (map fst m) = set (map fst m')"
      by (simp add: bt_get_map_of dom_map_of_conv_image_fst)
  qed (use assms(1,2) in \<open>simp_all add: bt_wf_def strict_sorted_iff\<close>)
  have "set m = set m'"
    using assms(3) map_of_inject_set [OF bt_wf_distinct [OF assms(1)] bt_wf_distinct [OF assms(2)]]
    by (simp add: bt_get_map_of)
  moreover have "distinct (map fst m)" using assms(1) by (rule bt_wf_distinct)
  ultimately show ?thesis
    using keys by (metis distinct_map inj_on_subset map_inj_on subset_Un_eq sup.idem)
qed

end
