(* ===== verification/Relay_Net.thy ===== *)
theory Relay_Net
  imports Relay_Prelude
begin

text \<open>
  The part of the standard library's \<open>std::net\<close> that the relay depends on: \<open>IpAddr\<close> and
  \<open>SocketAddr\<close>, their \<open>FromStr\<close> parsers and their \<open>Display\<close> output, with the longest run of
  zero groups of an IPv6 address written \<open>::\<close>. The lemmas show that parsing inverts display, so
  the textual form of an address that the relay uses as a map key is canonical.
\<close>

section \<open>Addresses\<close>

text \<open>\<open>V4\<close> holds four octets and \<open>V6\<close> eight segments; \<open>ip_wf\<close> states the lengths.\<close>

datatype ip_addr = V4 "byte list" | V6 "u16 list"

fun ip_wf :: "ip_addr \<Rightarrow> bool" where
  "ip_wf (V4 os) = (length os = 4)"
| "ip_wf (V6 gs) = (length gs = 8)"

fun is_unspecified :: "ip_addr \<Rightarrow> bool" where
  "is_unspecified (V4 os) = (os = [0, 0, 0, 0])"
| "is_unspecified (V6 gs) = (gs = [0, 0, 0, 0, 0, 0, 0, 0])"

fun is_loopback :: "ip_addr \<Rightarrow> bool" where
  "is_loopback (V4 os) = (os \<noteq> [] \<and> hd os = 127)"
| "is_loopback (V6 gs) = (gs = [0, 0, 0, 0, 0, 0, 0, 1])"

record socket_addr =
  sa_ip :: ip_addr
  sa_port :: u16
  sa_scope :: u32

section \<open>Parsing\<close>

text \<open>A parser consumes a prefix; \<open>None\<close> leaves the position where it was.\<close>

fun read_given_char :: "char \<Rightarrow> string \<Rightarrow> string option" where
  "read_given_char c [] = None"
| "read_given_char c (d # s) = (if d = c then Some s else None)"

fun read_digits :: "nat \<Rightarrow> nat option \<Rightarrow> nat \<Rightarrow> nat \<Rightarrow> string \<Rightarrow> (nat \<times> nat \<times> string) option" where
  "read_digits radix max_digits acc cnt [] = Some (acc, cnt, [])"
| "read_digits radix max_digits acc cnt (c # s) =
     (case to_digit radix c of
        None \<Rightarrow> Some (acc, cnt, c # s)
      | Some d \<Rightarrow>
          if (case max_digits of Some k \<Rightarrow> k < Suc cnt | None \<Rightarrow> False) then None
          else read_digits radix max_digits (acc * radix + d) (Suc cnt) s)"

definition read_number ::
    "nat \<Rightarrow> nat option \<Rightarrow> nat \<Rightarrow> bool \<Rightarrow> string \<Rightarrow> (nat \<times> string) option" where
  "read_number radix max_digits bound allow_zero_prefix s =
     (let has_leading_zero = (s \<noteq> [] \<and> hd s = CHR ''0'')
      in case read_digits radix max_digits 0 0 s of
           None \<Rightarrow> None
         | Some (n, cnt, rest) \<Rightarrow>
             if cnt = 0 then None
             else if \<not> allow_zero_prefix \<and> has_leading_zero \<and> 1 < cnt then None
             else if n < bound then Some (n, rest) else None)"

definition read_ipv4_addr :: "string \<Rightarrow> (byte list \<times> string) option" where
  "read_ipv4_addr s = do {
     (a, s) \<leftarrow> read_number 10 (Some 3) 256 False s;
     s \<leftarrow> read_given_char CHR ''.'' s;
     (b, s) \<leftarrow> read_number 10 (Some 3) 256 False s;
     s \<leftarrow> read_given_char CHR ''.'' s;
     (c, s) \<leftarrow> read_number 10 (Some 3) 256 False s;
     s \<leftarrow> read_given_char CHR ''.'' s;
     (d, s) \<leftarrow> read_number 10 (Some 3) 256 False s;
     Some ([of_nat a, of_nat b, of_nat c, of_nat d], s) }"

definition read_separator :: "bool \<Rightarrow> string \<Rightarrow> string option" where
  "read_separator first s = (if first then Some s else read_given_char CHR '':'' s)"

text \<open>\<open>read_groups k first s\<close> fills at most \<open>k\<close> slots; an embedded IPv4 address fills two.\<close>

fun read_groups :: "nat \<Rightarrow> bool \<Rightarrow> string \<Rightarrow> u16 list \<times> bool \<times> string" where
  "read_groups 0 first s = ([], False, s)"
| "read_groups (Suc k) first s =
     (case (if k = 0 then None else read_separator first s \<bind> read_ipv4_addr) of
        Some (v4, s') \<Rightarrow>
          ([u16_from_be (v4 ! 0) (v4 ! 1), u16_from_be (v4 ! 2) (v4 ! 3)], True, s')
      | None \<Rightarrow>
          (case read_separator first s \<bind> read_number 16 (Some 4) 65536 True of
             Some (g, s') \<Rightarrow>
               (case read_groups k False s' of (gs, v4, r) \<Rightarrow> (of_nat g # gs, v4, r))
           | None \<Rightarrow> ([], False, s)))"

definition read_ipv6_addr :: "string \<Rightarrow> (u16 list \<times> string) option" where
  "read_ipv6_addr s =
     (case read_groups 8 True s of (head, head_ipv4, s) \<Rightarrow>
        if length head = 8 then Some (head, s)
        else if head_ipv4 then None
        else do {
          s \<leftarrow> read_given_char CHR '':'' s;
          s \<leftarrow> read_given_char CHR '':'' s;
          (case read_groups (8 - (length head + 1)) True s of (tail, _, s) \<Rightarrow>
             Some (head @ replicate (8 - length head - length tail) 0 @ tail, s))
        })"

definition read_ip_addr :: "string \<Rightarrow> (ip_addr \<times> string) option" where
  "read_ip_addr s =
     (case read_ipv4_addr s of
        Some (os, r) \<Rightarrow> Some (V4 os, r)
      | None \<Rightarrow> map_option (\<lambda>(gs, r). (V6 gs, r)) (read_ipv6_addr s))"

definition read_port :: "string \<Rightarrow> (u16 \<times> string) option" where
  "read_port s = do {
     s \<leftarrow> read_given_char CHR '':'' s;
     (p, s) \<leftarrow> read_number 10 None 65536 True s;
     Some (of_nat p, s) }"

definition read_scope_id :: "string \<Rightarrow> (u32 \<times> string) option" where
  "read_scope_id s = do {
     s \<leftarrow> read_given_char (CHR ''%'') s;
     (p, s) \<leftarrow> read_number 10 None (2 ^ 32) True s;
     Some (of_nat p, s) }"

definition read_socket_addr :: "string \<Rightarrow> (socket_addr \<times> string) option" where
  "read_socket_addr s =
     (case do { (os, s) \<leftarrow> read_ipv4_addr s; (p, s) \<leftarrow> read_port s;
                Some (\<lparr>sa_ip = V4 os, sa_port = p, sa_scope = 0\<rparr>, s) } of
        Some r \<Rightarrow> Some r
      | None \<Rightarrow> do {
          s \<leftarrow> read_given_char CHR ''['' s;
          (gs, s) \<leftarrow> read_ipv6_addr s;
          let (scope, s) = (case read_scope_id s of Some r \<Rightarrow> r | None \<Rightarrow> (0, s));
          s \<leftarrow> read_given_char CHR '']'' s;
          (p, s) \<leftarrow> read_port s;
          Some (\<lparr>sa_ip = V6 gs, sa_port = p, sa_scope = scope\<rparr>, s) })"

definition parse_with :: "('a \<times> string) option \<Rightarrow> 'a option" where
  "parse_with r = (case r of Some (x, []) \<Rightarrow> Some x | _ \<Rightarrow> None)"

definition parse_ip_addr :: "string \<Rightarrow> ip_addr option" where
  "parse_ip_addr s = parse_with (read_ip_addr s)"

definition parse_socket_addr :: "string \<Rightarrow> socket_addr option" where
  "parse_socket_addr s = parse_with (read_socket_addr s)"

section \<open>Display\<close>

definition show_ipv4 :: "byte list \<Rightarrow> string" where
  "show_ipv4 os = join ''.'' (map (\<lambda>b. show_nat (unat b)) os)"

definition show_group :: "u16 \<Rightarrow> string" where
  "show_group g = show_radix 16 (unat g)"

definition fmt_subslice :: "u16 list \<Rightarrow> string" where
  "fmt_subslice gs = join '':'' (map show_group gs)"

definition to_ipv4_mapped :: "u16 list \<Rightarrow> byte list option" where
  "to_ipv4_mapped gs =
     (if length gs = 8 \<and> take 6 gs = [0, 0, 0, 0, 0, 0xffff]
      then Some (u16_to_be (gs ! 6) @ u16_to_be (gs ! 7)) else None)"

text \<open>The first longest run of zero segments, as its start and length.\<close>

fun zero_span :: "nat \<Rightarrow> nat \<times> nat \<Rightarrow> nat \<times> nat \<Rightarrow> u16 list \<Rightarrow> nat \<times> nat" where
  "zero_span i longest current [] = longest"
| "zero_span i longest current (g # gs) =
     (if g = 0 then
        (let current' = (if snd current = 0 then (i, 1) else (fst current, Suc (snd current)));
             longest' = (if snd longest < snd current' then current' else longest)
         in zero_span (Suc i) longest' current' gs)
      else zero_span (Suc i) longest (0, 0) gs)"

definition show_ipv6 :: "u16 list \<Rightarrow> string" where
  "show_ipv6 gs =
     (case to_ipv4_mapped gs of
        Some v4 \<Rightarrow> ''::ffff:'' @ show_ipv4 v4
      | None \<Rightarrow>
          (case zero_span 0 (0, 0) (0, 0) gs of (start, len) \<Rightarrow>
             if 1 < len
             then fmt_subslice (take start gs) @ ''::'' @ fmt_subslice (drop (start + len) gs)
             else fmt_subslice gs))"

fun show_ip :: "ip_addr \<Rightarrow> string" where
  "show_ip (V4 os) = show_ipv4 os"
| "show_ip (V6 gs) = show_ipv6 gs"

definition show_socket_addr :: "socket_addr \<Rightarrow> string" where
  "show_socket_addr a =
     (case sa_ip a of
        V4 os \<Rightarrow> show_ipv4 os @ '':'' @ show_nat (unat (sa_port a))
      | V6 gs \<Rightarrow>
          ''['' @ show_ipv6 gs
            @ (if sa_scope a = 0 then [] else ''%'' @ show_nat (unat (sa_scope a)))
            @ '']:'' @ show_nat (unat (sa_port a)))"

section \<open>Parsing inverts display\<close>

definition non_digit :: "nat \<Rightarrow> string \<Rightarrow> bool" where
  "non_digit radix rest \<longleftrightarrow> rest = [] \<or> to_digit radix (hd rest) = None"

definition fits :: "nat option \<Rightarrow> nat \<Rightarrow> bool" where
  "fits max_digits n \<longleftrightarrow> (case max_digits of Some k \<Rightarrow> n \<le> k | None \<Rightarrow> True)"

lemma read_digits_stop: "non_digit r rest \<Longrightarrow> read_digits r m acc cnt rest = Some (acc, cnt, rest)"
  by (cases rest) (auto simp: non_digit_def)

lemma read_digits_append:
  assumes "digits_acc r acc ds = Some n" and "fits m (cnt + length ds)" and "non_digit r rest"
  shows "read_digits r m acc cnt (ds @ rest) = Some (n, cnt + length ds, rest)"
  using assms
proof (induction ds arbitrary: acc cnt)
  case (Cons c ds)
  then obtain d where d: "to_digit r c = Some d" "digits_acc r (acc * r + d) ds = Some n"
    by (auto split: option.splits)
  moreover have "fits m (Suc cnt + length ds)" using Cons.prems by simp
  moreover have "\<not> (case m of Some k \<Rightarrow> k < Suc cnt | None \<Rightarrow> False)"
    using Cons.prems(2) by (auto simp: fits_def split: option.splits)
  ultimately show ?case using Cons.IH Cons.prems(3) by simp
qed (simp add: read_digits_stop)

lemma read_number_show [simp]:
  assumes "2 \<le> r" "r \<le> 36" "n < bound" "fits m (length (show_radix r n))" "non_digit r rest"
  shows "read_number r m bound z (show_radix r n @ rest) = Some (n, rest)"
proof -
  have "n = 0" if "hd (show_radix r n) = CHR ''0''"
    using that assms show_radix_leading_zero by blast
  moreover have "length (show_radix r 0) = 1" using assms(1) by (simp add: show_radix_small)
  ultimately have "\<not> (hd (show_radix r n) = CHR ''0'' \<and> 1 < length (show_radix r n))"
    by (metis less_irrefl)
  moreover have "read_digits r m 0 0 (show_radix r n @ rest) = Some (n, length (show_radix r n), rest)"
    using assms read_digits_append [of r 0 "show_radix r n" n m 0] by (simp add: digits_acc_show)
  ultimately show ?thesis using assms(3) by (auto simp: read_number_def Let_def)
qed

lemma read_number_none: "non_digit r s \<Longrightarrow> read_number r m bound z s = None"
  by (simp add: read_number_def read_digits_stop)

lemma non_digit_punct [simp]:
  "non_digit 10 (CHR ''.'' # s)" "non_digit 10 (CHR '':'' # s)" "non_digit 16 (CHR '':'' # s)"
  "non_digit 10 (CHR ''%'' # s)" "non_digit 16 (CHR ''%'' # s)" "non_digit 10 (CHR '']'' # s)"
  "non_digit 16 (CHR '']'' # s)" "non_digit 10 (CHR ''['' # s)" "non_digit r []"
  by (simp_all add: non_digit_def to_digit_def)

subsection \<open>IPv4\<close>

lemma fits_octet: "fits (Some 3) (length (show_nat (unat (b :: byte))))"
  using length_show_radix [of 10 "unat b" 3] unat_byte_bound [of b] by (simp add: fits_def)

lemma length_4_iff: "length xs = 4 \<longleftrightarrow> (\<exists>a b c d. xs = [a, b, c, d])"
  by (auto simp: numeral_eq_Suc length_Suc_conv)

lemma read_ipv4_show:
  assumes "length os = 4" and "non_digit 10 rest"
  shows "read_ipv4_addr (show_ipv4 os @ rest) = Some (os, rest)"
proof -
  obtain a b c d where "os = [a, b, c, d]" using assms(1) by (auto simp: length_4_iff)
  with assms(2) show ?thesis
    by (simp add: read_ipv4_addr_def show_ipv4_def fits_octet)
qed

text \<open>A parser that sees no dotted number does not take the IPv4 branch.\<close>

lemma read_digits_rest:
  "read_digits r m acc cnt s = Some (n, k, rest) \<Longrightarrow> \<exists>ds. s = ds @ rest \<and> (\<forall>c \<in> set ds. to_digit r c \<noteq> None)"
proof (induction r m acc cnt s rule: read_digits.induct)
  case (2 radix m acc cnt c s)
  show ?case
  proof (cases "to_digit radix c")
    case (Some d)
    with 2 obtain ds where "s = ds @ rest" "\<forall>c \<in> set ds. to_digit radix c \<noteq> None"
      by (auto split: if_splits)
    with Some show ?thesis by (intro exI [of _ "c # ds"]) auto
  qed (use 2 in auto)
qed simp

lemma read_number_rest:
  "read_number r m b z s = Some (n, rest) \<Longrightarrow> n < b \<and> (\<exists>ds. s = ds @ rest \<and> (\<forall>c \<in> set ds. to_digit r c \<noteq> None))"
  using read_digits_rest by (fastforce simp: read_number_def Let_def split: option.splits if_splits)

lemma read_given_char_Some [simp]: "read_given_char c s = Some r \<longleftrightarrow> s = c # r"
  by (cases s) auto

lemma read_ipv4_none:
  assumes "s = ds @ rest" and "\<forall>c \<in> set ds. c \<noteq> CHR ''.''" and "rest \<noteq> [] \<longrightarrow> hd rest \<noteq> CHR ''.'' \<and> to_digit 10 (hd rest) = None"
  shows "read_ipv4_addr s = None"
proof (cases "read_number 10 (Some 3) 256 False s")
  case (Some r)
  obtain n t where r: "r = (n, t)" by fastforce
  then obtain es where es: "s = es @ t" "\<forall>c \<in> set es. to_digit 10 c \<noteq> None"
    using read_number_rest Some by blast
  have "read_given_char CHR ''.'' t = None"
  proof (rule ccontr)
    assume "read_given_char CHR ''.'' t \<noteq> None"
    then obtain u where "t = CHR ''.'' # u" by auto
    with assms(1) es(1) have "ds @ rest = es @ CHR ''.'' # u" by simp
    then consider fs where "ds = es @ fs" "fs @ rest = CHR ''.'' # u"
      | fs where "es = ds @ fs" "rest = fs @ CHR ''.'' # u"
      by (auto simp: append_eq_append_conv2)
    then show False
    proof cases
      case (1 fs)
      then show False using assms(2,3) by (cases fs) auto
    next
      case (2 fs)
      then show False using assms(3) es(2) by (cases fs) auto
    qed
  qed
  with Some r show ?thesis by (simp add: read_ipv4_addr_def)
qed (simp add: read_ipv4_addr_def)

subsection \<open>IPv6\<close>

text \<open>What may follow a group, and what ends a sequence of groups.\<close>

definition after_group :: "string \<Rightarrow> bool" where
  "after_group rest \<longleftrightarrow> (rest \<noteq> [] \<longrightarrow> to_digit 16 (hd rest) = None \<and> hd rest \<noteq> CHR ''.'')"

definition stops :: "string \<Rightarrow> bool" where
  "stops rest \<longleftrightarrow> after_group rest \<and> (\<forall>r. rest = CHR '':'' # r \<longrightarrow> r \<noteq> [] \<and> hd r = CHR '':'')"

definition colon_groups :: "u16 list \<Rightarrow> string" where
  "colon_groups gs = concat (map (\<lambda>g. CHR '':'' # show_group g) gs)"

lemma colon_groups_simps [simp]:
  "colon_groups [] = []" "colon_groups (g # gs) = CHR '':'' # show_group g @ colon_groups gs"
  by (simp_all add: colon_groups_def)

lemma to_digit_10_16: "to_digit 16 c = None \<Longrightarrow> to_digit 10 c = None"
  by (auto simp: to_digit_def Let_def split: if_splits)

lemma after_group_simps [simp]:
  "after_group []" "after_group (CHR '':'' # s)" "after_group (CHR ''%'' # s)" "after_group (CHR '']'' # s)"
  by (simp_all add: after_group_def to_digit_def)

lemma stops_simps [simp]:
  "stops []" "stops (CHR '':'' # CHR '':'' # s)" "stops (CHR ''%'' # s)" "stops (CHR '']'' # s)"
  by (simp_all add: stops_def)

lemma after_group_colon_groups: "after_group rest \<Longrightarrow> after_group (colon_groups gs @ rest)"
  by (cases gs) simp_all

lemma stops_after_group: "stops rest \<Longrightarrow> after_group rest"
  by (simp add: stops_def)

lemma read_ipv4_none_empty: "after_group rest \<Longrightarrow> read_ipv4_addr rest = None"
  by (rule read_ipv4_none [of _ "[]"]) (auto simp: after_group_def to_digit_10_16)

lemma read_group_none: "after_group rest \<Longrightarrow> read_number 16 m b z rest = None"
  by (rule read_number_none) (auto simp: after_group_def non_digit_def)

lemma show_group_not_dot: "c \<in> set (show_group g) \<Longrightarrow> c \<noteq> CHR ''.''"
  using show_radix_digits [of 16 c "unat g"] by (auto simp: show_group_def digit_char_neq)

lemma after_group_non_digit: "after_group rest \<Longrightarrow> non_digit 16 rest"
  by (auto simp: after_group_def non_digit_def)

lemma read_group_show:
  assumes "after_group rest"
  shows "read_number 16 (Some 4) 65536 z (show_group g @ rest) = Some (unat g, rest)"
    and "read_ipv4_addr (show_group g @ rest) = None"
proof -
  have "fits (Some 4) (length (show_radix 16 (unat g)))"
    using length_show_radix [of 16 "unat g" 4] unat_u16_bound [of g] by (simp add: fits_def)
  with assms show "read_number 16 (Some 4) 65536 z (show_group g @ rest) = Some (unat g, rest)"
    by (simp add: show_group_def after_group_non_digit)
  show "read_ipv4_addr (show_group g @ rest) = None"
    using assms show_group_not_dot
    by (intro read_ipv4_none [of _ "show_group g" rest]) (auto simp: after_group_def to_digit_10_16)
qed

lemma read_groups_stop:
  assumes "after_group rest" and "first \<or> stops rest"
  shows "read_groups k first rest = ([], False, rest)"
proof (cases k)
  case (Suc k')
  have "after_group t" if "read_separator first rest = Some t" for t
  proof (cases first)
    case False
    then have "t \<noteq> []" "hd t = CHR '':''"
      using that assms(2) by (auto simp: read_separator_def stops_def)
    then show ?thesis by (cases t) auto
  qed (use that assms(1) in \<open>simp add: read_separator_def\<close>)
  then have "read_separator first rest \<bind> read_ipv4_addr = None"
    and "read_separator first rest \<bind> read_number 16 (Some 4) 65536 True = None"
    by (cases "read_separator first rest"; simp add: read_ipv4_none_empty read_group_none)+
  with Suc show ?thesis by simp
qed simp

lemma read_groups_colon:
  assumes "length gs \<le> k" and "stops rest"
  shows "read_groups k False (colon_groups gs @ rest) = (gs, False, rest)"
  using assms(1)
proof (induction gs arbitrary: k)
  case Nil
  with assms(2) show ?case by (simp add: read_groups_stop stops_after_group)
next
  case (Cons g gs)
  then obtain k' where "k = Suc k'" "length gs \<le> k'" by (cases k) auto
  moreover have "after_group (colon_groups gs @ rest)"
    using assms(2) by (intro after_group_colon_groups stops_after_group)
  ultimately show ?case
    using Cons.IH by (cases gs) (auto simp: read_separator_def read_group_show)
qed

lemma fmt_subslice_Cons: "fmt_subslice (g # gs) = show_group g @ colon_groups gs"
proof (induction gs arbitrary: g)
  case (Cons h gs)
  then show ?case by (simp add: fmt_subslice_def)
qed (simp add: fmt_subslice_def)

lemma fmt_subslice_Nil [simp]: "fmt_subslice [] = []"
  by (simp add: fmt_subslice_def)

lemma read_groups_fmt:
  assumes "length gs \<le> k" and "stops rest"
  shows "read_groups k True (fmt_subslice gs @ rest) = (gs, False, rest)"
proof (cases gs)
  case Nil
  with assms show ?thesis by (simp add: read_groups_stop stops_after_group)
next
  case (Cons g hs)
  with assms obtain k' where "k = Suc k'" "length hs \<le> k'" by (cases k) auto
  moreover have "after_group (colon_groups hs @ rest)"
    using assms(2) by (intro after_group_colon_groups stops_after_group)
  ultimately show ?thesis
    using Cons assms(2) read_groups_colon [of hs k' rest]
    by (cases hs) (auto simp: read_separator_def read_group_show fmt_subslice_Cons)
qed

text \<open>The span that \<open>Display\<close> elides holds zeros only.\<close>

definition span_ok :: "u16 list \<Rightarrow> nat \<times> nat \<Rightarrow> bool" where
  "span_ok xs sp \<longleftrightarrow> fst sp + snd sp \<le> length xs \<and> (\<forall>j. fst sp \<le> j \<and> j < fst sp + snd sp \<longrightarrow> xs ! j = 0)"

lemma zero_span_ok:
  assumes "gs = drop i xs" and "span_ok xs longest" and "span_ok xs current"
    and "0 < snd current \<Longrightarrow> fst current + snd current = i"
  shows "span_ok xs (zero_span i longest current gs)"
  using assms
proof (induction gs arbitrary: i longest current)
  case (Cons g gs)
  from Cons.prems(1) have i: "i < length xs" "xs ! i = g" "gs = drop (Suc i) xs"
    by (metis drop_all linorder_not_le list.distinct(1), metis nth_via_drop, metis drop_Suc list.sel(3) tl_drop)
  define current' where "current' = (if snd current = 0 then (i, 1) else (fst current, Suc (snd current)))"
  have c: "fst current' + snd current' = Suc i"
    using Cons.prems(4) by (auto simp: current'_def)
  show ?case
  proof (cases "g = 0")
    case True
    have "span_ok xs current'"
      using True i Cons.prems(3,4) by (auto simp: span_ok_def current'_def less_Suc_eq)
    with True c Cons.prems(2) show ?thesis
      by (auto simp: Let_def current'_def [symmetric] intro!: Cons.IH [OF i(3)])
  next
    case False
    moreover have "span_ok xs (0, 0)" by (simp add: span_ok_def)
    ultimately show ?thesis
      using Cons.prems(2) by (auto intro!: Cons.IH [OF i(3)])
  qed
qed simp

lemma span_ok_split:
  assumes "span_ok xs (a, l)"
  shows "xs = take a xs @ replicate l 0 @ drop (a + l) xs"
proof -
  have "take l (drop a xs) = replicate l 0"
    using assms by (intro nth_equalityI) (auto simp: span_ok_def)
  then show ?thesis by (metis append_take_drop_id drop_drop add.commute)
qed

lemma read_ipv6_show_plain:
  assumes "length gs = 8" and "stops rest" and "to_ipv4_mapped gs = None"
  shows "read_ipv6_addr (show_ipv6 gs @ rest) = Some (gs, rest)"
proof -
  obtain a l where z: "zero_span 0 (0, 0) (0, 0) gs = (a, l)" by fastforce
  have ok: "span_ok gs (a, l)"
    using zero_span_ok [of gs 0 gs "(0, 0)" "(0, 0)"] z by (simp add: span_ok_def)
  then have al: "a + l \<le> 8" using assms(1) by (simp add: span_ok_def)
  show ?thesis
  proof (cases "1 < l")
    case False
    with assms z read_groups_fmt [of gs 8 rest] show ?thesis
      by (simp add: read_ipv6_addr_def show_ipv6_def)
  next
    case True
    let ?head = "take a gs" and ?tail = "drop (a + l) gs"
    have "read_groups 8 True (fmt_subslice ?head @ CHR '':'' # CHR '':'' # fmt_subslice ?tail @ rest) =
        (?head, False, CHR '':'' # CHR '':'' # fmt_subslice ?tail @ rest)"
      using al by (intro read_groups_fmt) auto
    moreover have "read_groups (8 - (length ?head + 1)) True (fmt_subslice ?tail @ rest) = (?tail, False, rest)"
      using al True assms by (intro read_groups_fmt) auto
    moreover have "?head @ replicate (8 - length ?head - length ?tail) 0 @ ?tail = gs"
      using span_ok_split [OF ok] assms(1) al by simp
    ultimately show ?thesis
      using assms(1,3) z True al by (simp add: read_ipv6_addr_def show_ipv6_def)
  qed
qed

lemma to_ipv4_mapped_Some:
  assumes "to_ipv4_mapped gs = Some v4"
  obtains a b c d where "v4 = [a, b, c, d]"
    "gs = [0, 0, 0, 0, 0, 0xffff, u16_from_be a b, u16_from_be c d]"
proof -
  from assms have l: "length gs = 8" and t: "take 6 gs = [0, 0, 0, 0, 0, 0xffff]"
    and v4: "v4 = u16_to_be (gs ! 6) @ u16_to_be (gs ! 7)"
    by (auto simp: to_ipv4_mapped_def split: if_splits)
  have "gs = take 6 gs @ [gs ! 6, gs ! 7]"
    using l by (intro nth_equalityI) (auto simp: nth_append less_Suc_eq numeral_eq_Suc)
  then have "gs = [0, 0, 0, 0, 0, 0xffff, gs ! 6, gs ! 7]"
    by (simp add: t)
  then show thesis
    using that v4 u16_from_to_be unfolding u16_to_be_def by (metis append_Cons append_Nil)
qed

lemma read_ipv6_show_mapped:
  assumes "to_ipv4_mapped gs = Some v4" and "stops rest"
  shows "read_ipv6_addr (show_ipv6 gs @ rest) = Some (gs, rest)"
  using assms(1)
proof (rule to_ipv4_mapped_Some)
  fix a b c d
  assume v4: "v4 = [a, b, c, d]"
    and gs: "gs = [0, 0, 0, 0, 0, 0xffff, u16_from_be a b, u16_from_be c d]"
  let ?t = "CHR '':'' # show_ipv4 v4 @ rest"
  have "digit_char 15 = CHR ''f''" by code_simp
  then have f: "''ffff'' = show_group 0xffff"
    by (simp add: show_group_def show_radix_step show_radix_small)
  have head: "read_groups 8 True (''::ffff'' @ ?t) = ([], False, ''::ffff'' @ ?t)"
    by (rule read_groups_stop) simp_all
  have "read_ipv4_addr (show_ipv4 v4 @ rest) = Some (v4, rest)"
    using v4 assms(2)
    by (intro read_ipv4_show) (auto simp: stops_def after_group_def non_digit_def to_digit_10_16)
  then have "read_groups (Suc (Suc (Suc k))) True (''ffff'' @ ?t) =
      ([0xffff, u16_from_be a b, u16_from_be c d], True, rest)" for k
    unfolding f by (simp add: read_separator_def read_group_show v4)
  from this [of 4] have "read_groups 7 True (''ffff'' @ ?t) =
      ([0xffff, u16_from_be a b, u16_from_be c d], True, rest)"
    by (simp add: numeral_eq_Suc)
  with head show ?thesis
    using assms(1) by (simp add: show_ipv6_def read_ipv6_addr_def gs numeral_eq_Suc)
qed

lemma read_ipv6_show:
  "length gs = 8 \<Longrightarrow> stops rest \<Longrightarrow> read_ipv6_addr (show_ipv6 gs @ rest) = Some (gs, rest)"
  by (cases "to_ipv4_mapped gs") (simp_all add: read_ipv6_show_plain read_ipv6_show_mapped)

lemma read_ipv4_fmt_none: "after_group t \<Longrightarrow> read_ipv4_addr (fmt_subslice hs @ t) = None"
  by (cases hs) (simp_all add: read_ipv4_none_empty fmt_subslice_Cons read_group_show after_group_colon_groups)

lemma read_ipv4_show_ipv6: "after_group rest \<Longrightarrow> read_ipv4_addr (show_ipv6 gs @ rest) = None"
  by (auto simp: show_ipv6_def read_ipv4_none_empty read_ipv4_fmt_none split: option.split prod.split)

lemma parse_with_Some [simp]: "parse_with (Some (x, [])) = Some x"
  by (simp add: parse_with_def)

lemma parse_show_ip: "ip_wf ip \<Longrightarrow> parse_ip_addr (show_ip ip) = Some ip"
  using read_ipv4_show [of _ "[]"] read_ipv6_show [of _ "[]"] read_ipv4_show_ipv6 [of "[]"]
  by (cases ip) (simp_all add: parse_ip_addr_def read_ip_addr_def)

lemma read_ipv4_wf: "read_ipv4_addr s = Some (os, r) \<Longrightarrow> length os = 4"
  by (auto simp: read_ipv4_addr_def split: Option.bind_splits)

lemma read_groups_length: "read_groups k first s = (gs, v4, r) \<Longrightarrow> length gs \<le> k"
proof (induction k first s arbitrary: gs v4 r rule: read_groups.induct)
  case (2 k first s)
  then show ?case by (auto split: option.splits prod.splits if_splits)
qed auto

lemma read_ipv6_wf: "read_ipv6_addr s = Some (gs, r) \<Longrightarrow> length gs = 8"
proof -
  assume a: "read_ipv6_addr s = Some (gs, r)"
  obtain head v4 t where h: "read_groups 8 True s = (head, v4, t)" by (metis prod_cases3)
  then have "length head \<le> 8" by (rule read_groups_length)
  with a h read_groups_length show ?thesis
    by (fastforce simp: read_ipv6_addr_def split: if_splits Option.bind_splits prod.splits)
qed

lemma parse_ip_wf:
  assumes "parse_ip_addr s = Some ip"
  shows "ip_wf ip"
proof -
  from assms have "read_ip_addr s = Some (ip, [])"
    by (auto simp: parse_ip_addr_def parse_with_def split: option.splits list.splits)
  then consider os where "read_ipv4_addr s = Some (os, [])" "ip = V4 os"
    | gs where "read_ipv6_addr s = Some (gs, [])" "ip = V6 gs"
    by (auto simp: read_ip_addr_def split: option.splits)
  then show ?thesis by cases (simp_all add: read_ipv4_wf read_ipv6_wf)
qed

lemma read_port_show: "read_port (CHR '':'' # show_nat (unat p)) = Some (p, [])"
  using read_number_show [of 10 "unat p" 65536 None "[]" True]
  by (simp add: read_port_def fits_def)

lemma read_scope_show:
  "read_scope_id (CHR ''%'' # show_nat (unat n) @ CHR '']'' # s) = Some (n, CHR '']'' # s)"
  using unsigned_less [of n, where ?'a = nat] by (simp add: read_scope_id_def fits_def)

lemma read_scope_none: "read_scope_id (CHR '']'' # s) = None"
  by (simp add: read_scope_id_def)

lemma parse_show_socket_addr:
  assumes "ip_wf (sa_ip a)" and "sa_scope a = 0 \<or> (\<exists>gs. sa_ip a = V6 gs)"
  shows "parse_socket_addr (show_socket_addr a) = Some a"
proof (cases "sa_ip a")
  case (V4 os)
  with assms show ?thesis
    using read_ipv4_show [of os "CHR '':'' # show_nat (unat (sa_port a))"]
    by (simp add: parse_socket_addr_def read_socket_addr_def show_socket_addr_def read_port_show)
next
  case (V6 gs)
  have "read_ipv4_addr (CHR ''['' # s) = None" for s
    by (simp add: read_ipv4_addr_def read_number_none)
  moreover have "read_ipv6_addr (show_ipv6 gs @ CHR '']'' # s) = Some (gs, CHR '']'' # s)"
    "read_ipv6_addr (show_ipv6 gs @ CHR ''%'' # s) = Some (gs, CHR ''%'' # s)" for s
    using assms(1) V6 by (simp_all add: read_ipv6_show)
  ultimately show ?thesis
    using V6 by (simp add: parse_socket_addr_def read_socket_addr_def show_socket_addr_def
        read_port_show read_scope_show read_scope_none)
qed

lemma show_ip_inj: "ip_wf a \<Longrightarrow> ip_wf b \<Longrightarrow> show_ip a = show_ip b \<longleftrightarrow> a = b"
  by (metis option.inject parse_show_ip)

text \<open>An address has no white space, so trimming its text changes nothing.\<close>

definition no_ws :: "string \<Rightarrow> bool" where
  "no_ws s = list_all (\<lambda>c. \<not> is_whitespace c) s"

lemma no_ws_append [simp]: "no_ws (a @ b) \<longleftrightarrow> no_ws a \<and> no_ws b"
  by (simp add: no_ws_def)

lemma no_ws_trim: "no_ws s \<Longrightarrow> trim s = s"
  by (rule trim_no_ws) (simp add: no_ws_def list_all_iff)

lemma list_all_join: "list_all P sep \<Longrightarrow> list_all (list_all P) xs \<Longrightarrow> list_all P (join sep xs)"
  by (induction sep xs rule: join.induct) simp_all

lemma list_all_show_radix:
  assumes "2 \<le> r" and "r \<le> 36" and "\<And>d. d < r \<Longrightarrow> P (digit_char d)"
  shows "list_all P (show_radix r n)"
  using show_radix_digits [OF assms(1,2), of _ n] assms(3) by (auto simp: list_all_iff)

lemma no_ws_show_radix [simp]: "2 \<le> r \<Longrightarrow> r \<le> 36 \<Longrightarrow> no_ws (show_radix r n)"
  unfolding no_ws_def by (rule list_all_show_radix) (simp_all add: digit_char_neq)

lemma show_ip_chars:
  assumes d: "\<And>d. d < 16 \<Longrightarrow> P (digit_char d)" and p: "P CHR ''.''" "P CHR '':''"
  shows "list_all P (show_ip ip)"
proof -
  have "digit_char 15 = CHR ''f''" by code_simp
  then have f: "P CHR ''f''" using d [of 15] by simp
  have r: "\<forall>c \<in> set (show_radix 10 n). P c" "\<forall>c \<in> set (show_radix 16 n). P c" for n
    using list_all_show_radix [of 10 P n] list_all_show_radix [of 16 P n] d by (simp_all add: list_all_iff)
  have "list_all P (show_ipv4 os)" for os
    unfolding show_ipv4_def
    by (rule list_all_join) (use d p r in \<open>simp_all add: list.pred_map o_def list_all_iff\<close>)
  moreover have "list_all P (fmt_subslice gs)" for gs
    unfolding fmt_subslice_def
    by (rule list_all_join) (use d p r in \<open>simp_all add: list.pred_map o_def show_group_def list_all_iff\<close>)
  ultimately show ?thesis
    using p f by (cases ip) (auto simp: show_ipv6_def split: option.split prod.split)
qed

lemma no_ws_show_ip: "no_ws (show_ip ip)"
  unfolding no_ws_def by (rule show_ip_chars) (simp_all add: digit_char_neq, simp_all add: is_whitespace_def)

lemma length_join: "list_all (\<lambda>x. length x \<le> k) xs \<Longrightarrow> length (join [c] xs) \<le> Suc k * length xs"
  by (induction "[c]" xs rule: join.induct) simp_all

lemma length_show_ip:
  assumes "ip_wf ip"
  shows "length (show_ip ip) \<le> 48" and "show_ip ip \<noteq> []"
proof -
  have v4: "length (show_ipv4 os) \<le> 4 * length os" for os
    using fits_octet length_join [of 3 "map (\<lambda>b. show_nat (unat b)) os" "CHR ''.''"]
    by (simp add: show_ipv4_def fits_def list_all_iff)
  have v6: "length (fmt_subslice gs) \<le> 5 * length gs" for gs
    using length_show_radix [of 16 _ 4] length_join [of 4 "map show_group gs" "CHR '':''"]
    by (simp add: fmt_subslice_def show_group_def list_all_iff)
  show "length (show_ip ip) \<le> 48"
  proof (cases ip)
    case (V4 os)
    with v4 [of os] assms show ?thesis by simp
  next
    case (V6 gs)
    show ?thesis
    proof (cases "to_ipv4_mapped gs")
      case None
      obtain i n where z: "zero_span 0 (0, 0) (0, 0) gs = (i, n)" by fastforce
      have "length (fmt_subslice (take i gs)) + length (fmt_subslice (drop (i + n) gs)) \<le> 5 * length gs"
        using v6 [of "take i gs"] v6 [of "drop (i + n) gs"] by (simp add: min_def split: if_splits)
      with None z V6 assms v6 [of gs] show ?thesis by (auto simp: show_ipv6_def)
    next
      case (Some os)
      then have "length os = 4" by (auto simp: to_ipv4_mapped_def split: if_splits)
      with Some V6 v4 [of os] show ?thesis by (simp add: show_ipv6_def)
    qed
  qed
  have "parse_ip_addr [] = None" by code_simp
  then show "show_ip ip \<noteq> []" using parse_show_ip [OF assms] by auto
qed

end
