(* ===== verification/Relay_Hosts.thy ===== *)
theory Relay_Hosts
  imports Relay_Net
begin

text \<open>
  The hosts table of \<open>src/hosts.rs\<close>: which host names the relay serves and to which backend each
  one goes. The \<open>regex\<close> crate is a parameter (\<open>regex_crate\<close>): \<open>rx_new\<close> says whether a
  pattern compiles and \<open>rx_is_match\<close> whether the compiled pattern matches somewhere in a text; a
  compiled pattern is named by its source text. The refinement lemma shows that the table built by
  \<open>compile\<close> answers as a scan of the configured rows does.
\<close>

section \<open>The table and its operations\<close>

record regex_crate =
  rx_new :: "string \<Rightarrow> bool"
  rx_is_match :: "string \<Rightarrow> string \<Rightarrow> bool"

record hosts_entry =
  he_pattern :: string
  he_address :: string

datatype host_resolve = Passthrough | Ip ip_addr | Hostname string

record hosts_table =
  ht_exact :: "(string, host_resolve) hash_map"
  ht_patterns :: "(string \<times> host_resolve) list"
  ht_open_catchall :: bool

text \<open>The only error of a compilation: a pattern that is not a regular expression, by its row.\<close>

datatype hosts_error = InvalidRegex nat string

definition parse_address :: "string \<Rightarrow> host_resolve" where
  "parse_address address =
     (let address = trim address
      in if address = ''*'' then Passthrough
         else case parse_ip_addr address of
                Some ip \<Rightarrow> Ip ip
              | None \<Rightarrow> Hostname address)"

definition is_regex :: "string \<Rightarrow> bool" where
  "is_regex pattern \<longleftrightarrow>
     pattern = ''.*'' \<or> CHR ''*'' \<in> set pattern \<or> CHR ''?'' \<in> set pattern
     \<or> starts_with pattern ''^'' \<or> ends_with pattern ''$''"

definition compile_entry :: "string \<Rightarrow> string \<Rightarrow> bool \<times> string \<times> host_resolve" where
  "compile_entry pattern address =
     (let resolve = parse_address address; pattern = trim pattern
      in if is_regex pattern then (False, pattern, resolve)
         else (True, to_lowercase pattern, resolve))"

fun compile_loop ::
    "regex_crate \<Rightarrow> nat \<Rightarrow> (string, host_resolve) hash_map \<Rightarrow> (string \<times> host_resolve) list
     \<Rightarrow> hosts_entry list \<Rightarrow> hosts_error + (string, host_resolve) hash_map \<times> (string \<times> host_resolve) list"
where
  "compile_loop rx i exact patterns [] = Inr (exact, patterns)"
| "compile_loop rx i exact patterns (entry # entries) =
     (case compile_entry (he_pattern entry) (he_address entry) of (is_exact, key, resolve) \<Rightarrow>
        if is_exact then compile_loop rx (Suc i) (hm_insert key resolve exact) patterns entries
        else if rx_new rx key
        then compile_loop rx (Suc i) exact (patterns @ [(key, resolve)]) entries
        else Inl (InvalidRegex i key))"

definition compile :: "regex_crate \<Rightarrow> hosts_entry list \<Rightarrow> hosts_error + hosts_table" where
  "compile rx entries =
     (let open_catchall =
            list_ex (\<lambda>e. trim (he_pattern e) = ''.*'' \<and> trim (he_address e) = ''*'') entries
      in case compile_loop rx 0 [] [] entries of
           Inl e \<Rightarrow> Inl e
         | Inr (exact, patterns) \<Rightarrow>
             Inr \<lparr>ht_exact = exact, ht_patterns = patterns, ht_open_catchall = open_catchall\<rparr>)"

fun resolve_patterns :: "regex_crate \<Rightarrow> (string \<times> host_resolve) list \<Rightarrow> string \<Rightarrow> host_resolve option" where
  "resolve_patterns rx [] host = None"
| "resolve_patterns rx ((re, resolve) # ps) host =
     (if rx_is_match rx re host then Some resolve else resolve_patterns rx ps host)"

definition resolve :: "regex_crate \<Rightarrow> hosts_table \<Rightarrow> string \<Rightarrow> host_resolve option" where
  "resolve rx t hostname =
     (let host = to_lowercase hostname
      in case hm_get (ht_exact t) host of
           Some r \<Rightarrow> Some r
         | None \<Rightarrow> resolve_patterns rx (ht_patterns t) host)"

definition has_open_catchall :: "hosts_table \<Rightarrow> bool" where
  "has_open_catchall t = ht_open_catchall t"

definition stats :: "hosts_table \<Rightarrow> nat \<times> nat" where
  "stats t = (length (ht_exact t), length (ht_patterns t))"

definition compile_hosts_table :: "regex_crate \<Rightarrow> hosts_entry list \<Rightarrow> hosts_error + hosts_table option" where
  "compile_hosts_table rx entries =
     (if entries = [] then Inr None
      else case compile rx entries of Inl e \<Rightarrow> Inl e | Inr t \<Rightarrow> Inr (Some t))"

section \<open>The rows as a specification\<close>

text \<open>
  What the configuration means: the last row whose pattern is the host name itself, or else the
  first regular-expression row that matches the lower-cased name.
\<close>

definition exact_row :: "hosts_entry \<Rightarrow> bool" where
  "exact_row e \<longleftrightarrow> \<not> is_regex (trim (he_pattern e))"

definition row_names :: "string \<Rightarrow> hosts_entry \<Rightarrow> bool" where
  "row_names host e \<longleftrightarrow> exact_row e \<and> to_lowercase (trim (he_pattern e)) = host"

definition row_matches :: "regex_crate \<Rightarrow> string \<Rightarrow> hosts_entry \<Rightarrow> bool" where
  "row_matches rx host e \<longleftrightarrow> \<not> exact_row e \<and> rx_is_match rx (trim (he_pattern e)) host"

definition rows_resolve :: "regex_crate \<Rightarrow> hosts_entry list \<Rightarrow> string \<Rightarrow> host_resolve option" where
  "rows_resolve rx entries hostname =
     (let host = to_lowercase hostname
      in case find (row_names host) (rev entries) of
           Some e \<Rightarrow> Some (parse_address (he_address e))
         | None \<Rightarrow> map_option (\<lambda>e. parse_address (he_address e)) (find (row_matches rx host) entries))"

definition rows_ok :: "regex_crate \<Rightarrow> hosts_entry list \<Rightarrow> bool" where
  "rows_ok rx entries = list_all (\<lambda>e. exact_row e \<or> rx_new rx (trim (he_pattern e))) entries"

lemma compile_entry_simps:
  "exact_row e \<Longrightarrow> compile_entry (he_pattern e) (he_address e) =
     (True, to_lowercase (trim (he_pattern e)), parse_address (he_address e))"
  "\<not> exact_row e \<Longrightarrow> compile_entry (he_pattern e) (he_address e) =
     (False, trim (he_pattern e), parse_address (he_address e))"
  by (simp_all add: compile_entry_def exact_row_def Let_def)

lemma compile_loop_ok:
  "(\<exists>r. compile_loop rx i exact patterns entries = Inr r) \<longleftrightarrow> rows_ok rx entries"
proof (induction entries arbitrary: i exact patterns)
  case (Cons e entries)
  then show ?case by (cases "exact_row e") (simp_all add: rows_ok_def compile_entry_simps)
qed (simp add: rows_ok_def)

lemma compile_loop_tables:
  assumes "compile_loop rx i exact patterns entries = Inr (exact', patterns')" and "hm_wf exact"
  shows "hm_get exact' host =
      (case find (row_names host) (rev entries) of
         Some e \<Rightarrow> Some (parse_address (he_address e)) | None \<Rightarrow> hm_get exact host)"
    and "patterns' = patterns @
      map (\<lambda>e. (trim (he_pattern e), parse_address (he_address e))) (filter (\<lambda>e. \<not> exact_row e) entries)"
    and "hm_wf exact'"
  using assms
proof (induction entries arbitrary: i exact patterns)
  case (Cons e entries)
  case 1
  with Cons show ?case
    by (cases "exact_row e")
      (auto simp: compile_entry_simps row_names_def hm.get_insert hm.inv_insert find_append
        split: if_splits option.splits)
  case 2
  with Cons.IH(2) show ?case
    by (cases "exact_row e") (fastforce simp: compile_entry_simps hm.inv_insert split: if_splits)+
  case 3
  with Cons show ?case
    by (cases "exact_row e") (auto simp: compile_entry_simps hm.inv_insert split: if_splits)
qed simp_all

lemma resolve_patterns_find:
  "resolve_patterns rx (map (\<lambda>e. (trim (he_pattern e), f e)) (filter (\<lambda>e. \<not> exact_row e) entries)) host =
     map_option f (find (row_matches rx host) entries)"
  by (induction entries) (simp_all add: row_matches_def)

lemma compile_SomeE:
  assumes "compile rx entries = Inr t"
  obtains "compile_loop rx 0 [] [] entries = Inr (ht_exact t, ht_patterns t)"
  using assms by (auto simp: compile_def Let_def split: sum.splits)

lemma compile_refines_rows:
  assumes "compile rx entries = Inr t"
  shows "resolve rx t hostname = rows_resolve rx entries hostname"
  using assms
proof (rule compile_SomeE)
  assume loop: "compile_loop rx 0 [] [] entries = Inr (ht_exact t, ht_patterns t)"
  note tables = compile_loop_tables [OF loop hm.inv_empty]
  show ?thesis
    unfolding resolve_def rows_resolve_def tables(1)
    by (simp add: tables(2) resolve_patterns_find hm.get_empty Let_def split: option.split)
qed

lemma compile_ok_iff: "(\<exists>t. compile rx entries = Inr t) \<longleftrightarrow> rows_ok rx entries"
  using compile_loop_ok [of rx 0 "[]" "[]" entries]
  by (auto simp: compile_def Let_def split: sum.splits)

lemma rows_resolve_listed:
  "rows_resolve rx entries hostname \<noteq> None \<longleftrightarrow>
     (\<exists>e \<in> set entries. row_names (to_lowercase hostname) e \<or> row_matches rx (to_lowercase hostname) e)"
  using find_None_iff_ex [of "row_names (to_lowercase hostname)" "rev entries"]
    find_None_iff_ex [of "row_matches rx (to_lowercase hostname)" entries]
  by (auto simp: rows_resolve_def Let_def split: option.splits)

definition row_lists :: "regex_crate \<Rightarrow> string \<Rightarrow> hosts_entry \<Rightarrow> bool" where
  "row_lists rx hostname e \<longleftrightarrow>
     row_names (to_lowercase hostname) e \<or> row_matches rx (to_lowercase hostname) e"

section \<open>Properties\<close>

text \<open>C13: the hosts table is the allowlist the configuration describes. A configuration compiles
  exactly when each of its regular-expression rows does; the compiled table then answers every
  host name as the rows do: the last row that names the host exactly, else the first matching
  regular expression in configuration order, whatever the iteration order of the hash map.\<close>

theorem hosts_table_refines_rows:
  "(\<exists>t. compile rx entries = Inr t) = rows_ok rx entries
   \<and> (\<forall>t hostname. compile rx entries = Inr t \<longrightarrow> resolve rx t hostname = rows_resolve rx entries hostname)"
  using compile_ok_iff compile_refines_rows by blast

definition any_rx :: regex_crate where
  "any_rx = \<lparr>rx_new = (\<lambda>p. p \<noteq> ''*''), rx_is_match = (\<lambda>p h. p = ''.*'')\<rparr>"

definition sample_rows :: "hosts_entry list" where
  "sample_rows =
     [\<lparr>he_pattern = ''A.example'', he_address = ''10.0.0.1''\<rparr>,
      \<lparr>he_pattern = ''.*'', he_address = '' * ''\<rparr>,
      \<lparr>he_pattern = '' a.EXAMPLE '', he_address = ''b.example''\<rparr>]"

theorem hosts_table_refines_rows_witness:
  "\<exists>t. compile any_rx sample_rows = Inr t \<and> resolve any_rx t ''a.Example'' = Some (Hostname ''b.example'')
     \<and> resolve any_rx t ''c'' = Some Passthrough"
proof -
  have "rows_ok any_rx sample_rows" by code_simp
  then obtain t where t: "compile any_rx sample_rows = Inr t"
    using hosts_table_refines_rows by blast
  moreover have "rows_resolve any_rx sample_rows ''a.Example'' = Some (Hostname ''b.example'')"
    "rows_resolve any_rx sample_rows ''c'' = Some Passthrough" by code_simp+
  ultimately show ?thesis
    using hosts_table_refines_rows [of any_rx sample_rows] by metis
qed

text \<open>the relay serves a host name exactly when some configured row lists it, by name or by a
  matching regular expression, and the backend it is given is the address of such a row.\<close>

theorem hosts_allowlist:
  assumes "compile rx entries = Inr t"
  shows "(resolve rx t hostname = None \<longleftrightarrow> \<not> (\<exists>e \<in> set entries. row_lists rx hostname e))
    \<and> (\<forall>r. resolve rx t hostname = Some r \<longrightarrow>
         (\<exists>e \<in> set entries. row_lists rx hostname e \<and> r = parse_address (he_address e)))"
proof -
  note r = compile_refines_rows [OF assms, of hostname]
  have "resolve rx t hostname = None \<longleftrightarrow> \<not> (\<exists>e \<in> set entries. row_lists rx hostname e)"
    unfolding r row_lists_def using rows_resolve_listed by blast
  moreover have "\<exists>e \<in> set entries. row_lists rx hostname e \<and> r' = parse_address (he_address e)"
    if "resolve rx t hostname = Some r'" for r'
    using that unfolding r
    by (auto simp: rows_resolve_def row_lists_def Let_def dest!: find_SomeD split: option.splits)
  ultimately show ?thesis by blast
qed

theorem hosts_allowlist_witness:
  "\<exists>t. compile any_rx [\<lparr>he_pattern = ''a.example'', he_address = ''*''\<rparr>] = Inr t
     \<and> resolve any_rx t ''b.example'' = None"
proof -
  let ?rows = "[\<lparr>he_pattern = ''a.example'', he_address = ''*''\<rparr>]"
  have "rows_ok any_rx ?rows" by code_simp
  then obtain t where t: "compile any_rx ?rows = Inr t" using compile_ok_iff by blast
  have "\<not> (\<exists>e \<in> set ?rows. row_lists any_rx ''b.example'' e)"
    by code_simp
  with t hosts_allowlist [OF t, of "''b.example''"] show ?thesis by metis
qed

text \<open>with the row \<open>.*\<close> to \<open>*\<close> the table is open. If the regular expression \<open>.*\<close> matches
  every text, no host name is refused, and \<open>has_open_catchall\<close> says so.\<close>

theorem open_catchall_serves_all:
  assumes "compile rx entries = Inr t" and "has_open_catchall t" and "\<And>h. rx_is_match rx ''.*'' h"
  shows "resolve rx t hostname \<noteq> None"
proof -
  obtain e where "e \<in> set entries" "trim (he_pattern e) = ''.*''"
    using assms(1,2) by (auto simp: compile_def Let_def has_open_catchall_def list_ex_iff split: sum.splits)
  then show ?thesis
    unfolding compile_refines_rows [OF assms(1)] rows_resolve_listed
    using assms(3) by (auto simp: row_matches_def exact_row_def is_regex_def)
qed

theorem open_catchall_serves_all_witness:
  "\<exists>t. compile any_rx sample_rows = Inr t \<and> has_open_catchall t \<and> resolve any_rx t ''anything'' \<noteq> None"
proof -
  have "rows_ok any_rx sample_rows" by code_simp
  then obtain t where t: "compile any_rx sample_rows = Inr t" using compile_ok_iff by blast
  moreover have "list_ex (\<lambda>e. trim (he_pattern e) = ''.*'' \<and> trim (he_address e) = ''*'') sample_rows"
    by code_simp
  ultimately have o: "has_open_catchall t"
    by (auto simp: compile_def Let_def has_open_catchall_def split: sum.splits)
  show ?thesis
    using t o open_catchall_serves_all [OF t o, of "''anything''"] by (auto simp: any_rx_def)
qed

end
