(* ===== verification/Relay_Config.thy ===== *)
theory Relay_Config
  imports Relay_Hosts
begin

text \<open>
  The configuration of \<open>src/config.rs\<close>: the records, the defaults, the overrides from the
  environment and the normalisation that runs before the listeners start. The process environment
  and the file system are one parameter (\<open>os\<close>), the YAML deserialiser another. The lemmas show
  that a configuration that loads names an existing default profile, routes clients only to
  existing profiles, has a known protocol on every listener, and that client addresses are stored
  in one canonical form.
\<close>

section \<open>Records\<close>

datatype upstream_proxy =
    Socks5 string u16 "string option" "string option"
  | Http string u16 "string option"
  | Direct

record domain_limit_config =
  daily_bandwidth :: "u64 option"
  daily_connections :: "u64 option"

record listener_config =
  li_name :: "string option"
  li_addr :: string
  li_proto :: "string option"
  li_routes :: "string list"

record whitelist_entry =
  wl_ip :: string
  wl_username :: "string option"

record upstream_monitor_config =
  um_enabled :: bool
  um_interval_secs :: u64
  um_timeout_secs :: u64
  um_fail_threshold :: u32
  um_recover_threshold :: u32
  um_notify_recovery :: bool
  um_notify_cooldown_secs :: u64
  um_profiles :: "string list"
  um_probe_host :: string
  um_probe_port :: u16
  um_probe_hosts :: "string list"

record telegram_config =
  tg_bot_token :: "string option"
  tg_chat_id :: "string option"
  tg_api_base :: string

record panel_config =
  pn_enabled :: bool
  pn_addr :: string
  pn_db_path :: string
  pn_relay_ip :: "string option"
  pn_dnsmasq_conf_dir :: "string option"
  pn_dnsmasq_relay_file :: "string option"
  pn_dnsmasq_bypass_file :: "string option"
  pn_dnsmasq_conf_path :: "string option"
  pn_dnsmasq_query_log :: "string option"
  pn_dns_query_retain_hours :: u64
  pn_dnsmasq_reload_cmd :: "string option"

record app_config =
  listens :: "listener_config list"
  tls_listen :: "listener_config list"
  http_listen :: "listener_config list"
  upstream_proxy :: upstream_proxy
  upstreams :: "(string, upstream_proxy) hash_map"
  default_upstream :: "string option"
  client_upstreams :: "(string, string) hash_map"
  upstream_failover :: bool
  client_whitelist :: "whitelist_entry list"
  client_whitelist_ufw :: bool
  ufw_bin :: "string option"
  upstream_monitor :: upstream_monitor_config
  telegram :: telegram_config
  connect_timeout_secs :: u64
  upstream_probe_wait_secs :: u64
  upstream_probe_interval_secs :: u64
  upstream_probe_required :: bool
  rw_timeout_secs :: u64
  workers :: u64
  metrics_addr :: "string option"
  log_file :: "string option"
  metrics_refresh_secs :: u64
  max_connections :: u64
  nofile_limit :: u64
  listen_backlog :: u32
  hosts :: "hosts_entry list"
  hosts_tbl :: "hosts_table option"
  domain_limits :: "(string, domain_limit_config) hash_map"
  domain_limits_state_file :: "string option"
  domain_limits_persist_secs :: u64
  panel :: panel_config
  config_path :: "string option"

text \<open>What the process sees of its surroundings: environment variables and files.\<close>

record os =
  env_var :: "string \<Rightarrow> string option"
  path_exists :: "string \<Rightarrow> bool"
  path_is_dir :: "string \<Rightarrow> bool"
  path_is_file :: "string \<Rightarrow> bool"
  read_to_string :: "string \<Rightarrow> string option"

datatype config_error =
    BadProto string
  | InvalidListenAddr string
  | UnknownDefaultUpstream string
  | NoUpstreams
  | MissingDefaultProfile
  | BadProxyString string
  | BadProxyPort string
  | UnknownProxyType string
  | HostsError hosts_error
  | ReadConfigFailed string
  | ParseConfigFailed string

section \<open>Addresses of upstreams, listeners and clients\<close>

fun host_port :: "upstream_proxy \<Rightarrow> (string \<times> u16) option" where
  "host_port (Socks5 host port _ _) = Some (host, port)"
| "host_port (Http host port _) = Some (host, port)"
| "host_port Direct = None"

fun show_upstream_proxy :: "upstream_proxy \<Rightarrow> string" where
  "show_upstream_proxy (Socks5 host port _ _) = ''socks5 '' @ host @ '':'' @ show_nat (unat port)"
| "show_upstream_proxy (Http host port _) = ''http '' @ host @ '':'' @ show_nat (unat port)"
| "show_upstream_proxy Direct = ''direct''"

definition proto_str :: "listener_config \<Rightarrow> string" where
  "proto_str l = (case li_proto l of Some p \<Rightarrow> p | None \<Rightarrow> ''tls'')"

definition label :: "listener_config \<Rightarrow> string" where
  "label l = (case li_name l of Some n \<Rightarrow> n | None \<Rightarrow> proto_str l @ ''@'' @ li_addr l)"

definition is_tls :: "listener_config \<Rightarrow> bool" where
  "is_tls l \<longleftrightarrow> proto_str l = ''tls''"

definition is_http :: "listener_config \<Rightarrow> bool" where
  "is_http l \<longleftrightarrow> proto_str l = ''http''"

definition listen_port :: "listener_config \<Rightarrow> config_error + u16" where
  "listen_port l =
     (case parse_socket_addr (li_addr l) of
        None \<Rightarrow> Inl (InvalidListenAddr (li_addr l))
      | Some a \<Rightarrow> Inr (sa_port a))"

definition normalize_proto :: "listener_config \<Rightarrow> config_error + listener_config" where
  "normalize_proto l =
     (case li_proto l of
        Some p \<Rightarrow>
          (let lower = to_lowercase p
           in if lower \<noteq> ''tls'' \<and> lower \<noteq> ''http'' then Inl (BadProto p)
              else Inr (l\<lparr>li_proto := Some lower\<rparr>))
      | None \<Rightarrow>
          (case parse_socket_addr (li_addr l) of
             None \<Rightarrow> Inl (InvalidListenAddr (li_addr l))
           | Some a \<Rightarrow>
               Inr (l\<lparr>li_proto := Some (if sa_port a \<in> {80, 8000, 8080, 8888} then ''http'' else ''tls'')\<rparr>)))"

definition normalize_client_ip :: "string \<Rightarrow> string option" where
  "normalize_client_ip ip =
     (let s = trim ip in if s = [] then None else map_option show_ip (parse_ip_addr s))"

definition ip_only :: "string \<Rightarrow> whitelist_entry" where
  "ip_only ip = \<lparr>wl_ip = ip, wl_username = None\<rparr>"

definition username_char :: "char \<Rightarrow> bool" where
  "username_char c \<longleftrightarrow> is_ascii_alphanumeric c \<or> c \<in> {CHR ''.'', CHR ''_'', CHR ''@'', CHR ''+'', CHR ''-''}"

definition sanitize_whitelist_username :: "string \<Rightarrow> string option" where
  "sanitize_whitelist_username raw =
     (let s = trim raw
      in if s = [] then None
         else let cleaned = take 32 (filter username_char s)
              in if cleaned = [] then None else Some cleaned)"

text \<open>
  The two YAML shapes of a whitelist row: a bare address, or a mapping with an optional name.
\<close>

datatype yaml_whitelist = YIp string | YObj string "string option"

fun deserialize_whitelist :: "yaml_whitelist \<Rightarrow> whitelist_entry" where
  "deserialize_whitelist (YIp ip) = \<lparr>wl_ip = ip, wl_username = None\<rparr>"
| "deserialize_whitelist (YObj ip username) =
     \<lparr>wl_ip = ip, wl_username = username \<bind> sanitize_whitelist_username\<rparr>"

definition serialize_whitelist :: "whitelist_entry \<Rightarrow> yaml_whitelist" where
  "serialize_whitelist e =
     (case wl_username e of
        Some u \<Rightarrow> if u \<noteq> [] then YObj (wl_ip e) (Some u) else YIp (wl_ip e)
      | None \<Rightarrow> YIp (wl_ip e))"

text \<open>\<open>split_str_once\<close> is \<open>split_once\<close> of a two-character separator.\<close>

fun split_str_once :: "string \<Rightarrow> string \<Rightarrow> string \<Rightarrow> (string \<times> string) option" where
  "split_str_once sep acc [] = None"
| "split_str_once sep acc (c # s) =
     (if starts_with (c # s) sep then Some (rev acc, drop (length sep) (c # s))
      else split_str_once sep (c # acc) s)"

definition parse_probe_target :: "string \<Rightarrow> u16 \<Rightarrow> string \<times> u16" where
  "parse_probe_target raw default_port =
     (let s = trim raw;
          bracketed =
            (case strip_prefix ''['' s of
               None \<Rightarrow> (s, default_port)
             | Some rest \<Rightarrow>
                 (case split_str_once '']:'' [] rest of
                    None \<Rightarrow> (s, default_port)
                  | Some (host, port_s) \<Rightarrow>
                      (case parse_u16 port_s of Some p \<Rightarrow> (host, p) | None \<Rightarrow> (s, default_port))))
      in case rsplit_once CHR '':'' s of
           None \<Rightarrow> bracketed
         | Some (host, port_s) \<Rightarrow>
             (case parse_u16 port_s of
                Some p \<Rightarrow> if host \<noteq> [] \<and> CHR '']'' \<notin> set host then (host, p) else bracketed
              | None \<Rightarrow> bracketed))"

definition probe_targets :: "upstream_monitor_config \<Rightarrow> (string \<times> u16) list" where
  "probe_targets m =
     (if um_probe_hosts m = [] then [(um_probe_host m, um_probe_port m)]
      else map (\<lambda>s. parse_probe_target s (um_probe_port m)) (filter (\<lambda>s. trim s \<noteq> []) (um_probe_hosts m)))"

definition probe_targets_label :: "upstream_monitor_config \<Rightarrow> string" where
  "probe_targets_label m =
     join '', '' (map (\<lambda>(h, p). h @ '':'' @ show_nat (unat p)) (probe_targets m))"

definition is_configured :: "telegram_config \<Rightarrow> bool" where
  "is_configured t =
     (case (tg_bot_token t, tg_chat_id t) of
        (Some b, Some c) \<Rightarrow> b \<noteq> [] \<and> c \<noteq> []
      | _ \<Rightarrow> False)"

definition api_base_url :: "telegram_config \<Rightarrow> string" where
  "api_base_url t = trim_end_matches CHR ''/'' (tg_api_base t)"

section \<open>Defaults\<close>

definition default_monitor_config :: upstream_monitor_config where
  "default_monitor_config =
     \<lparr>um_enabled = False, um_interval_secs = 60, um_timeout_secs = 10, um_fail_threshold = 2,
      um_recover_threshold = 2, um_notify_recovery = True, um_notify_cooldown_secs = 600,
      um_profiles = [], um_probe_host = ''ifconfig.io'', um_probe_port = 443, um_probe_hosts = []\<rparr>"

definition default_telegram_config :: telegram_config where
  "default_telegram_config =
     \<lparr>tg_bot_token = None, tg_chat_id = None, tg_api_base = ''https://api.telegram.org''\<rparr>"

definition default_panel_config :: panel_config where
  "default_panel_config =
     \<lparr>pn_enabled = True, pn_addr = ''0.0.0.0:9080'', pn_db_path = ''/var/lib/snirelay/panel.db'',
      pn_relay_ip = None, pn_dnsmasq_conf_dir = None, pn_dnsmasq_relay_file = None,
      pn_dnsmasq_bypass_file = None, pn_dnsmasq_conf_path = None, pn_dnsmasq_query_log = None,
      pn_dns_query_retain_hours = 72, pn_dnsmasq_reload_cmd = None\<rparr>"

definition default_listeners :: "listener_config list" where
  "default_listeners =
     [\<lparr>li_name = Some ''https'', li_addr = ''0.0.0.0:443'', li_proto = Some ''tls'', li_routes = []\<rparr>,
      \<lparr>li_name = Some ''http'', li_addr = ''0.0.0.0:80'', li_proto = Some ''http'', li_routes = []\<rparr>]"

definition default_upstream_proxy :: upstream_proxy where
  "default_upstream_proxy = Socks5 ''127.0.0.1'' 1080 None None"

definition default_app_config :: app_config where
  "default_app_config =
     \<lparr>listens = default_listeners, tls_listen = [], http_listen = [],
      upstream_proxy = default_upstream_proxy, upstreams = [], default_upstream = None,
      client_upstreams = [], upstream_failover = False, client_whitelist = [],
      client_whitelist_ufw = True, ufw_bin = None, upstream_monitor = default_monitor_config,
      telegram = default_telegram_config, connect_timeout_secs = 10, upstream_probe_wait_secs = 60,
      upstream_probe_interval_secs = 2, upstream_probe_required = False, rw_timeout_secs = 300,
      workers = 0, metrics_addr = None, log_file = None, metrics_refresh_secs = 2,
      max_connections = 50000, nofile_limit = 1048576, listen_backlog = 4096, hosts = [],
      hosts_tbl = None, domain_limits = [], domain_limits_state_file = None,
      domain_limits_persist_secs = 5, panel = default_panel_config, config_path = None\<rparr>"

definition domain_limits_state_path :: "os \<Rightarrow> app_config \<Rightarrow> string option" where
  "domain_limits_state_path os cfg =
     (if domain_limits cfg = [] then None
      else case domain_limits_state_file cfg of
             Some path \<Rightarrow> Some path
           | None \<Rightarrow>
               (case env_var os ''DOMAIN_LIMITS_STATE_FILE'' of
                  Some path \<Rightarrow> if path \<noteq> [] then Some path
                              else Some ''/var/lib/snirelay/domain_limits.json''
                | None \<Rightarrow> Some ''/var/lib/snirelay/domain_limits.json''))"

section \<open>Normalisation\<close>

definition apply_default_proxy_override :: "upstream_proxy \<Rightarrow> app_config \<Rightarrow> app_config" where
  "apply_default_proxy_override proxy cfg =
     (let ups = upstreams cfg;
          fallback = (case ups of [] \<Rightarrow> ''default'' | (k, _) # _ \<Rightarrow> k);
          name = (case default_upstream cfg of
                    Some n \<Rightarrow> if hm_contains ups n \<or> ups = [] then n else fallback
                  | None \<Rightarrow> fallback)
      in cfg\<lparr>upstream_proxy := proxy, upstreams := hm_insert name proxy ups,
             default_upstream := Some name\<rparr>)"

definition default_name :: "(string, upstream_proxy) hash_map \<Rightarrow> string option \<Rightarrow> config_error + string" where
  "default_name ups name =
     (case name of
        Some n \<Rightarrow> if hm_contains ups n then Inr n else Inl (UnknownDefaultUpstream n)
      | None \<Rightarrow>
          if hm_contains ups ''default'' then Inr ''default''
          else (case sort (map fst ups) of [] \<Rightarrow> Inl NoUpstreams | k # _ \<Rightarrow> Inr k))"

text \<open>Mappings to unknown profiles are removed, then the keys are rewritten in iteration order.\<close>

definition normalize_client_upstreams ::
    "(string, upstream_proxy) hash_map \<Rightarrow> (string, string) hash_map \<Rightarrow> (string, string) hash_map" where
  "normalize_client_upstreams ups cu =
     (let unknown = filter (\<lambda>(_, profile). \<not> hm_contains ups profile) cu;
          raw = foldl (\<lambda>m (ip, _). hm_remove ip m) cu unknown
      in foldl (\<lambda>m (k, v). hm_insert k v m) []
           (map (\<lambda>(ip, profile).
              (case normalize_client_ip ip of Some k \<Rightarrow> k | None \<Rightarrow> ip, profile)) raw))"

definition normalize_upstreams :: "app_config \<Rightarrow> config_error + app_config" where
  "normalize_upstreams cfg =
     (let cfg = (if upstreams cfg = []
                 then cfg\<lparr>upstreams := hm_insert ''default'' (upstream_proxy cfg) [],
                          default_upstream := Some ''default''\<rparr>
                 else cfg)
      in case default_name (upstreams cfg) (default_upstream cfg) of
           Inl e \<Rightarrow> Inl e
         | Inr name \<Rightarrow>
             (case hm_get (upstreams cfg) name of
                None \<Rightarrow> Inl MissingDefaultProfile
              | Some proxy \<Rightarrow>
                  Inr (cfg\<lparr>default_upstream := Some name, upstream_proxy := proxy,
                           client_upstreams :=
                             normalize_client_upstreams (upstreams cfg) (client_upstreams cfg)\<rparr>)))"

definition default_upstream_name :: "app_config \<Rightarrow> string" where
  "default_upstream_name cfg = (case default_upstream cfg of Some n \<Rightarrow> n | None \<Rightarrow> ''default'')"

fun normalize_whitelist_loop ::
    "string set \<Rightarrow> whitelist_entry list \<Rightarrow> whitelist_entry list" where
  "normalize_whitelist_loop seen [] = []"
| "normalize_whitelist_loop seen (e # es) =
     (case normalize_client_ip (wl_ip e) of
        Some n \<Rightarrow>
          if n \<notin> seen
          then \<lparr>wl_ip = n, wl_username = wl_username e \<bind> sanitize_whitelist_username\<rparr>
               # normalize_whitelist_loop (insert n seen) es
          else normalize_whitelist_loop seen es
      | None \<Rightarrow> normalize_whitelist_loop seen es)"

definition normalize_client_whitelist :: "app_config \<Rightarrow> app_config" where
  "normalize_client_whitelist cfg =
     cfg\<lparr>client_whitelist := normalize_whitelist_loop {} (client_whitelist cfg)\<rparr>"

fun normalize_listens :: "listener_config list \<Rightarrow> config_error + listener_config list" where
  "normalize_listens [] = Inr []"
| "normalize_listens (l # ls) =
     (case normalize_proto (l\<lparr>li_routes := []\<rparr>) of
        Inl e \<Rightarrow> Inl e
      | Inr l' \<Rightarrow> (case normalize_listens ls of Inl e \<Rightarrow> Inl e | Inr ls' \<Rightarrow> Inr (l' # ls')))"

definition finalize_listeners :: "app_config \<Rightarrow> config_error + app_config" where
  "finalize_listeners cfg =
     (let cfg = (if listens cfg = []
                 then cfg\<lparr>listens := tls_listen cfg @ http_listen cfg, tls_listen := [], http_listen := []\<rparr>
                 else if tls_listen cfg \<noteq> [] \<or> http_listen cfg \<noteq> []
                 then cfg\<lparr>tls_listen := [], http_listen := []\<rparr>
                 else cfg);
          cfg = (if listens cfg = [] then cfg\<lparr>listens := default_listeners\<rparr> else cfg)
      in case normalize_listens (listens cfg) of
           Inl e \<Rightarrow> Inl e
         | Inr ls \<Rightarrow> Inr (cfg\<lparr>listens := ls\<rparr>))"

definition finalize :: "regex_crate \<Rightarrow> app_config \<Rightarrow> config_error + app_config" where
  "finalize rx cfg =
     (case finalize_listeners cfg of
        Inl e \<Rightarrow> Inl e
      | Inr cfg \<Rightarrow>
          (case normalize_upstreams cfg of
             Inl e \<Rightarrow> Inl e
           | Inr cfg \<Rightarrow>
               (let cfg = normalize_client_whitelist cfg
                in case compile_hosts_table rx (hosts cfg) of
                     Inl e \<Rightarrow> Inl (HostsError e)
                   | Inr t \<Rightarrow> Inr (cfg\<lparr>hosts_tbl := t\<rparr>))))"

section \<open>The proxy string and the Docker gateway\<close>

definition parse_proxy_string :: "string \<Rightarrow> config_error + upstream_proxy" where
  "parse_proxy_string s =
     (let parts = split_whitespace s
      in if parts = [] \<or> eq_ignore_ascii_case (parts ! 0) ''direct'' then Inr Direct
         else if length parts < 3 then Inl (BadProxyString s)
         else
           (let host = parts ! 1
            in case parse_u16 (parts ! 2) of
                 None \<Rightarrow> Inl (BadProxyPort (parts ! 2))
               | Some port \<Rightarrow>
                   (let kind = to_lowercase (parts ! 0);
                        nth_opt = (\<lambda>i. if i < length parts then Some (parts ! i) else None)
                    in if kind = ''socks5'' \<or> kind = ''socks5h''
                       then Inr (Socks5 host port (nth_opt 3) (nth_opt 4))
                       else if kind = ''http'' \<or> kind = ''https'' then Inr (Http host port None)
                       else Inl (UnknownProxyType kind))))"

definition is_loopback_host :: "string \<Rightarrow> bool" where
  "is_loopback_host host \<longleftrightarrow> host = ''127.0.0.1'' \<or> host = ''localhost'' \<or> host = ''::1''"

fun remap_proxy_loopback_host :: "string \<Rightarrow> upstream_proxy \<Rightarrow> upstream_proxy" where
  "remap_proxy_loopback_host gateway (Socks5 host port u p) =
     (if is_loopback_host host then Socks5 gateway port u p else Socks5 host port u p)"
| "remap_proxy_loopback_host gateway (Http host port a) =
     (if is_loopback_host host then Http gateway port a else Http host port a)"
| "remap_proxy_loopback_host gateway Direct = Direct"

definition is_docker_bridge_gateway :: "string \<Rightarrow> bool" where
  "is_docker_bridge_gateway gw =
     list_ex (starts_with gw)
       [''172.17.'', ''172.18.'', ''172.19.'', ''172.20.'', ''172.21.'', ''172.22.'', ''192.168.65.'']"

text \<open>\<open>None\<close> is the source's \<open>None\<close>: a length other than eight or a pair that is no number.\<close>

definition hex_le_ipv4 :: "string \<Rightarrow> string option" where
  "hex_le_ipv4 hex =
     (if length hex \<noteq> 8 then None
      else
        (let octet = (\<lambda>i. parse_unsigned 16 256 (take 2 (drop (i * 2) hex)))
         in do { d \<leftarrow> octet 3; c \<leftarrow> octet 2; b \<leftarrow> octet 1; a \<leftarrow> octet 0;
                 Some (join ''.'' [show_nat d, show_nat c, show_nat b, show_nat a]) }))"

fun route_gateway :: "string list \<Rightarrow> string option" where
  "route_gateway [] = None"
| "route_gateway (line # ls) =
     (let fields = split_whitespace line
      in if 3 \<le> length fields \<and> fields ! 1 = ''00000000'' then hex_le_ipv4 (fields ! 2)
         else route_gateway ls)"

definition docker_default_gateway :: "os \<Rightarrow> string option" where
  "docker_default_gateway os = do {
     route \<leftarrow> read_to_string os ''/proc/net/route'';
     route_gateway (drop 1 (lines route)) }"

definition is_loopback_upstream :: "upstream_proxy \<Rightarrow> bool" where
  "is_loopback_upstream p = (case host_port p of Some (h, _) \<Rightarrow> is_loopback_host h | None \<Rightarrow> False)"

definition remap_docker_loopback_upstream :: "os \<Rightarrow> app_config \<Rightarrow> app_config" where
  "remap_docker_loopback_upstream os cfg =
     (let var = env_var os ''HOST_PROXY_GATEWAY''
      in if \<not> path_exists os ''/.dockerenv'' then cfg
         else if (case var of Some v \<Rightarrow> eq_ignore_ascii_case v ''off'' | None \<Rightarrow> False) then cfg
         else if \<not> list_ex is_loopback_upstream (map snd (upstreams cfg) @ [upstream_proxy cfg]) then cfg
         else
           (let gateway = (case var of
                             Some v \<Rightarrow> if v \<noteq> [] then Some v else docker_default_gateway os
                           | None \<Rightarrow> docker_default_gateway os)
            in case gateway of
                 None \<Rightarrow> cfg
               | Some gw \<Rightarrow>
                   if \<not> is_docker_bridge_gateway gw then cfg
                   else cfg\<lparr>upstreams := map (\<lambda>(n, p). (n, remap_proxy_loopback_host gw p)) (upstreams cfg),
                            upstream_proxy := remap_proxy_loopback_host gw (upstream_proxy cfg)\<rparr>))"

section \<open>Overrides from the environment\<close>

definition env_flag :: "string \<Rightarrow> bool" where
  "env_flag v \<longleftrightarrow> to_lowercase v \<in> {''1'', ''true'', ''yes'', ''on''}"

text \<open>
  \<open>on_var\<close> runs an update when a variable is set, \<open>on_text\<close> when it is set and not empty,
  \<open>on_num\<close> when it is set and parses.
\<close>

definition on_var :: "os \<Rightarrow> string \<Rightarrow> (string \<Rightarrow> 'c \<Rightarrow> 'c) \<Rightarrow> 'c \<Rightarrow> 'c" where
  "on_var os var f cfg = (case env_var os var of Some v \<Rightarrow> f v cfg | None \<Rightarrow> cfg)"

definition on_text :: "os \<Rightarrow> string \<Rightarrow> (string \<Rightarrow> 'c \<Rightarrow> 'c) \<Rightarrow> 'c \<Rightarrow> 'c" where
  "on_text os var f = on_var os var (\<lambda>v cfg. if v \<noteq> [] then f v cfg else cfg)"

definition on_num :: "os \<Rightarrow> string \<Rightarrow> (string \<Rightarrow> 'n option) \<Rightarrow> ('n \<Rightarrow> 'c \<Rightarrow> 'c) \<Rightarrow> 'c \<Rightarrow> 'c" where
  "on_num os var parse f =
     on_var os var (\<lambda>v cfg. case parse v of Some n \<Rightarrow> f n cfg | None \<Rightarrow> cfg)"

definition apply_monitor_env_overrides :: "os \<Rightarrow> app_config \<Rightarrow> app_config" where
  "apply_monitor_env_overrides os cfg =
     (let m = upstream_monitor cfg;
          m = on_var os ''UPSTREAM_MONITOR_ENABLED'' (\<lambda>v m. m\<lparr>um_enabled := env_flag v\<rparr>) m;
          m = on_num os ''UPSTREAM_MONITOR_INTERVAL_SECS'' parse_u64
                (\<lambda>n m. m\<lparr>um_interval_secs := max n 15\<rparr>) m;
          m = on_num os ''UPSTREAM_MONITOR_TIMEOUT_SECS'' parse_u64
                (\<lambda>n m. m\<lparr>um_timeout_secs := max n 1\<rparr>) m;
          m = on_num os ''UPSTREAM_MONITOR_FAIL_THRESHOLD'' parse_u32
                (\<lambda>n m. m\<lparr>um_fail_threshold := max n 1\<rparr>) m;
          m = on_text os ''UPSTREAM_MONITOR_PROBE_HOST'' (\<lambda>v m. m\<lparr>um_probe_host := v\<rparr>) m;
          m = on_num os ''UPSTREAM_MONITOR_PROBE_PORT'' parse_u16 (\<lambda>p m. m\<lparr>um_probe_port := p\<rparr>) m;
          m = on_var os ''UPSTREAM_MONITOR_PROBE_HOSTS''
                (\<lambda>v m. let ls = filter (\<lambda>s. s \<noteq> [])
                                  (map trim (split_pred (\<lambda>c. c = CHR '','' \<or> c = CHR '' '') [] v))
                       in if ls \<noteq> [] then m\<lparr>um_probe_hosts := ls\<rparr> else m) m;
          t = telegram cfg;
          t = on_text os ''TELEGRAM_BOT_TOKEN'' (\<lambda>v t. t\<lparr>tg_bot_token := Some v\<rparr>) t;
          t = on_text os ''TELEGRAM_CHAT_ID'' (\<lambda>v t. t\<lparr>tg_chat_id := Some v\<rparr>) t;
          t = on_text os ''TELEGRAM_API_BASE''
                (\<lambda>v t. t\<lparr>tg_api_base := trim_end_matches CHR ''/'' v\<rparr>) t
      in cfg\<lparr>upstream_monitor := m, telegram := t\<rparr>)"

definition apply_probe_env_overrides :: "os \<Rightarrow> app_config \<Rightarrow> app_config" where
  "apply_probe_env_overrides os cfg =
     (let cfg = on_num os ''UPSTREAM_PROBE_WAIT_SECS'' parse_u64
                  (\<lambda>n c. c\<lparr>upstream_probe_wait_secs := n\<rparr>) cfg;
          cfg = on_num os ''UPSTREAM_PROBE_INTERVAL_SECS'' parse_u64
                  (\<lambda>n c. c\<lparr>upstream_probe_interval_secs := max n 1\<rparr>) cfg
      in on_var os ''UPSTREAM_PROBE_REQUIRED'' (\<lambda>v c. c\<lparr>upstream_probe_required := env_flag v\<rparr>) cfg)"

definition detect :: "(string \<Rightarrow> bool) \<Rightarrow> string list \<Rightarrow> string option \<Rightarrow> string option" where
  "detect present candidates cur =
     (if cur = None \<or> cur = Some []
      then (case find present candidates of Some c \<Rightarrow> Some c | None \<Rightarrow> cur) else cur)"

definition apply_panel_env_overrides :: "os \<Rightarrow> app_config \<Rightarrow> app_config" where
  "apply_panel_env_overrides os cfg =
     (let p = panel cfg;
          p = on_text os ''PANEL_ADDR'' (\<lambda>v p. p\<lparr>pn_addr := v\<rparr>) p;
          p = on_text os ''PANEL_DB'' (\<lambda>v p. p\<lparr>pn_db_path := v\<rparr>) p;
          p = on_var os ''PANEL_ENABLED'' (\<lambda>v p. p\<lparr>pn_enabled := env_flag v\<rparr>) p;
          p = on_text os ''RELAY_IP'' (\<lambda>v p. p\<lparr>pn_relay_ip := Some v\<rparr>) p;
          p = on_text os ''DNSMASQ_CONF_DIR'' (\<lambda>v p. p\<lparr>pn_dnsmasq_conf_dir := Some v\<rparr>) p;
          p = on_text os ''DNSMASQ_RELAY_FILE'' (\<lambda>v p. p\<lparr>pn_dnsmasq_relay_file := Some v\<rparr>) p;
          p = on_text os ''DNSMASQ_BYPASS_FILE'' (\<lambda>v p. p\<lparr>pn_dnsmasq_bypass_file := Some v\<rparr>) p;
          p = on_text os ''DNSMASQ_CONF_PATH''
                (\<lambda>v p. let p = p\<lparr>pn_dnsmasq_conf_path := Some v\<rparr>
                       in if pn_dnsmasq_relay_file p = None
                          then p\<lparr>pn_dnsmasq_relay_file := Some v\<rparr> else p) p;
          p = on_text os ''DNSMASQ_QUERY_LOG'' (\<lambda>v p. p\<lparr>pn_dnsmasq_query_log := Some v\<rparr>) p;
          p = on_num os ''DNS_QUERY_RETAIN_HOURS'' parse_u64
                (\<lambda>n p. p\<lparr>pn_dns_query_retain_hours := max n 1\<rparr>) p;
          p = on_text os ''DNSMASQ_RELOAD_CMD'' (\<lambda>v p. p\<lparr>pn_dnsmasq_reload_cmd := Some v\<rparr>) p;
          cfg = on_var os ''CLIENT_WHITELIST_UFW'' (\<lambda>v c. c\<lparr>client_whitelist_ufw := env_flag v\<rparr>) cfg;
          cfg = on_text os ''UFW_BIN'' (\<lambda>v c. c\<lparr>ufw_bin := Some v\<rparr>) cfg;
          p = p\<lparr>pn_dnsmasq_conf_dir :=
                  detect (path_is_dir os) [''/etc/dnsmasq.d'', ''/usr/local/etc/dnsmasq.d'']
                    (pn_dnsmasq_conf_dir p)\<rparr>;
          p = p\<lparr>pn_dnsmasq_query_log :=
                  detect (path_is_file os)
                    [''/var/log/dnsmasq/queries.log'', ''/var/log/dnsmasq.log'',
                     ''/var/log/dnsmasq/dnsmasq.log'']
                    (pn_dnsmasq_query_log p)\<rparr>
      in cfg\<lparr>panel := p\<rparr>)"

definition from_env :: "os \<Rightarrow> upstream_proxy option" where
  "from_env os =
     (case env_var os ''PROXY'' of
        None \<Rightarrow> None
      | Some s \<Rightarrow> (case parse_proxy_string s of Inl _ \<Rightarrow> None | Inr p \<Rightarrow> Some p))"

text \<open>\<open>load\<close>, with the YAML deserialiser as \<open>yaml\<close>.\<close>

definition load ::
    "regex_crate \<Rightarrow> (string \<Rightarrow> app_config option) \<Rightarrow> os \<Rightarrow> string \<Rightarrow> config_error + app_config" where
  "load rx yaml os path =
     (let overrides =
        (\<lambda>cfg.
           let cfg = (case from_env os of Some p \<Rightarrow> apply_default_proxy_override p cfg | None \<Rightarrow> cfg);
               cfg = apply_probe_env_overrides os cfg;
               cfg = apply_panel_env_overrides os cfg;
               cfg = apply_monitor_env_overrides os cfg
           in finalize rx (cfg\<lparr>config_path := Some path\<rparr>))
      in if path_exists os path
         then (case read_to_string os path of
                 None \<Rightarrow> Inl (ReadConfigFailed path)
               | Some content \<Rightarrow>
                   (case yaml content of
                      None \<Rightarrow> Inl (ParseConfigFailed path)
                    | Some cfg \<Rightarrow> overrides cfg))
         else overrides default_app_config)"

section \<open>Canonical client addresses\<close>

lemma normalize_client_ip_Some:
  "normalize_client_ip s = Some k \<longleftrightarrow> (\<exists>ip. parse_ip_addr (trim s) = Some ip \<and> k = show_ip ip)"
proof -
  have "parse_ip_addr [] = None" by code_simp
  then show ?thesis by (auto simp: normalize_client_ip_def Let_def)
qed

lemma normalize_show_ip [simp]: "ip_wf ip \<Longrightarrow> normalize_client_ip (show_ip ip) = Some (show_ip ip)"
  unfolding normalize_client_ip_Some using parse_show_ip no_ws_show_ip no_ws_trim by metis

lemma normalize_client_ip_idem:
  "normalize_client_ip s = Some k \<Longrightarrow> normalize_client_ip k = Some k"
  using normalize_client_ip_Some parse_ip_wf normalize_show_ip by metis

lemma normalize_client_ip_same:
  assumes "normalize_client_ip a = Some k"
  shows "normalize_client_ip b = Some k \<longleftrightarrow> parse_ip_addr (trim b) = parse_ip_addr (trim a)"
  using assms parse_ip_wf show_ip_inj unfolding normalize_client_ip_Some by metis

text \<open>
  Components that key their tables by client address rely only on this: canonical texts are
  fixed points. The default for a text that is no address is the text itself.
\<close>

locale canonical_keys =
  fixes norm :: "'k \<Rightarrow> 'k option"
  assumes norm_idem: "norm s = Some k \<Longrightarrow> norm k = Some k"
begin

definition key_of :: "'k \<Rightarrow> 'k" where
  "key_of s = (case norm s of Some k \<Rightarrow> k | None \<Rightarrow> s)"

lemma key_of_idem: "key_of (key_of s) = key_of s"
  by (cases "norm s") (auto simp: key_of_def dest: norm_idem)

lemma key_of_norm: "norm s = Some k \<Longrightarrow> key_of s = k \<and> norm (key_of s) = Some k"
  by (auto simp: key_of_def dest: norm_idem)

lemma norm_key_of: "norm (key_of s) = norm s"
  by (cases "norm s") (auto simp: key_of_def dest: norm_idem)

end

interpretation cip: canonical_keys normalize_client_ip
  by unfold_locales (rule normalize_client_ip_idem)

section \<open>Sanitised names\<close>

lemma username_char_no_ws: "username_char c \<Longrightarrow> \<not> is_whitespace c"
  by (auto simp: username_char_def is_ascii_alphanumeric_def is_whitespace_def Let_def)

lemma sanitize_Some:
  assumes "sanitize_whitelist_username raw = Some u"
  shows "u \<noteq> []" "length u \<le> 32" "list_all username_char u"
proof -
  from assms have "u = take 32 (filter username_char (trim raw))" "u \<noteq> []"
    by (auto simp: sanitize_whitelist_username_def Let_def split: if_splits)
  then show "u \<noteq> []" "length u \<le> 32" "list_all username_char u"
    by (auto simp: list_all_iff dest: in_set_takeD)
qed

lemma sanitize_id:
  assumes "u \<noteq> []" "length u \<le> 32" "list_all username_char u"
  shows "sanitize_whitelist_username u = Some u"
proof -
  have "trim u = u"
    using assms(3) username_char_no_ws by (intro trim_no_ws) (auto simp: list_all_iff)
  moreover have "filter username_char u = u"
    using assms(3) by (simp add: list_all_iff filter_id_conv)
  ultimately show ?thesis
    using assms(1,2) by (simp add: sanitize_whitelist_username_def Let_def)
qed

lemma sanitize_idem:
  "sanitize_whitelist_username raw = Some u \<Longrightarrow> sanitize_whitelist_username u = Some u"
  by (rule sanitize_id) (auto dest: sanitize_Some)

definition username_ok :: "string option \<Rightarrow> bool" where
  "username_ok u \<longleftrightarrow> u \<bind> sanitize_whitelist_username = u"

lemma username_ok_sanitized: "username_ok (u \<bind> sanitize_whitelist_username)"
  by (cases u; cases "sanitize_whitelist_username (the u)") (auto simp: username_ok_def sanitize_idem)

section \<open>What a finalised configuration guarantees\<close>

definition upstreams_ok :: "app_config \<Rightarrow> bool" where
  "upstreams_ok cfg \<longleftrightarrow>
     hm_wf (upstreams cfg) \<and> hm_wf (client_upstreams cfg)
   \<and> (\<exists>n. default_upstream cfg = Some n \<and> hm_get (upstreams cfg) n = Some (upstream_proxy cfg))
   \<and> (\<forall>(ip, profile) \<in> set (client_upstreams cfg).
        hm_contains (upstreams cfg) profile \<and> cip.key_of ip = ip)"

definition listener_ok :: "listener_config \<Rightarrow> bool" where
  "listener_ok l \<longleftrightarrow> li_proto l \<in> {Some ''tls'', Some ''http''} \<and> li_routes l = []"

definition listens_ok :: "app_config \<Rightarrow> bool" where
  "listens_ok cfg \<longleftrightarrow> listens cfg \<noteq> [] \<and> list_all listener_ok (listens cfg)
     \<and> tls_listen cfg = [] \<and> http_listen cfg = []"

definition whitelist_ok :: "whitelist_entry list \<Rightarrow> bool" where
  "whitelist_ok es \<longleftrightarrow>
     distinct (map wl_ip es)
     \<and> list_all (\<lambda>e. normalize_client_ip (wl_ip e) = Some (wl_ip e) \<and> username_ok (wl_username e)) es"

definition config_ok :: "regex_crate \<Rightarrow> app_config \<Rightarrow> bool" where
  "config_ok rx cfg \<longleftrightarrow>
     listens_ok cfg \<and> upstreams_ok cfg \<and> whitelist_ok (client_whitelist cfg)
     \<and> compile_hosts_table rx (hosts cfg) = Inr (hosts_tbl cfg)"

subsection \<open>Upstreams\<close>

lemma default_name_contains: "default_name ups name = Inr n \<Longrightarrow> hm_contains ups n"
  by (auto simp: default_name_def split: option.splits if_splits list.splits)
    (metis hm_contains_iff list.set_intros(1) list.set_map set_sort)

lemma foldl_remove_filter:
  "foldl (\<lambda>m (k, _). hm_remove k m) m kvs = filter (\<lambda>(k, _). k \<notin> fst ` set kvs) m"
proof (induction kvs arbitrary: m)
  case (Cons kv kvs)
  then show ?case by (cases kv) (auto simp: hm_remove_def intro!: filter_cong)
qed simp

lemma set_foldl_insert:
  "set (foldl (\<lambda>m (k, v). hm_insert k v m) m kvs) \<subseteq> set m \<union> set kvs"
proof (induction kvs arbitrary: m)
  case (Cons kv kvs)
  obtain k v where kv: "kv = (k, v)" by (cases kv)
  have "set (foldl (\<lambda>m (k, v). hm_insert k v m) (hm_insert k v m) kvs) \<subseteq> set (hm_insert k v m) \<union> set kvs"
    by (rule Cons.IH)
  with set_hm_insert [of k v m] show ?case by (auto simp: kv)
qed simp

lemma hm_remove_unknown:
  assumes "hm_wf cu"
  shows "foldl (\<lambda>m (ip, _). hm_remove ip m) cu (filter (\<lambda>(_, p). \<not> P p) cu) = filter (\<lambda>(_, p). P p) cu"
  unfolding foldl_remove_filter
proof (rule filter_cong [OF refl])
  fix x assume "x \<in> set cu"
  with assms show "(case x of (k, _) \<Rightarrow> k \<notin> fst ` set (filter (\<lambda>(_, p). \<not> P p) cu)) = (case x of (_, p) \<Rightarrow> P p)"
    by (cases x) (auto simp: hm_wf_def image_iff dest: eq_key_imp_eq_value)
qed

lemma normalize_client_upstreams_alt:
  "hm_wf cu \<Longrightarrow> normalize_client_upstreams ups cu =
     foldl (\<lambda>m (k, v). hm_insert k v m) []
       (map (\<lambda>(ip, p). (cip.key_of ip, p)) (filter (\<lambda>(_, p). hm_contains ups p) cu))"
  by (simp add: normalize_client_upstreams_def Let_def hm_remove_unknown cip.key_of_def)

lemma normalize_client_upstreams_ok:
  assumes "hm_wf cu"
  shows "hm_wf (normalize_client_upstreams ups cu)"
    and "(ip, profile) \<in> set (normalize_client_upstreams ups cu) \<Longrightarrow>
      hm_contains ups profile \<and> cip.key_of ip = ip"
proof -
  show "hm_wf (normalize_client_upstreams ups cu)"
    unfolding normalize_client_upstreams_alt [OF assms] by (rule hm.inv_foldl_insert [OF hm.inv_empty])
  show "(ip, profile) \<in> set (normalize_client_upstreams ups cu) \<Longrightarrow>
      hm_contains ups profile \<and> cip.key_of ip = ip"
    unfolding normalize_client_upstreams_alt [OF assms]
    using set_foldl_insert [of "[]" "map (\<lambda>(ip, p). (cip.key_of ip, p)) (filter (\<lambda>(_, p). hm_contains ups p) cu)"]
    by (auto simp: cip.key_of_idem)
qed

lemma normalize_upstreams_ok:
  assumes "normalize_upstreams cfg = Inr cfg'" and "hm_wf (upstreams cfg)" and "hm_wf (client_upstreams cfg)"
  shows "upstreams_ok cfg'"
  using assms normalize_client_upstreams_ok hm.inv_insert [OF hm.inv_empty]
  by (auto simp: normalize_upstreams_def upstreams_ok_def Let_def split: sum.splits option.splits if_splits)

lemma hm_insert_new: "k \<notin> fst ` set m \<Longrightarrow> hm_insert k v m = m @ [(k, v)]"
  unfolding hm_insert_def by (induction m) auto

lemma foldl_insert_distinct:
  "distinct (map fst (m @ kvs)) \<Longrightarrow> foldl (\<lambda>m (k, v). hm_insert k v m) m kvs = m @ kvs"
proof (induction kvs arbitrary: m)
  case (Cons kv kvs)
  then show ?case by (cases kv) (auto simp: hm_insert_new)
qed simp

lemma normalize_upstreams_fixed:
  assumes "upstreams_ok cfg"
  shows "normalize_upstreams cfg = Inr cfg"
proof -
  from assms obtain n where n: "default_upstream cfg = Some n" "hm_get (upstreams cfg) n = Some (upstream_proxy cfg)"
    and wf: "hm_wf (client_upstreams cfg)"
    and cu: "\<And>ip p. (ip, p) \<in> set (client_upstreams cfg) \<Longrightarrow> hm_contains (upstreams cfg) p \<and> cip.key_of ip = ip"
    by (auto simp: upstreams_ok_def)
  then have "upstreams cfg \<noteq> []" by (auto simp: hm.get_empty)
  moreover have "normalize_client_upstreams (upstreams cfg) (client_upstreams cfg) = client_upstreams cfg"
  proof -
    have "filter (\<lambda>(_, p). hm_contains (upstreams cfg) p) (client_upstreams cfg) = client_upstreams cfg"
      using cu by (auto simp: filter_id_conv)
    moreover have "map (\<lambda>(ip, p). (cip.key_of ip, p)) (client_upstreams cfg) = client_upstreams cfg"
      using cu by (intro map_idI) auto
    ultimately show ?thesis
      using wf by (simp add: normalize_client_upstreams_alt foldl_insert_distinct hm_wf_def)
  qed
  ultimately show ?thesis
    using n by (simp add: normalize_upstreams_def Let_def default_name_def hm_contains_def)
qed

subsection \<open>Listeners\<close>

lemma normalize_proto_ok: "normalize_proto l = Inr l' \<Longrightarrow> li_proto l' \<in> {Some ''tls'', Some ''http''}
    \<and> li_routes l' = li_routes l"
  by (auto simp: normalize_proto_def Let_def split: option.splits if_splits)

lemma normalize_listens_ok:
  "normalize_listens ls = Inr ls' \<Longrightarrow> list_all listener_ok ls' \<and> length ls' = length ls"
proof (induction ls arbitrary: ls')
  case (Cons l ls)
  then show ?case
    using normalize_proto_ok [of "l\<lparr>li_routes := []\<rparr>"]
    by (auto simp: listener_ok_def split: sum.splits)
qed simp

lemma normalize_proto_fixed: "listener_ok l \<Longrightarrow> normalize_proto (l\<lparr>li_routes := []\<rparr>) = Inr l"
proof -
  assume l: "listener_ok l"
  have "to_lowercase ''tls'' = ''tls''" "to_lowercase ''http'' = ''http''" by code_simp+
  with l show ?thesis
    by (cases l) (auto simp: listener_ok_def normalize_proto_def Let_def)
qed

lemma normalize_listens_fixed: "list_all listener_ok ls \<Longrightarrow> normalize_listens ls = Inr ls"
  by (induction ls) (simp_all add: normalize_proto_fixed)

lemma default_listeners_nonempty [simp]: "default_listeners \<noteq> []"
  by (simp add: default_listeners_def)

lemma finalize_listeners_ok:
  assumes "finalize_listeners cfg = Inr cfg'"
  shows "listens_ok cfg'"
proof -
  have "list_all listener_ok ls'" "ls' \<noteq> []" if "normalize_listens ls = Inr ls'" "ls \<noteq> []" for ls ls'
    using normalize_listens_ok [OF that(1)] that(2) by auto
  with assms show ?thesis
    by (auto simp: finalize_listeners_def listens_ok_def Let_def split: sum.splits if_splits)
qed

lemma finalize_listeners_fixed: "listens_ok cfg \<Longrightarrow> finalize_listeners cfg = Inr cfg"
  by (cases cfg) (simp add: finalize_listeners_def listens_ok_def Let_def normalize_listens_fixed)

lemma finalize_listeners_frame:
  "finalize_listeners cfg = Inr cfg' \<Longrightarrow>
     upstreams cfg' = upstreams cfg \<and> client_upstreams cfg' = client_upstreams cfg \<and> hosts cfg' = hosts cfg
     \<and> upstream_proxy cfg' = upstream_proxy cfg \<and> default_upstream cfg' = default_upstream cfg"
  by (auto simp: finalize_listeners_def Let_def split: sum.splits if_splits)

subsection \<open>The whitelist\<close>

lemma normalize_whitelist_loop_ok:
  "whitelist_ok (normalize_whitelist_loop seen es)
   \<and> wl_ip ` set (normalize_whitelist_loop seen es) \<inter> seen = {}"
proof (induction es arbitrary: seen)
  case (Cons e es)
  show ?case
  proof (cases "normalize_client_ip (wl_ip e)")
    case (Some n)
    with Cons.IH [of "insert n seen"] Cons.IH [of seen] show ?thesis
      by (auto simp: whitelist_ok_def username_ok_sanitized normalize_client_ip_idem)
  qed (use Cons.IH in simp)
qed (simp add: whitelist_ok_def)

lemma normalize_whitelist_loop_fixed:
  "whitelist_ok es \<Longrightarrow> wl_ip ` set es \<inter> seen = {} \<Longrightarrow> normalize_whitelist_loop seen es = es"
proof (induction es arbitrary: seen)
  case (Cons e es)
  then have "normalize_client_ip (wl_ip e) = Some (wl_ip e)" "wl_ip e \<notin> seen" "username_ok (wl_username e)"
    by (auto simp: whitelist_ok_def)
  moreover have "normalize_whitelist_loop (insert (wl_ip e) seen) es = es"
    using Cons.prems by (intro Cons.IH) (auto simp: whitelist_ok_def)
  ultimately show ?case by (cases e) (simp add: username_ok_def)
qed simp

subsection \<open>The whole pass\<close>

lemma normalize_upstreams_frame:
  "normalize_upstreams cfg = Inr cfg' \<Longrightarrow>
     listens cfg' = listens cfg \<and> tls_listen cfg' = tls_listen cfg \<and> http_listen cfg' = http_listen cfg
     \<and> hosts cfg' = hosts cfg"
  by (auto simp: normalize_upstreams_def Let_def split: sum.splits option.splits if_splits)

lemma finalize_InrE:
  assumes "finalize rx cfg = Inr cfg'"
  obtains c1 c2 t where "finalize_listeners cfg = Inr c1" "normalize_upstreams c1 = Inr c2"
    "compile_hosts_table rx (hosts c2) = Inr t"
    "cfg' = (normalize_client_whitelist c2)\<lparr>hosts_tbl := t\<rparr>"
  using assms
  by (auto simp: finalize_def Let_def normalize_client_whitelist_def split: sum.splits)

lemma finalize_ok:
  assumes "finalize rx cfg = Inr cfg'" and "hm_wf (upstreams cfg)" and "hm_wf (client_upstreams cfg)"
  shows "config_ok rx cfg'"
  using assms(1)
proof (rule finalize_InrE)
  fix c1 c2 t
  assume c: "finalize_listeners cfg = Inr c1" "normalize_upstreams c1 = Inr c2"
    "compile_hosts_table rx (hosts c2) = Inr t"
    "cfg' = (normalize_client_whitelist c2)\<lparr>hosts_tbl := t\<rparr>"
  have "listens_ok c2"
    using finalize_listeners_ok [OF c(1)] normalize_upstreams_frame [OF c(2)] by (simp add: listens_ok_def)
  moreover have "upstreams_ok c2"
    using finalize_listeners_frame [OF c(1)] assms(2,3) by (intro normalize_upstreams_ok [OF c(2)]) auto
  ultimately show ?thesis
    using c(3) normalize_whitelist_loop_ok [of "{}" "client_whitelist c2"]
    by (simp add: c(4) config_ok_def listens_ok_def upstreams_ok_def normalize_client_whitelist_def)
qed

lemma finalize_fixed: "config_ok rx cfg \<Longrightarrow> finalize rx cfg = Inr cfg"
  using normalize_whitelist_loop_fixed [of "client_whitelist cfg" "{}"]
  by (cases cfg) (simp add: config_ok_def finalize_def finalize_listeners_fixed normalize_upstreams_fixed
      normalize_client_whitelist_def Let_def)

section \<open>Overrides keep and win\<close>

text \<open>The fields the upstream selection depends on.\<close>

definition upstream_part :: "app_config \<Rightarrow> _" where
  "upstream_part cfg = (upstreams cfg, default_upstream cfg, client_upstreams cfg, upstream_proxy cfg)"

lemma on_var_frame: "(\<And>v c. f (g v c) = f c) \<Longrightarrow> f (on_var os var g c) = f c"
  by (simp add: on_var_def split: option.split)

lemma on_text_frame: "(\<And>v c. f (g v c) = f c) \<Longrightarrow> f (on_text os var g c) = f c"
  unfolding on_text_def by (rule on_var_frame) simp

lemma on_num_frame: "(\<And>v c. f (g v c) = f c) \<Longrightarrow> f (on_num os var parse g c) = f c"
  unfolding on_num_def by (rule on_var_frame) (simp split: option.split)

lemmas env_frames = on_var_frame on_text_frame on_num_frame

lemma env_overrides_frame:
  "upstream_part (apply_probe_env_overrides os cfg) = upstream_part cfg"
  "upstream_part (apply_monitor_env_overrides os cfg) = upstream_part cfg"
  "upstream_part (apply_panel_env_overrides os cfg) = upstream_part cfg"
proof -
  have upd: "upstream_part (c\<lparr>panel := p\<rparr>) = upstream_part c"
    "upstream_part (c\<lparr>upstream_monitor := m, telegram := t\<rparr>) = upstream_part c"
    "upstream_part (c\<lparr>upstream_probe_wait_secs := n\<rparr>) = upstream_part c"
    "upstream_part (c\<lparr>upstream_probe_interval_secs := n\<rparr>) = upstream_part c"
    "upstream_part (c\<lparr>upstream_probe_required := b\<rparr>) = upstream_part c"
    "upstream_part (c\<lparr>client_whitelist_ufw := b\<rparr>) = upstream_part c"
    "upstream_part (c\<lparr>ufw_bin := s\<rparr>) = upstream_part c" for c p m t n b s
    by (simp_all add: upstream_part_def)
  show "upstream_part (apply_probe_env_overrides os cfg) = upstream_part cfg"
    unfolding apply_probe_env_overrides_def Let_def
    by (simp add: env_frames [where f = upstream_part] upd)
  show "upstream_part (apply_monitor_env_overrides os cfg) = upstream_part cfg"
    unfolding apply_monitor_env_overrides_def Let_def by (simp only: upd)
  show "upstream_part (apply_panel_env_overrides os cfg) = upstream_part cfg"
    unfolding apply_panel_env_overrides_def Let_def upd
    by (simp add: env_frames [where f = upstream_part] upd)
qed

lemma override_default:
  "hm_wf (upstreams cfg) \<Longrightarrow>
   \<exists>n. default_upstream (apply_default_proxy_override p cfg) = Some n
      \<and> hm_get (upstreams (apply_default_proxy_override p cfg)) n = Some p
      \<and> hm_wf (upstreams (apply_default_proxy_override p cfg))"
  by (simp add: apply_default_proxy_override_def Let_def hm.get_insert hm.inv_insert)

lemma finalize_keeps_default:
  assumes "finalize rx cfg = Inr cfg'" and "default_upstream cfg = Some n" and "hm_get (upstreams cfg) n = Some p"
  shows "default_upstream cfg' = Some n \<and> upstream_proxy cfg' = p \<and> upstreams cfg' = upstreams cfg"
  using assms(1)
proof (rule finalize_InrE)
  fix c1 c2 t
  assume c: "finalize_listeners cfg = Inr c1" "normalize_upstreams c1 = Inr c2"
    and cfg': "cfg' = (normalize_client_whitelist c2)\<lparr>hosts_tbl := t\<rparr>"
  have "upstreams cfg \<noteq> []" using assms(3) by (auto simp: hm.get_empty)
  with c assms(2,3) finalize_listeners_frame [OF c(1)] show ?thesis
    by (auto simp: cfg' normalize_client_whitelist_def normalize_upstreams_def default_name_def
        hm_contains_def Let_def split: sum.splits option.splits)
qed

lemma load_override:
  assumes "load rx yaml os path = Inr cfg" and "from_env os = Some p"
    and "\<And>content c. read_to_string os path = Some content \<Longrightarrow> yaml content = Some c \<Longrightarrow> hm_wf (upstreams c)"
  shows "upstream_proxy cfg = p \<and> (\<exists>n. default_upstream cfg = Some n \<and> hm_get (upstreams cfg) n = Some p)"
proof -
  define ov where "ov = (\<lambda>c. apply_monitor_env_overrides os (apply_panel_env_overrides os
      (apply_probe_env_overrides os (apply_default_proxy_override p c))))"
  have "\<exists>c. hm_wf (upstreams c) \<and> finalize rx ((ov c)\<lparr>config_path := Some path\<rparr>) = Inr cfg"
  proof (cases "path_exists os path")
    case True
    with assms show ?thesis
      by (auto simp: load_def Let_def ov_def split: option.splits)
  next
    case False
    have "hm_wf (upstreams default_app_config)" by (simp add: default_app_config_def hm.inv_empty)
    with False assms show ?thesis by (auto simp: load_def Let_def ov_def)
  qed
  then obtain c where c: "hm_wf (upstreams c)" "finalize rx ((ov c)\<lparr>config_path := Some path\<rparr>) = Inr cfg"
    by blast
  have "upstream_part (ov c) = upstream_part (apply_default_proxy_override p c)"
    by (simp add: ov_def env_overrides_frame)
  then have "upstreams (ov c) = upstreams (apply_default_proxy_override p c)"
    "default_upstream (ov c) = default_upstream (apply_default_proxy_override p c)"
    by (simp_all add: upstream_part_def)
  with override_default [OF c(1), of p] obtain n where
    "default_upstream (ov c) = Some n" "hm_get (upstreams (ov c)) n = Some p" by auto
  with finalize_keeps_default [OF c(2), of n p] show ?thesis by simp
qed

section \<open>Remapping a loopback upstream inside a container\<close>

lemma remap_not_loopback:
  "\<not> is_loopback_host gw \<Longrightarrow> \<not> is_loopback_upstream (remap_proxy_loopback_host gw p)"
  by (cases p) (auto simp: is_loopback_upstream_def)

lemma hm_get_map_values: "hm_get (map (\<lambda>(n, p). (n, f p)) m) k = map_option f (hm_get m k)"
  by (induction m) (auto simp: hm_get_def)

definition remapped :: "string \<Rightarrow> app_config \<Rightarrow> app_config" where
  "remapped gw cfg =
     cfg\<lparr>upstreams := map (\<lambda>(n, p). (n, remap_proxy_loopback_host gw p)) (upstreams cfg),
         upstream_proxy := remap_proxy_loopback_host gw (upstream_proxy cfg)\<rparr>"

lemma remap_docker_cases:
  "remap_docker_loopback_upstream os cfg = cfg
   \<or> (\<exists>gw. is_docker_bridge_gateway gw \<and> remap_docker_loopback_upstream os cfg = remapped gw cfg)"
  unfolding remap_docker_loopback_upstream_def Let_def remapped_def [symmetric]
  by (auto split: option.split)

lemma bridge_gateway_not_loopback: "is_docker_bridge_gateway gw \<Longrightarrow> \<not> is_loopback_host gw"
  by (auto simp: is_docker_bridge_gateway_def is_loopback_host_def)

lemma upstreams_ok_remapped:
  assumes "upstreams_ok cfg"
  shows "upstreams_ok (remapped gw cfg)"
proof -
  have keys: "map (fst \<circ> (\<lambda>(n, p). (n, remap_proxy_loopback_host gw p))) m = map fst m" for m :: "(string, upstream_proxy) hash_map"
    by (induction m) auto
  from assms show ?thesis
    by (auto simp: remapped_def upstreams_ok_def hm_wf_def keys hm_contains_def hm_get_map_values)
qed

section \<open>Proxy strings\<close>

definition word :: "string \<Rightarrow> bool" where
  "word w \<longleftrightarrow> w \<noteq> [] \<and> no_ws w"

lemma split_whitespace_words:
  "list_all word ws \<Longrightarrow> split_whitespace (join '' '' ws) = ws"
proof (induction "'' ''" ws rule: join.induct)
  case 1
  then show ?case by (simp add: split_whitespace_def)
next
  case (2 x)
  then show ?case by (simp add: word_def no_ws_def split_whitespace_word)
next
  case (3 x y xs)
  then show ?case
    by (simp add: word_def no_ws_def split_whitespace_word is_whitespace_def del: join.simps)
      (simp add: split_whitespace_word is_whitespace_def)
qed

section \<open>Properties\<close>

text \<open>client addresses have one textual form. A text that \<open>normalize_client_ip\<close> accepts is
  mapped to a fixed point, and two texts are mapped to the same key exactly when they denote the
  same address (so \<open>0:0:0:0:0:0:0:1\<close> and \<open>::1\<close> share a key and two different addresses never do).\<close>

theorem client_ip_canonical:
  assumes "normalize_client_ip a = Some k"
  shows "normalize_client_ip k = Some k
    \<and> (\<forall>b. normalize_client_ip b = Some k \<longleftrightarrow> parse_ip_addr (trim b) = parse_ip_addr (trim a))"
  using normalize_client_ip_idem [OF assms] normalize_client_ip_same [OF assms] by blast

theorem client_ip_canonical_witness:
  "normalize_client_ip ''::1'' = Some ''::1'' \<and> normalize_client_ip ''0:0::1'' = Some ''::1''"
proof -
  have a: "normalize_client_ip '' 0:0:0:0:0:0:0:1 '' = Some ''::1''" by code_simp
  have "parse_ip_addr (trim ''0:0::1'') = parse_ip_addr (trim '' 0:0:0:0:0:0:0:1 '')" by code_simp
  with client_ip_canonical [OF a] show ?thesis by blast
qed

text \<open>C28: what \<open>finalize\<close> establishes. A configuration that finalises has a listener, a known
  protocol on each of them, an existing default profile whose proxy is the legacy
  \<open>upstream_proxy\<close>, client mappings to existing profiles under canonical keys only, and a
  whitelist of distinct canonical addresses with sanitised names; finalising again changes
  nothing.\<close>

theorem finalize_establishes_config:
  assumes "finalize rx cfg = Inr cfg'" and "hm_wf (upstreams cfg)" and "hm_wf (client_upstreams cfg)"
  shows "config_ok rx cfg' \<and> finalize rx cfg' = Inr cfg'"
  using finalize_ok [OF assms] finalize_fixed by blast

definition example_config :: app_config where
  "example_config = default_app_config
     \<lparr>upstreams := [(''eu'', Direct), (''me'', Socks5 ''10.0.0.2'' 1080 None None)],
      client_upstreams := [(''10.0.0.9 '', ''me''), (''10.0.0.8'', ''gone'')],
      client_whitelist := [ip_only ''::FFFF'', ip_only ''0::ffff'', ip_only ''bad'']\<rparr>"

theorem finalize_establishes_config_witness:
  "\<exists>cfg'. finalize any_rx example_config = Inr cfg' \<and> config_ok any_rx cfg'
     \<and> finalize any_rx cfg' = Inr cfg' \<and> default_upstream cfg' = Some ''eu''
     \<and> client_upstreams cfg' = [(''10.0.0.9'', ''me'')] \<and> client_whitelist cfg' = [ip_only ''::ffff'']"
proof -
  have e: "case finalize any_rx example_config of Inr c \<Rightarrow>
      default_upstream c = Some ''eu'' \<and> client_upstreams c = [(''10.0.0.9'', ''me'')]
      \<and> client_whitelist c = [ip_only ''::ffff''] | Inl e \<Rightarrow> False" by code_simp
  then obtain cfg' where cfg': "finalize any_rx example_config = Inr cfg'" by (auto split: sum.splits)
  have "hm_wf (upstreams example_config)" "hm_wf (client_upstreams example_config)" by code_simp+
  with finalize_establishes_config [OF cfg'] cfg' e show ?thesis by auto
qed

text \<open>the \<open>PROXY\<close> variable wins. If it parses, every configuration that loads uses its proxy
  for the default profile, whatever the file says; the YAML deserialiser is only assumed to
  produce maps with distinct keys.\<close>

theorem load_proxy_variable_wins:
  assumes "load rx yaml os path = Inr cfg" and "env_var os ''PROXY'' = Some s"
    and "parse_proxy_string s = Inr p"
    and "\<And>content c. yaml content = Some c \<Longrightarrow> hm_wf (upstreams c)"
  shows "upstream_proxy cfg = p \<and> (\<exists>n. default_upstream cfg = Some n \<and> hm_get (upstreams cfg) n = Some p)"
  using assms by (intro load_override) (auto simp: from_env_def)

definition example_os :: os where
  "example_os = \<lparr>env_var = (\<lambda>v. if v = ''PROXY'' then Some ''socks5 10.1.1.1 1080'' else None),
     path_exists = (\<lambda>_. False), path_is_dir = (\<lambda>_. False), path_is_file = (\<lambda>_. False),
     read_to_string = (\<lambda>_. None)\<rparr>"

theorem load_proxy_variable_wins_witness:
  "\<exists>cfg. load any_rx (\<lambda>_. None) example_os ''config.yaml'' = Inr cfg
     \<and> upstream_proxy cfg = Socks5 ''10.1.1.1'' 1080 None None"
proof -
  have "case load any_rx (\<lambda>_. None) example_os ''config.yaml'' of Inr _ \<Rightarrow> True | Inl _ \<Rightarrow> False" by code_simp
  then obtain cfg where l: "load any_rx (\<lambda>_. None) example_os ''config.yaml'' = Inr cfg" by (auto split: sum.splits)
  have v: "env_var example_os ''PROXY'' = Some ''socks5 10.1.1.1 1080''" by code_simp
  have p: "parse_proxy_string ''socks5 10.1.1.1 1080'' = Inr (Socks5 ''10.1.1.1'' 1080 None None)" by code_simp
  show ?thesis
    using load_proxy_variable_wins [OF l v p] l by auto
qed

text \<open>the proxy string is parsed back. For every host, user and password that is one word and
  every port, the string \<open>socks5 host port user password\<close> yields exactly that upstream.\<close>

theorem parse_proxy_string_socks5:
  assumes "word host" and "list_all word creds" and "length creds \<le> 2"
  shows "parse_proxy_string (join '' '' ([''socks5'', host, show_nat (unat port)] @ creds)) =
    Inr (Socks5 host port (if 0 < length creds then Some (creds ! 0) else None)
                          (if 1 < length creds then Some (creds ! 1) else None))"
proof -
  have "word ''socks5''" by code_simp
  moreover have "word (show_nat (unat port))" by (simp add: word_def)
  ultimately have "split_whitespace (join '' '' ([''socks5'', host, show_nat (unat port)] @ creds)) =
      [''socks5'', host, show_nat (unat port)] @ creds"
    using assms by (intro split_whitespace_words) simp
  moreover have "\<not> eq_ignore_ascii_case ''socks5'' ''direct''" "to_lowercase ''socks5'' = ''socks5''"
    by code_simp+
  ultimately show ?thesis
    using assms(3) by (cases creds) (auto simp: parse_proxy_string_def Let_def)
qed

theorem parse_proxy_string_socks5_witness:
  "parse_proxy_string ''socks5 127.0.0.1 1080 bob'' = Inr (Socks5 ''127.0.0.1'' 1080 (Some ''bob'') None)"
proof -
  have "word ''127.0.0.1''" "list_all word [''bob'']" by code_simp+
  moreover have "join '' '' ([''socks5'', ''127.0.0.1'', show_nat (unat (1080 :: u16))] @ [''bob'']) =
      ''socks5 127.0.0.1 1080 bob''" by code_simp
  ultimately show ?thesis
    using parse_proxy_string_socks5 [of "''127.0.0.1''" "[''bob'']" 1080] by simp
qed

text \<open>a whitelist row survives being written to YAML and read back exactly when its name is
  sanitised, which holds for every row of a finalised configuration.\<close>

theorem whitelist_yaml_roundtrip:
  "deserialize_whitelist (serialize_whitelist e) = e \<longleftrightarrow> username_ok (wl_username e)"
  by (cases e; cases "wl_username e")
    (auto simp: serialize_whitelist_def username_ok_def dest: sanitize_Some(1))

text \<open>remapping for Docker keeps the upstream invariant (names, default profile and client
  routes stay valid), and whenever it changes anything no upstream points at the loopback of the
  container any more.\<close>

theorem remap_docker_upstreams:
  assumes "upstreams_ok cfg"
  shows "upstreams_ok (remap_docker_loopback_upstream os cfg)
    \<and> (remap_docker_loopback_upstream os cfg \<noteq> cfg \<longrightarrow>
         list_all (\<lambda>(_, p). \<not> is_loopback_upstream p) (upstreams (remap_docker_loopback_upstream os cfg))
         \<and> \<not> is_loopback_upstream (upstream_proxy (remap_docker_loopback_upstream os cfg)))"
proof -
  have "upstreams_ok (remapped gw cfg)
      \<and> list_all (\<lambda>(_, p). \<not> is_loopback_upstream p) (upstreams (remapped gw cfg))
      \<and> \<not> is_loopback_upstream (upstream_proxy (remapped gw cfg))"
    if "is_docker_bridge_gateway gw" for gw
    using upstreams_ok_remapped [OF assms, of gw] remap_not_loopback [OF bridge_gateway_not_loopback [OF that]]
    by (auto simp: remapped_def list_all_iff)
  with remap_docker_cases [of os cfg] assms show ?thesis by metis
qed

definition docker_os :: os where
  "docker_os = \<lparr>env_var = (\<lambda>v. if v = ''HOST_PROXY_GATEWAY'' then Some ''172.17.0.1'' else None),
     path_exists = (\<lambda>p. p = ''/.dockerenv''), path_is_dir = (\<lambda>_. False), path_is_file = (\<lambda>_. False),
     read_to_string = (\<lambda>_. None)\<rparr>"

definition loopback_config :: app_config where
  "loopback_config = default_app_config
     \<lparr>upstreams := [(''default'', default_upstream_proxy)], default_upstream := Some ''default''\<rparr>"

theorem remap_docker_upstreams_witness:
  "upstream_proxy (remap_docker_loopback_upstream docker_os loopback_config) = Socks5 ''172.17.0.1'' 1080 None None
   \<and> upstreams_ok (remap_docker_loopback_upstream docker_os loopback_config)"
proof -
  have "upstreams_ok loopback_config"
    by (auto simp: upstreams_ok_def loopback_config_def default_app_config_def hm_wf_def hm_get_def)
  moreover have "upstream_proxy (remap_docker_loopback_upstream docker_os loopback_config) =
      Socks5 ''172.17.0.1'' 1080 None None" by code_simp
  ultimately show ?thesis using remap_docker_upstreams [of loopback_config docker_os] by blast
qed

end
