(* ===== verification/Relay_Limiter.thy ===== *)
theory Relay_Limiter
  imports Relay_Config
begin

text \<open>
  The daily limits per domain of \<open>src/domain_limiter.rs\<close>. The clock is an argument (the seconds
  since the epoch), the file system is a map from paths to contents with a fault record, and the
  JSON encoder and decoder are parameters. The first part models each operation as it runs alone;
  the second models the atomic steps of concurrent calls and shows the connection quota under every
  interleaving of a day, and the one interleaving at midnight that breaks it.
\<close>

section \<open>Counters\<close>

definition STATE_VERSION :: byte where
  "STATE_VERSION = 1"

text \<open>The cast to 32 bits comes before the division.\<close>

definition epoch_day_utc :: "u64 \<Rightarrow> u32" where
  "epoch_day_utc now = (ucast now :: u32) div 86400"

record persisted_domain =
  pd_day :: u32
  pd_bytes :: u64
  pd_connections :: u64

record persisted_state =
  ps_version :: byte
  ps_domains :: "(string, persisted_domain) hash_map"

record domain_counters =
  dc_bytes :: u64
  dc_connections :: u64
  dc_day :: u32

definition new_counters :: "u64 \<Rightarrow> domain_counters" where
  "new_counters now = \<lparr>dc_bytes = 0, dc_connections = 0, dc_day = epoch_day_utc now\<rparr>"

definition restore :: "u32 \<Rightarrow> u64 \<Rightarrow> u64 \<Rightarrow> domain_counters \<Rightarrow> domain_counters" where
  "restore day bytes connections c =
     c\<lparr>dc_day := day, dc_bytes := bytes, dc_connections := connections\<rparr>"

definition refresh_if_new_day :: "u64 \<Rightarrow> domain_counters \<Rightarrow> domain_counters" where
  "refresh_if_new_day now c =
     (let today = epoch_day_utc now
      in if dc_day c \<noteq> today then c\<lparr>dc_day := today, dc_bytes := 0, dc_connections := 0\<rparr> else c)"

definition snapshot :: "u64 \<Rightarrow> domain_counters \<Rightarrow> domain_counters \<times> u32 \<times> u64 \<times> u64" where
  "snapshot now c = (let c = refresh_if_new_day now c in (c, dc_day c, dc_bytes c, dc_connections c))"

datatype limit_reason = DailyBandwidth | DailyConnections

fun show_limit_reason :: "limit_reason \<Rightarrow> string" where
  "show_limit_reason DailyBandwidth = ''daily_bandwidth''"
| "show_limit_reason DailyConnections = ''daily_connections''"

record domain_limiter =
  lm_limits :: "(string, domain_limit_config) hash_map"
  lm_counters :: "(string, domain_counters) hash_map"
  lm_state_file :: "string option"
  lm_dirty :: bool

section \<open>Which limit applies to a name\<close>

definition key_matches :: "string \<Rightarrow> string \<Rightarrow> bool" where
  "key_matches sni key \<longleftrightarrow> sni = key \<or> ends_with sni (''.'' @ key)"

fun best_key :: "string \<Rightarrow> string option \<Rightarrow> string list \<Rightarrow> string option" where
  "best_key sni best [] = best"
| "best_key sni best (key # keys) =
     (if key_matches sni key \<and> (case best of Some b \<Rightarrow> length b < length key | None \<Rightarrow> True)
      then best_key sni (Some key) keys
      else best_key sni best keys)"

definition resolve_limit_key :: "domain_limiter \<Rightarrow> string \<Rightarrow> string option" where
  "resolve_limit_key lm sni =
     (let sni = to_lowercase sni
      in if hm_contains (lm_limits lm) sni then Some sni
         else best_key sni None (map fst (lm_limits lm)))"

definition counters_for :: "domain_limiter \<Rightarrow> string \<Rightarrow> (string \<times> domain_limit_config \<times> domain_counters) option" where
  "counters_for lm sni = do {
     key \<leftarrow> resolve_limit_key lm sni;
     limit \<leftarrow> hm_get (lm_limits lm) key;
     c \<leftarrow> hm_get (lm_counters lm) key;
     Some (key, limit, c) }"

definition set_counters :: "string \<Rightarrow> domain_counters \<Rightarrow> domain_limiter \<Rightarrow> domain_limiter" where
  "set_counters key c lm = lm\<lparr>lm_counters := hm_insert key c (lm_counters lm)\<rparr>"

definition mark_dirty :: "domain_limiter \<Rightarrow> domain_limiter" where
  "mark_dirty lm = (if lm_state_file lm \<noteq> None then lm\<lparr>lm_dirty := True\<rparr> else lm)"

section \<open>Admission and accounting\<close>

text \<open>
  Run alone, the compare-and-exchange loop succeeds with the value it has just read (a spurious
  failure returns the same value and retries).
\<close>

definition check_connection ::
    "u64 \<Rightarrow> domain_limiter \<Rightarrow> string \<Rightarrow> domain_limiter \<times> (limit_reason + unit)" where
  "check_connection now lm domain =
     (case counters_for lm domain of
        None \<Rightarrow> (lm, Inr ())
      | Some (key, limit, c) \<Rightarrow>
          (let c = refresh_if_new_day now c;
               lm = set_counters key c lm
           in if (case daily_bandwidth limit of Some max_bytes \<Rightarrow> max_bytes \<le> dc_bytes c | None \<Rightarrow> False)
              then (lm, Inl DailyBandwidth)
              else case daily_connections limit of
                     None \<Rightarrow> (lm, Inr ())
                   | Some max_conn \<Rightarrow>
                       if max_conn \<le> dc_connections c then (lm, Inl DailyConnections)
                       else (mark_dirty (set_counters key (c\<lparr>dc_connections := dc_connections c + 1\<rparr>) lm),
                             Inr ())))"

definition account_bytes ::
    "u64 \<Rightarrow> domain_limiter \<Rightarrow> string \<Rightarrow> u64 \<Rightarrow> domain_limiter \<times> (limit_reason + unit)" where
  "account_bytes now lm domain bytes =
     (if bytes = 0 then (lm, Inr ())
      else case counters_for lm domain of
             None \<Rightarrow> (lm, Inr ())
           | Some (key, limit, c) \<Rightarrow>
               (case daily_bandwidth limit of
                  None \<Rightarrow> (lm, Inr ())
                | Some max_bytes \<Rightarrow>
                    (let c = refresh_if_new_day now c;
                         new_used = dc_bytes c + bytes;
                         lm = mark_dirty (set_counters key (c\<lparr>dc_bytes := new_used\<rparr>) lm)
                     in if max_bytes < new_used then (lm, Inl DailyBandwidth) else (lm, Inr ()))))"

section \<open>State on disk\<close>

text \<open>
  \<open>json\<close> holds the serialiser and the deserialiser. A failing write may leave any contents in the
  temporary file; a rename either happens or not.
\<close>

record json_crate =
  to_json :: "persisted_state \<Rightarrow> string"
  from_json :: "string \<Rightarrow> persisted_state option"

type_synonym file_system = "string \<Rightarrow> string option"

record io_faults =
  mkdir_fails :: bool
  write_leaves :: "string option option"
  rename_fails :: bool
  read_fails :: bool

datatype limiter_error =
    CreateDirFailed | WriteFailed | RenameFailed | ReadStateFailed | ParseStateFailed

text \<open>\<open>with_extension "json.tmp"\<close>: the last component loses its extension and gets the new one.\<close>

definition file_stem :: "string \<Rightarrow> string" where
  "file_stem name =
     (case rsplit_once CHR ''.'' name of
        Some (stem, _) \<Rightarrow> if stem = [] then name else stem
      | None \<Rightarrow> name)"

definition tmp_path :: "string \<Rightarrow> string" where
  "tmp_path path =
     (case rsplit_once CHR ''/'' path of
        Some (dir, name) \<Rightarrow> dir @ ''/'' @ file_stem name @ ''.json.tmp''
      | None \<Rightarrow> file_stem path @ ''.json.tmp'')"

definition build_snapshot :: "u64 \<Rightarrow> domain_limiter \<Rightarrow> domain_limiter \<times> persisted_state" where
  "build_snapshot now lm =
     (let cs = map (\<lambda>(key, c). (key, refresh_if_new_day now c)) (lm_counters lm)
      in (lm\<lparr>lm_counters := cs\<rparr>,
          \<lparr>ps_version = STATE_VERSION,
           ps_domains = hm_collect (map (\<lambda>(key, c).
             (key, \<lparr>pd_day = dc_day c, pd_bytes = dc_bytes c, pd_connections = dc_connections c\<rparr>)) cs)\<rparr>))"

definition persist_now ::
    "json_crate \<Rightarrow> io_faults \<Rightarrow> u64 \<Rightarrow> file_system \<Rightarrow> domain_limiter
     \<Rightarrow> file_system \<times> domain_limiter \<times> (limiter_error + unit)" where
  "persist_now js io now fs lm =
     (case lm_state_file lm of
        None \<Rightarrow> (fs, lm, Inr ())
      | Some path \<Rightarrow>
          if mkdir_fails io then (fs, lm, Inl CreateDirFailed)
          else case build_snapshot now lm of (lm, state) \<Rightarrow>
            (let json = to_json js state; tmp = tmp_path path
             in case write_leaves io of
                  Some left \<Rightarrow> (fs(tmp := left), lm, Inl WriteFailed)
                | None \<Rightarrow>
                    (let fs = fs(tmp := Some json)
                     in if rename_fails io then (fs, lm, Inl RenameFailed)
                        else (fs(path := Some json, tmp := None), lm\<lparr>lm_dirty := False\<rparr>, Inr ()))))"

definition flush_if_dirty ::
    "json_crate \<Rightarrow> io_faults \<Rightarrow> u64 \<Rightarrow> file_system \<Rightarrow> domain_limiter
     \<Rightarrow> file_system \<times> domain_limiter \<times> (limiter_error + unit)" where
  "flush_if_dirty js io now fs lm =
     (if \<not> lm_dirty lm then (fs, lm, Inr ()) else persist_now js io now fs lm)"

fun restore_loop ::
    "u32 \<Rightarrow> (string, domain_counters) hash_map \<Rightarrow> (string \<times> persisted_domain) list
     \<Rightarrow> (string, domain_counters) hash_map" where
  "restore_loop today cs [] = cs"
| "restore_loop today cs ((domain, saved) # ds) =
     (let key = to_lowercase domain
      in case hm_get cs key of
           None \<Rightarrow> restore_loop today cs ds
         | Some c \<Rightarrow>
             if pd_day saved \<noteq> today then restore_loop today cs ds
             else restore_loop today
                    (hm_insert key (restore (pd_day saved) (pd_bytes saved) (pd_connections saved) c) cs) ds)"

definition load_from_disk ::
    "json_crate \<Rightarrow> io_faults \<Rightarrow> u64 \<Rightarrow> file_system \<Rightarrow> domain_limiter \<Rightarrow> string
     \<Rightarrow> limiter_error + domain_limiter" where
  "load_from_disk js io now fs lm path =
     (case fs path of
        None \<Rightarrow> Inr lm
      | Some raw \<Rightarrow>
          if read_fails io then Inl ReadStateFailed
          else case from_json js raw of
                 None \<Rightarrow> Inl ParseStateFailed
               | Some state \<Rightarrow>
                   if ps_version state \<noteq> STATE_VERSION then Inr lm
                   else Inr (lm\<lparr>lm_counters :=
                          restore_loop (epoch_day_utc now) (lm_counters lm) (ps_domains state)\<rparr>))"

definition limiter_load ::
    "json_crate \<Rightarrow> io_faults \<Rightarrow> u64 \<Rightarrow> file_system
     \<Rightarrow> (string, domain_limit_config) hash_map \<Rightarrow> string option \<Rightarrow> limiter_error + domain_limiter" where
  "limiter_load js io now fs limits state_file =
     (let limits = hm_collect (map (\<lambda>(k, v). (to_lowercase k, v)) limits);
          counters = hm_collect (map (\<lambda>(k, _). (k, new_counters now)) limits);
          lm = \<lparr>lm_limits = limits, lm_counters = counters, lm_state_file = state_file, lm_dirty = False\<rparr>
      in case state_file of
           None \<Rightarrow> Inr lm
         | Some path \<Rightarrow> load_from_disk js io now fs lm path)"

section \<open>The longest matching key\<close>

definition best_of :: "string \<Rightarrow> string set \<Rightarrow> string \<Rightarrow> bool" where
  "best_of sni keys k \<longleftrightarrow> k \<in> keys \<and> key_matches sni k \<and> (\<forall>k' \<in> keys. key_matches sni k' \<longrightarrow> length k' \<le> length k)"

lemma key_matches_suffix: "key_matches sni k \<Longrightarrow> suffix k sni"
  by (auto simp: key_matches_def suffix_def)

lemma best_of_unique: "best_of sni keys k \<Longrightarrow> best_of sni keys k' \<Longrightarrow> k = k'"
  unfolding best_of_def by (metis key_matches_suffix le_antisym suffix_length_suffix suffix_order.antisym)

lemma best_key_invariant:
  assumes "case best of None \<Rightarrow> \<forall>k \<in> seen. \<not> key_matches sni k | Some b \<Rightarrow> best_of sni seen b"
  shows "case best_key sni best keys of
      None \<Rightarrow> \<forall>k \<in> seen \<union> set keys. \<not> key_matches sni k
    | Some b \<Rightarrow> best_of sni (seen \<union> set keys) b"
  using assms
proof (induction keys arbitrary: best seen)
  case (Cons key keys)
  define b' where "b' = (if key_matches sni key \<and> (case best of Some b \<Rightarrow> length b < length key | None \<Rightarrow> True)
      then Some key else best)"
  have "case b' of None \<Rightarrow> \<forall>k \<in> insert key seen. \<not> key_matches sni k | Some b \<Rightarrow> best_of sni (insert key seen) b"
    using Cons.prems by (cases best) (auto simp: b'_def best_of_def split: if_splits)
  moreover have "best_key sni best (key # keys) = best_key sni b' keys" by (simp add: b'_def)
  moreover have "seen \<union> set (key # keys) = insert key seen \<union> set keys" by simp
  ultimately show ?case using Cons.IH by (metis (no_types))
qed (simp split: option.splits)

lemma resolve_limit_key_best:
  "case resolve_limit_key lm sni of
     None \<Rightarrow> \<forall>k \<in> fst ` set (lm_limits lm). \<not> key_matches (to_lowercase sni) k
   | Some k \<Rightarrow> best_of (to_lowercase sni) (fst ` set (lm_limits lm)) k"
proof (cases "hm_contains (lm_limits lm) (to_lowercase sni)")
  case True
  have "length k \<le> length (to_lowercase sni)" if "key_matches (to_lowercase sni) k" for k
    using key_matches_suffix [OF that] by (rule suffix_length_le)
  with True show ?thesis
    by (simp add: resolve_limit_key_def Let_def best_of_def key_matches_def hm_contains_iff)
next
  case False
  then show ?thesis
    using best_key_invariant [where best = None and seen = "{}" and sni = "to_lowercase sni"
        and keys = "map fst (lm_limits lm)"]
    by (simp add: resolve_limit_key_def Let_def split: option.splits)
qed

lemma resolve_limit_key_iff:
  "resolve_limit_key lm sni = Some k \<longleftrightarrow> best_of (to_lowercase sni) (fst ` set (lm_limits lm)) k"
proof (cases "resolve_limit_key lm sni")
  case None
  with resolve_limit_key_best [of lm sni] show ?thesis by (auto simp: best_of_def)
next
  case (Some k')
  with resolve_limit_key_best [of lm sni]
  have "best_of (to_lowercase sni) (fst ` set (lm_limits lm)) k'" by simp
  with Some show ?thesis using best_of_unique by auto
qed

section \<open>Invariant of the limiter\<close>

definition limiter_ok :: "domain_limiter \<Rightarrow> bool" where
  "limiter_ok lm \<longleftrightarrow>
     hm_wf (lm_limits lm) \<and> hm_wf (lm_counters lm)
     \<and> fst ` set (lm_counters lm) = fst ` set (lm_limits lm)
     \<and> (\<forall>k \<in> fst ` set (lm_limits lm). to_lowercase k = k)"

lemma fst_set_hm_insert: "fst ` set (hm_insert k v m) = insert k (fst ` set m)"
proof -
  have "dom (hm_get (hm_insert k v m)) = insert k (dom (hm_get m))"
    by (auto simp: hm_get_def hm_insert_def update_conv')
  then show ?thesis by (simp add: hm_get_def [abs_def] dom_map_of_conv_image_fst)
qed

lemma fst_set_hm_collect: "fst ` set (hm_collect kvs) = fst ` set kvs"
proof -
  have "fst ` set (foldl (\<lambda>m (k, v). hm_insert k v m) m kvs) = fst ` set m \<union> fst ` set kvs"
    for m :: "('a, 'b) hash_map"
  proof (induction kvs arbitrary: m)
    case (Cons kv kvs)
    then show ?case by (cases kv) (auto simp: fst_set_hm_insert)
  qed simp
  then show ?thesis by (simp add: hm_collect_def)
qed

lemma hm_wf_collect: "hm_wf (hm_collect kvs)"
  unfolding hm_collect_def by (rule hm.inv_foldl_insert [OF hm.inv_empty])

lemma limiter_ok_set_counters:
  "limiter_ok lm \<Longrightarrow> k \<in> fst ` set (lm_counters lm) \<Longrightarrow> limiter_ok (set_counters k c lm)"
  by (auto simp: limiter_ok_def set_counters_def hm.inv_insert fst_set_hm_insert)

lemma limiter_ok_mark_dirty: "limiter_ok (mark_dirty lm) \<longleftrightarrow> limiter_ok lm"
  by (simp add: mark_dirty_def limiter_ok_def)

lemma counters_for_Some:
  "counters_for lm sni = Some (key, limit, c) \<longleftrightarrow>
     resolve_limit_key lm sni = Some key \<and> hm_get (lm_limits lm) key = Some limit
     \<and> hm_get (lm_counters lm) key = Some c"
  by (auto simp: counters_for_def bind_eq_Some_conv)

lemma counters_for_total:
  assumes "limiter_ok lm" and "resolve_limit_key lm sni = Some key"
  shows "\<exists>limit c. counters_for lm sni = Some (key, limit, c)"
proof -
  have "key \<in> fst ` set (lm_limits lm)" using assms(2) by (simp add: resolve_limit_key_iff best_of_def)
  with assms(1) have "hm_contains (lm_limits lm) key" "hm_contains (lm_counters lm) key"
    by (simp_all add: hm_contains_iff limiter_ok_def)
  with assms(2) show ?thesis by (auto simp: counters_for_def hm_contains_def)
qed

lemma counters_for_key: "counters_for lm sni = Some (key, limit, c) \<Longrightarrow> key \<in> fst ` set (lm_counters lm)"
  by (auto simp: counters_for_Some dest!: hm_get_SomeD intro: rev_image_eqI)

text \<open>Which configuration and key apply does not change; the counters do.\<close>

lemma resolve_limit_key_frame:
  "lm_limits lm' = lm_limits lm \<Longrightarrow> resolve_limit_key lm' sni = resolve_limit_key lm sni"
  by (simp add: resolve_limit_key_def Let_def)

lemma set_counters_key [simp]: "k \<in> fst ` set (lm_counters (set_counters k c lm))"
  by (simp add: set_counters_def fst_set_hm_insert)

lemma limits_frame [simp]:
  "lm_limits (set_counters k c lm) = lm_limits lm" "lm_limits (mark_dirty lm) = lm_limits lm"
  "lm_counters (mark_dirty lm) = lm_counters lm" "lm_state_file (set_counters k c lm) = lm_state_file lm"
  "lm_state_file (mark_dirty lm) = lm_state_file lm"
  by (simp_all add: set_counters_def mark_dirty_def)

lemma get_set_counters [simp]:
  "limiter_ok lm \<Longrightarrow> hm_get (lm_counters (set_counters k c lm)) j = (if j = k then Some c else hm_get (lm_counters lm) j)"
  by (simp add: set_counters_def hm.get_insert limiter_ok_def)

lemma check_connection_ok:
  assumes "limiter_ok lm"
  shows "limiter_ok (fst (check_connection now lm domain))"
  using assms limiter_ok_set_counters [OF assms counters_for_key]
  by (auto simp: check_connection_def Let_def limiter_ok_mark_dirty limiter_ok_set_counters
      split: option.split)

lemma account_bytes_ok:
  assumes "limiter_ok lm"
  shows "limiter_ok (fst (account_bytes now lm domain n))"
  using assms limiter_ok_set_counters [OF assms counters_for_key]
  by (auto simp: account_bytes_def Let_def limiter_ok_mark_dirty split: option.split)

section \<open>A day's quota over a history of calls\<close>

datatype limit_op = Connect string | Transfer string u64

fun apply_op :: "u64 \<Rightarrow> domain_limiter \<Rightarrow> limit_op \<Rightarrow> domain_limiter \<times> (limit_reason + unit)" where
  "apply_op now lm (Connect d) = check_connection now lm d"
| "apply_op now lm (Transfer d n) = account_bytes now lm d n"

fun connects_to :: "domain_limiter \<Rightarrow> string \<Rightarrow> limit_op \<Rightarrow> bool" where
  "connects_to lm key (Connect d) = (resolve_limit_key lm d = Some key)"
| "connects_to lm key (Transfer d n) = False"

text \<open>How many connections a history admits under a key on one day.\<close>

fun admitted :: "string \<Rightarrow> u32 \<Rightarrow> domain_limiter \<Rightarrow> (u64 \<times> limit_op) list \<Rightarrow> nat" where
  "admitted key day lm [] = 0"
| "admitted key day lm ((now, op) # h) =
     (case apply_op now lm op of (lm', r) \<Rightarrow>
        (if connects_to lm key op \<and> epoch_day_utc now = day \<and> r = Inr () then 1 else 0)
        + admitted key day lm' h)"

lemma apply_op_ok: "limiter_ok lm \<Longrightarrow> limiter_ok (fst (apply_op now lm op))"
  by (cases op) (simp_all add: check_connection_ok account_bytes_ok)

lemma apply_op_limits: "lm_limits (fst (apply_op now lm op)) = lm_limits lm"
  by (cases op) (auto simp: check_connection_def account_bytes_def Let_def split: option.split)

lemma refresh_day: "dc_day (refresh_if_new_day now c) = epoch_day_utc now"
  by (simp add: refresh_if_new_day_def Let_def)

lemma refresh_connections:
  "dc_connections (refresh_if_new_day now c) = (if dc_day c = epoch_day_utc now then dc_connections c else 0)"
  by (simp add: refresh_if_new_day_def Let_def)

lemma refresh_bytes:
  "dc_bytes (refresh_if_new_day now c) = (if dc_day c = epoch_day_utc now then dc_bytes c else 0)"
  by (simp add: refresh_if_new_day_def Let_def)

lemmas refreshed = refresh_day refresh_connections refresh_bytes

text \<open>
  One call seen from one key: its counters are untouched, or refreshed to the day of the call, and
  an admission adds one below the limit.
\<close>

lemma apply_op_key:
  assumes "limiter_ok lm" and "hm_get (lm_counters lm) key = Some c"
    and "hm_get (lm_limits lm) key = Some limit" and "daily_connections limit = Some m"
  shows "\<exists>c'. hm_get (lm_counters (fst (apply_op now lm op))) key = Some c' \<and>
     (if connects_to lm key op \<and> snd (apply_op now lm op) = Inr ()
      then dc_day c' = epoch_day_utc now \<and> dc_connections (refresh_if_new_day now c) < m
           \<and> dc_connections c' = dc_connections (refresh_if_new_day now c) + 1
      else c' = c \<or> (dc_day c' = epoch_day_utc now
           \<and> dc_connections c' = dc_connections (refresh_if_new_day now c)))"
proof (cases op)
  case (Connect d)
  show ?thesis
  proof (cases "resolve_limit_key lm d")
    case None
    then have "counters_for lm d = None" by (simp add: counters_for_def)
    with None Connect assms(2) show ?thesis by (simp add: check_connection_def)
  next
    case (Some k)
    then obtain l b where cf: "counters_for lm d = Some (k, l, b)" using counters_for_total [OF assms(1)] by blast
    show ?thesis
    proof (cases "k = key")
      case True
      with cf assms have "l = limit" "b = c" by (simp_all add: counters_for_Some)
      with True cf Connect Some assms show ?thesis
        by (auto simp: check_connection_def Let_def refresh_day limiter_ok_set_counters counters_for_key not_le
            split: option.split)
    next
      case False
      with cf Connect Some assms show ?thesis
        by (auto simp: check_connection_def Let_def limiter_ok_set_counters counters_for_key split: option.split)
    qed
  qed
next
  case (Transfer d n)
  show ?thesis
  proof (cases "counters_for lm d")
    case None
    with Transfer assms(2) show ?thesis by (simp add: account_bytes_def)
  next
    case (Some klb)
    obtain k l b where klb: "klb = (k, l, b)" by (cases klb)
    with Some assms have "k = key \<Longrightarrow> l = limit \<and> b = c" by (simp add: counters_for_Some)
    with Some klb Transfer assms show ?thesis
      by (auto simp: account_bytes_def Let_def refresh_day split: option.split)
  qed
qed

lemma admitted_other_day:
  "\<forall>(now, op) \<in> set h. epoch_day_utc now \<noteq> day \<Longrightarrow> admitted key day lm h = 0"
  by (induction key day lm h rule: admitted.induct) (auto split: prod.split)

lemma admitted_bound:
  assumes "limiter_ok lm" and "hm_get (lm_counters lm) key = Some c"
    and "hm_get (lm_limits lm) key = Some limit" and "daily_connections limit = Some m"
    and "sorted (map (\<lambda>(now, _). epoch_day_utc now) h)"
  shows "admitted key day lm h \<le>
    (if dc_day c = day \<and> (\<forall>(now, _) \<in> set h. day \<le> epoch_day_utc now)
     then unat m - unat (dc_connections c) else unat m)"
  using assms
proof (induction h arbitrary: lm c)
  case (Cons e h)
  obtain now op where e: "e = (now, op)" by (cases e)
  let ?d = "epoch_day_utc now" and ?r = "refresh_if_new_day now c"
  obtain lm' r where ap: "apply_op now lm op = (lm', r)" by fastforce
  have ok': "limiter_ok lm'" and lim': "lm_limits lm' = lm_limits lm"
    using apply_op_ok [OF Cons.prems(1), of now op] apply_op_limits [of now lm op] ap by simp_all
  obtain c' where c': "hm_get (lm_counters lm') key = Some c'"
    and step: "if connects_to lm key op \<and> r = Inr ()
      then dc_day c' = ?d \<and> dc_connections ?r < m \<and> dc_connections c' = dc_connections ?r + 1
      else c' = c \<or> (dc_day c' = ?d \<and> dc_connections c' = dc_connections ?r)"
    using apply_op_key [OF Cons.prems(1-4), of now op] ap by auto
  have sorted: "sorted (map (\<lambda>(now, _). epoch_day_utc now) h)" and later: "\<forall>(t, _) \<in> set h. ?d \<le> epoch_day_utc t"
    using Cons.prems(5) by (auto simp: e)
  note IH = Cons.IH [OF ok' c' _ Cons.prems(4) sorted] 
  have tail: "admitted key day lm' h \<le>
      (if dc_day c' = day \<and> (\<forall>(t, _) \<in> set h. day \<le> epoch_day_utc t)
       then unat m - unat (dc_connections c') else unat m)"
    using IH Cons.prems(3) lim' by simp
  consider "day < ?d" | "?d < day" | "?d = day" by fastforce
  then show ?case
  proof cases
    case 1
    then have "\<forall>(t, op) \<in> set (e # h). epoch_day_utc t \<noteq> day" using later by (auto simp: e)
    from admitted_other_day [OF this] show ?thesis by simp
  next
    case 2
    then have "\<not> day \<le> ?d" "?d \<noteq> day" by auto
    with tail ap show ?thesis by (simp add: e split: if_splits)
  next
    case 3
    with later have ge: "\<forall>(t, _) \<in> set h. day \<le> epoch_day_utc t" by auto
    show ?thesis
    proof (cases "connects_to lm key op \<and> r = Inr ()")
      case True
      with step have s: "dc_day c' = day" "dc_connections ?r < m" "dc_connections c' = dc_connections ?r + 1"
        using 3 by simp_all
      have "unat (dc_connections c') = Suc (unat (dc_connections ?r))"
        using s(2,3) by (simp add: unat_suc_less)
      moreover have "unat (dc_connections ?r) < unat m" using s(2) by (simp add: word_less_nat_alt)
      ultimately show ?thesis
        using True s(1) tail ge 3 ap by (simp add: e refresh_connections split: if_splits)
    next
      case False
      with step have "c' = c \<or> (dc_day c' = day \<and> dc_connections c' = dc_connections ?r)"
        using 3 by auto
      with False tail ge 3 ap show ?thesis
        by (auto simp: e refresh_connections split: if_splits)
    qed
  qed
qed simp

section \<open>Persistence\<close>

lemma file_stem_neq: "file_stem name @ ''.json.tmp'' \<noteq> name"
proof (cases "rsplit_once CHR ''.'' name")
  case (Some se)
  obtain stem ext where se: "se = (stem, ext)" by (cases se)
  with Some have "name = stem @ CHR ''.'' # ext" "CHR ''.'' \<notin> set ext"
    by (auto dest: rsplit_once_SomeD)
  with Some se show ?thesis by (auto simp: file_stem_def)
qed (simp add: file_stem_def del: rsplit_once_None)

lemma tmp_path_neq: "tmp_path path \<noteq> path"
proof (cases "rsplit_once CHR ''/'' path")
  case (Some dn)
  obtain dir name where dn: "dn = (dir, name)" by (cases dn)
  with Some have "path = dir @ CHR ''/'' # name" by (auto dest: rsplit_once_SomeD)
  with Some dn file_stem_neq [of name] show ?thesis by (simp add: tmp_path_def)
qed (simp add: tmp_path_def file_stem_neq del: rsplit_once_None)

definition saved :: "domain_counters \<Rightarrow> persisted_domain" where
  "saved c = \<lparr>pd_day = dc_day c, pd_bytes = dc_bytes c, pd_connections = dc_connections c\<rparr>"

lemma map_fst_map_values: "map fst (map (\<lambda>(k, v). (k, f v)) m) = map fst m"
  by (induction m) auto

lemma fst_set_map_values: "fst ` set (map (\<lambda>(k, v). (k, f v)) m) = fst ` set m"
  by (induction m) auto

lemma hm_get_map_values_gen: "hm_get (map (\<lambda>(k, v). (k, f v)) m) k = map_option f (hm_get m k)"
  by (induction m) (auto simp: hm_get_def)

lemma build_snapshot_domains:
  assumes "limiter_ok lm"
  shows "ps_domains (snd (build_snapshot now lm)) =
      map (\<lambda>(k, c). (k, saved (refresh_if_new_day now c))) (lm_counters lm)"
    and "limiter_ok (fst (build_snapshot now lm))"
    and "lm_limits (fst (build_snapshot now lm)) = lm_limits lm"
    and "hm_get (lm_counters (fst (build_snapshot now lm))) k =
      map_option (refresh_if_new_day now) (hm_get (lm_counters lm) k)"
proof -
  let ?ds = "map (\<lambda>(k, c). (k, saved (refresh_if_new_day now c))) (lm_counters lm)"
  have "map (\<lambda>(key, c). (key, \<lparr>pd_day = dc_day c, pd_bytes = dc_bytes c, pd_connections = dc_connections c\<rparr>))
      (map (\<lambda>(key, c). (key, refresh_if_new_day now c)) (lm_counters lm)) = ?ds"
    by (induction "lm_counters lm" arbitrary: lm) (auto simp: saved_def)
  moreover have "distinct (map fst ?ds)"
    unfolding map_fst_map_values using assms by (simp add: limiter_ok_def hm_wf_def)
  ultimately show "ps_domains (snd (build_snapshot now lm)) = ?ds"
    using foldl_insert_distinct [of "[]" ?ds]
    by (simp add: build_snapshot_def Let_def hm_collect_def del: map_map map_eq_conv)
  show "limiter_ok (fst (build_snapshot now lm))"
    using assms fst_set_map_values [of "refresh_if_new_day now" "lm_counters lm"]
      map_fst_map_values [of "refresh_if_new_day now" "lm_counters lm"]
    by (simp add: build_snapshot_def Let_def limiter_ok_def hm_wf_def del: map_map list.set_map map_eq_conv)
  show "lm_limits (fst (build_snapshot now lm)) = lm_limits lm"
    by (simp add: build_snapshot_def Let_def)
  show "hm_get (lm_counters (fst (build_snapshot now lm))) k =
      map_option (refresh_if_new_day now) (hm_get (lm_counters lm) k)"
    by (simp add: build_snapshot_def Let_def hm_get_map_values_gen)
qed

lemma restore_loop_get:
  assumes "hm_wf cs" and "distinct (map fst ds)" and "\<forall>(k, _) \<in> set ds. to_lowercase k = k"
  shows "hm_get (restore_loop today cs ds) key =
    (case hm_get cs key of
       None \<Rightarrow> None
     | Some c \<Rightarrow>
         (case map_of ds key of
            Some s \<Rightarrow> if pd_day s = today then Some (restore (pd_day s) (pd_bytes s) (pd_connections s) c) else Some c
          | None \<Rightarrow> Some c))"
  using assms
proof (induction ds arbitrary: cs)
  case (Cons d ds)
  obtain k s where d: "d = (k, s)" by (cases d)
  from Cons.prems have k: "to_lowercase k = k" "k \<notin> fst ` set ds" "distinct (map fst ds)"
    "\<forall>(k, _) \<in> set ds. to_lowercase k = k" by (auto simp: d)
  then have nd: "map_of ds k = None" by (simp add: map_of_eq_None_iff)
  show ?case
  proof (cases "hm_get cs k")
    case None
    with Cons.IH [OF Cons.prems(1)] k show ?thesis by (auto simp: d split: option.split)
  next
    case (Some c)
    let ?cs = "hm_insert k (restore (pd_day s) (pd_bytes s) (pd_connections s) c) cs"
    have "hm_wf ?cs" using Cons.prems(1) by (rule hm.inv_insert)
    from Cons.IH [OF this] Cons.IH [OF Cons.prems(1)] Some k nd Cons.prems(1) show ?thesis
      by (auto simp: d hm.get_insert split: option.split)
  qed
qed (simp split: option.split)

lemma restore_loop_keys: "fst ` set (restore_loop today cs ds) = fst ` set cs"
proof (induction today cs ds rule: restore_loop.induct)
  case (2 today cs domain saved ds)
  have "insert k (fst ` set cs) = fst ` set cs" if "hm_get cs k = Some c" for k c
    using hm_get_SomeD [OF that] by force
  with 2 show ?case by (auto simp: Let_def fst_set_hm_insert split: option.split)
qed simp

lemma hm_get_None_keys: "hm_get m k = None \<longleftrightarrow> k \<notin> fst ` set m"
  by (simp add: hm_get_def map_of_eq_None_iff)

text \<open>What the limiter relies on of the JSON crate: a state comes back with the same version and
  the same entries, in any order.\<close>

definition json_returns :: "json_crate \<Rightarrow> persisted_state \<Rightarrow> bool" where
  "json_returns js st \<longleftrightarrow>
     (\<exists>st'. from_json js (to_json js st) = Some st' \<and> ps_version st' = ps_version st
            \<and> mset (ps_domains st') = mset (ps_domains st))"

definition no_faults :: io_faults where
  "no_faults = \<lparr>mkdir_fails = False, write_leaves = None, rename_fails = False, read_fails = False\<rparr>"

lemma persist_now_ok:
  assumes "lm_state_file lm = Some path" and "persist_now js no_faults now fs lm = (fs', lm', r)"
  shows "r = Inr () \<and> fs' path = Some (to_json js (snd (build_snapshot now lm))) \<and> \<not> lm_dirty lm'
    \<and> lm_counters lm' = lm_counters (fst (build_snapshot now lm))"
  using assms tmp_path_neq [of path]
  by (auto simp: persist_now_def no_faults_def Let_def split: prod.splits)

lemma map_of_mset:
  "distinct (map fst xs) \<Longrightarrow> mset xs = mset ys \<Longrightarrow> map_of ys = map_of xs"
  using hm_get_perm [of xs ys] by (auto simp: hm_get_def hm_wf_def fun_eq_iff)

lemma saved_day [simp]: "pd_day (saved c) = dc_day c"
  by (simp add: saved_def)

lemma restore_saved: "restore (dc_day c) (pd_bytes (saved c)) (pd_connections (saved c)) b = c"
  by (cases c) (simp add: saved_def restore_def)

lemma restore_snapshot:
  assumes "limiter_ok lm" and "hm_wf cs" and "epoch_day_utc now' = epoch_day_utc now"
    and "mset ds = mset (ps_domains (snd (build_snapshot now lm)))"
    and "hm_get cs key = Some b"
  shows "hm_get (restore_loop (epoch_day_utc now') cs ds) key =
    (case hm_get (lm_counters lm) key of Some c \<Rightarrow> Some (refresh_if_new_day now c) | None \<Rightarrow> Some b)"
proof -
  note dom = build_snapshot_domains(1) [OF assms(1), of now]
  have "distinct (map fst (ps_domains (snd (build_snapshot now lm))))"
    unfolding dom map_fst_map_values using assms(1) by (simp add: limiter_ok_def hm_wf_def)
  with assms(4) have ds: "map_of ds = map_of (ps_domains (snd (build_snapshot now lm)))" "distinct (map fst ds)"
    using map_of_mset [of "ps_domains (snd (build_snapshot now lm))" ds]
      mset_eq_imp_distinct_iff [of "map fst ds" "map fst (ps_domains (snd (build_snapshot now lm)))"]
    by simp_all
  have "fst ` set ds = fst ` set (lm_counters lm)"
    unfolding mset_eq_setD [OF assms(4)] dom by (rule fst_set_map_values)
  then have "\<forall>(k, _) \<in> set ds. to_lowercase k = k"
    using assms(1) unfolding limiter_ok_def by (metis (mono_tags, lifting) case_prodI2 fst_conv image_eqI)
  note get = restore_loop_get [OF assms(2) ds(2) this, of "epoch_day_utc now'" key]
  have "map_of ds key = map_option (\<lambda>c. saved (refresh_if_new_day now c)) (hm_get (lm_counters lm) key)"
    using hm_get_map_values_gen [of "\<lambda>c. saved (refresh_if_new_day now c)" "lm_counters lm" key]
    by (simp add: ds(1) dom hm_get_def)
  then show ?thesis
    unfolding get using assms(3,5) restore_saved [of "refresh_if_new_day now c" b for c]
    by (simp add: refresh_day split: option.split)
qed

lemma limiter_load_base:
  fixes limits :: "(string, domain_limit_config) hash_map"
  defines "ls \<equiv> hm_collect (map (\<lambda>(k, v). (to_lowercase k, v)) limits)"
  shows "limiter_ok \<lparr>lm_limits = ls, lm_counters = hm_collect (map (\<lambda>(k, _). (k, new_counters now)) ls),
           lm_state_file = f, lm_dirty = b\<rparr>"
proof -
  have "fst ` set ls = fst ` (\<lambda>(k, v). (to_lowercase k, v)) ` set limits"
    unfolding ls_def fst_set_hm_collect by simp
  then have "\<forall>k \<in> fst ` set ls. to_lowercase k = k" by auto
  moreover have "hm_wf ls" unfolding ls_def by (rule hm_wf_collect)
  ultimately show ?thesis
    by (auto simp: limiter_ok_def hm_wf_collect fst_set_hm_collect image_image split_beta)
qed

section \<open>Properties of the calls\<close>

text \<open>the limit that applies to a name is the longest configured key that is the name or a
  parent domain of it, compared case-insensitively; there is one exactly when some key matches, and
  the iteration order of the hash map does not matter.\<close>

theorem limit_key_longest_match:
  "resolve_limit_key lm sni = Some k \<longleftrightarrow>
     hm_contains (lm_limits lm) k \<and> key_matches (to_lowercase sni) k
     \<and> (\<forall>k'. hm_contains (lm_limits lm) k' \<and> key_matches (to_lowercase sni) k' \<longrightarrow> length k' \<le> length k)"
  unfolding resolve_limit_key_iff best_of_def hm_contains_iff by blast

theorem limit_key_longest_match_witness:
  "resolve_limit_key \<lparr>lm_limits = [(''b.org'', \<lparr>daily_bandwidth = None, daily_connections = Some 1\<rparr>),
      (''a.b.org'', \<lparr>daily_bandwidth = None, daily_connections = None\<rparr>)],
      lm_counters = [], lm_state_file = None, lm_dirty = False\<rparr> ''x.A.b.ORG'' = Some ''a.b.org''"
  unfolding limit_key_longest_match
proof (intro conjI allI impI)
  let ?lm = "\<lparr>lm_limits = [(''b.org'', \<lparr>daily_bandwidth = None, daily_connections = Some 1\<rparr>),
      (''a.b.org'', \<lparr>daily_bandwidth = None, daily_connections = None\<rparr>)],
      lm_counters = [], lm_state_file = None, lm_dirty = False\<rparr> :: domain_limiter"
  show "hm_contains (lm_limits ?lm) ''a.b.org''" by code_simp
  show "key_matches (to_lowercase ''x.A.b.ORG'') ''a.b.org''" by code_simp
  fix k'
  assume "hm_contains (lm_limits ?lm) k' \<and> key_matches (to_lowercase ''x.A.b.ORG'') k'"
  then show "length k' \<le> length ''a.b.org''" by (auto simp: hm_contains_iff)
qed

text \<open>the daily connection quota. In every history of calls in which the day does not run
  backwards, the number of connections admitted under a key on any one day is at most the key's
  limit, across day changes and mixed with transfers and with calls for other names.\<close>

theorem connection_quota_history:
  assumes "limiter_ok lm" and "hm_get (lm_limits lm) key = Some limit" and "daily_connections limit = Some m"
    and "sorted (map (\<lambda>(now, _). epoch_day_utc now) h)"
  shows "admitted key day lm h \<le> unat m"
proof -
  have "key \<in> fst ` set (lm_counters lm)"
    using assms(1,2) by (auto simp: limiter_ok_def dest!: hm_get_SomeD intro: rev_image_eqI)
  then obtain c where "hm_get (lm_counters lm) key = Some c"
    using hm_contains_iff [of "lm_counters lm" key] by (auto simp: hm_contains_def)
  from admitted_bound [OF assms(1) this assms(2-4), of day] show ?thesis by (simp split: if_splits)
qed

definition quota_limiter :: domain_limiter where
  "quota_limiter = \<lparr>lm_limits = [(''a.org'', \<lparr>daily_bandwidth = None, daily_connections = Some 1\<rparr>)],
     lm_counters = [(''a.org'', new_counters 0)], lm_state_file = None, lm_dirty = False\<rparr>"

theorem connection_quota_history_witness:
  "admitted ''a.org'' 0 quota_limiter [(0, Connect ''a.org''), (5, Connect ''x.a.org''), (86400, Connect ''a.org'')] \<le> 1"
proof -
  have ok: "limiter_ok quota_limiter" by code_simp
  have l: "hm_get (lm_limits quota_limiter) ''a.org'' = Some \<lparr>daily_bandwidth = None, daily_connections = Some 1\<rparr>"
    by code_simp
  have "sorted (map (\<lambda>(now, _). epoch_day_utc now)
      [(0, Connect ''a.org''), (5, Connect ''x.a.org''), (86400, Connect ''a.org'')])" by code_simp
  from connection_quota_history [OF ok l _ this, of 1 0] show ?thesis by simp
qed

text \<open>bandwidth. Once a transfer has reported the limit exceeded, every later connection under
  the same key on that day is refused, and so is a connection once the counted bytes have reached
  the limit; a transfer is reported exactly when the total it produces is above the limit.\<close>

theorem bandwidth_limit_refuses:
  assumes "limiter_ok lm" and "counters_for lm d = Some (key, limit, c)" and "daily_bandwidth limit = Some m"
    and "n \<noteq> 0" and "account_bytes now lm d n = (lm', r)"
    and "resolve_limit_key lm d' = Some key" and "epoch_day_utc now' = epoch_day_utc now"
  shows "(r = Inl DailyBandwidth \<longleftrightarrow> m < dc_bytes (refresh_if_new_day now c) + n)
    \<and> (m \<le> dc_bytes (refresh_if_new_day now c) + n \<longrightarrow> snd (check_connection now' lm' d') = Inl DailyBandwidth)"
proof -
  let ?c = "refresh_if_new_day now c"
  let ?c' = "?c\<lparr>dc_bytes := dc_bytes ?c + n\<rparr>"
  have lm': "lm' = mark_dirty (set_counters key ?c' lm)" and r: "r = (if m < dc_bytes ?c + n then Inl DailyBandwidth else Inr ())"
    using assms by (auto simp: account_bytes_def Let_def split: if_splits)
  have "hm_get (lm_limits lm) key = Some limit" using assms(2) by (simp add: counters_for_Some)
  moreover have "resolve_limit_key lm' d' = resolve_limit_key lm d'"
    by (rule resolve_limit_key_frame) (simp add: lm')
  ultimately have cf: "counters_for lm' d' = Some (key, limit, ?c')"
    using assms(1,6) by (simp add: counters_for_Some lm')
  have "refresh_if_new_day now' ?c' = ?c'"
    using assms(7) refresh_day [of now c] by (simp add: refresh_if_new_day_def Let_def)
  with cf assms(3) r show ?thesis by (simp add: check_connection_def)
qed

definition bytes_limiter :: domain_limiter where
  "bytes_limiter = \<lparr>lm_limits = [(''a.org'', \<lparr>daily_bandwidth = Some 1000, daily_connections = None\<rparr>)],
     lm_counters = [(''a.org'', \<lparr>dc_bytes = 900, dc_connections = 0, dc_day = 0\<rparr>)],
     lm_state_file = None, lm_dirty = False\<rparr>"

theorem bandwidth_limit_refuses_witness:
  "snd (check_connection 60 (fst (account_bytes 0 bytes_limiter ''a.org'' 200)) ''x.a.org'') = Inl DailyBandwidth"
proof -
  have ok: "limiter_ok bytes_limiter" by code_simp
  have cf: "counters_for bytes_limiter ''a.org'' =
      Some (''a.org'', \<lparr>daily_bandwidth = Some 1000, daily_connections = None\<rparr>,
            \<lparr>dc_bytes = 900, dc_connections = 0, dc_day = 0\<rparr>)" by code_simp
  have k: "resolve_limit_key bytes_limiter ''x.a.org'' = Some ''a.org''" by code_simp
  have d: "epoch_day_utc 60 = epoch_day_utc 0" by code_simp
  have "(1000 :: u64) \<le> dc_bytes (refresh_if_new_day 0 \<lparr>dc_bytes = 900, dc_connections = 0, dc_day = 0\<rparr>) + 200"
    by code_simp
  with bandwidth_limit_refuses [OF ok cf _ _ prod.collapse [symmetric] k d, of 1000 200] show ?thesis by simp
qed

text \<open>C31: usage survives a restart. When the counters are written and a limiter with the same keys
  is loaded from that file on the same day, every key has the same day, bytes and connections as
  before; the JSON crate is only assumed to
  return the state that was written, its entries in any order.\<close>

theorem limiter_restart_same_day:
  assumes "json_returns js (snd (build_snapshot now lm))" and "limiter_ok lm" and "lm_state_file lm = Some path"
    and "persist_now js no_faults now fs lm = (fs', lm', r)"
    and "epoch_day_utc now' = epoch_day_utc now"
    and "limiter_load js no_faults now' fs' limits (Some path) = Inr lm2"
    and "fst ` set (lm_limits lm2) = fst ` set (lm_limits lm)"
  shows "hm_get (lm_counters lm2) key = map_option (refresh_if_new_day now) (hm_get (lm_counters lm) key)"
proof -
  define ls where "ls = hm_collect (map (\<lambda>(k, v). (to_lowercase k, v)) limits)"
  define base where "base = \<lparr>lm_limits = ls, lm_counters = hm_collect (map (\<lambda>(k, _). (k, new_counters now')) ls),
     lm_state_file = Some path, lm_dirty = False\<rparr>"
  let ?st = "snd (build_snapshot now lm)"
  have ok: "limiter_ok base" unfolding base_def ls_def by (rule limiter_load_base)
  obtain st' where st': "from_json js (to_json js ?st) = Some st'" "ps_version st' = ps_version ?st"
      "mset (ps_domains st') = mset (ps_domains ?st)"
    using assms(1) by (auto simp: json_returns_def)
  have fs': "fs' path = Some (to_json js ?st)" using persist_now_ok [OF assms(3,4)] by simp
  have "ps_version ?st = STATE_VERSION" by (simp add: build_snapshot_def Let_def)
  with fs' st' assms(6) have lm2: "lm2 = base\<lparr>lm_counters := restore_loop (epoch_day_utc now') (lm_counters base) (ps_domains st')\<rparr>"
    by (simp add: limiter_load_def Let_def load_from_disk_def no_faults_def base_def ls_def)
  have keys: "fst ` set (lm_counters base) = fst ` set (lm_counters lm)"
    using ok assms(2,7) by (simp add: limiter_ok_def lm2)
  show ?thesis
  proof (cases "hm_get (lm_counters base) key")
    case None
    then have "hm_get (lm_counters lm) key = None" using keys by (simp add: hm_get_None_keys)
    moreover have "hm_get (restore_loop d (lm_counters base) ds) key = None" for d ds
      using None by (simp add: hm_get_None_keys restore_loop_keys)
    ultimately show ?thesis using None by (simp add: lm2)
  next
    case (Some b)
    then have "hm_get (lm_counters lm) key \<noteq> None"
      using keys hm_get_None_keys [of _ key] by (metis option.distinct(1))
    moreover have "hm_wf (lm_counters base)" using ok by (simp add: limiter_ok_def)
    ultimately show ?thesis
      using restore_snapshot [OF assms(2) _ assms(5) st'(3) Some] by (auto simp: lm2)
  qed
qed

definition saved_limiter :: domain_limiter where
  "saved_limiter = bytes_limiter\<lparr>lm_state_file := Some ''/d/l.json''\<rparr>"

definition one_json :: json_crate where
  "one_json = \<lparr>to_json = (\<lambda>st. ''state''),
     from_json = (\<lambda>s. if s = ''state'' then Some (snd (build_snapshot 0 saved_limiter)) else None)\<rparr>"

theorem limiter_restart_same_day_witness:
  "\<exists>lm2. limiter_load one_json no_faults 60 (fst (persist_now one_json no_faults 0 (\<lambda>_. None) saved_limiter))
      (lm_limits saved_limiter) (Some ''/d/l.json'') = Inr lm2
    \<and> hm_get (lm_counters lm2) ''a.org'' = Some \<lparr>dc_bytes = 900, dc_connections = 0, dc_day = 0\<rparr>"
proof -
  let ?p = "persist_now one_json no_faults 0 (\<lambda>_. None) saved_limiter"
  let ?l = "limiter_load one_json no_faults 60 (fst ?p) (lm_limits saved_limiter) (Some ''/d/l.json'')"
  have js: "json_returns one_json (snd (build_snapshot 0 saved_limiter))"
    by (simp add: json_returns_def one_json_def)
  have ok: "limiter_ok saved_limiter" and f: "lm_state_file saved_limiter = Some ''/d/l.json''" by code_simp+
  have p: "?p = (fst ?p, fst (snd ?p), snd (snd ?p))" by simp
  have "case ?l of Inr lm2 \<Rightarrow> fst ` set (lm_limits lm2) = fst ` set (lm_limits saved_limiter) | Inl _ \<Rightarrow> False"
    by code_simp
  then obtain lm2 where l: "?l = Inr lm2" and k: "fst ` set (lm_limits lm2) = fst ` set (lm_limits saved_limiter)"
    by (auto split: sum.splits)
  have d: "epoch_day_utc 60 = epoch_day_utc 0" by code_simp
  have "map_option (refresh_if_new_day 0) (hm_get (lm_counters saved_limiter) ''a.org'') =
      Some \<lparr>dc_bytes = 900, dc_connections = 0, dc_day = 0\<rparr>" by code_simp
  with limiter_restart_same_day [OF js ok f p d l k, of "''a.org''"] l show ?thesis by simp
qed

text \<open>C32: the state file is replaced as a whole. Whatever fails while the counters are written
  (the directory, the temporary file, which may be left with any contents, or the rename), the
  state file holds either what it held before or the complete new state; it is the new state exactly
  when success is reported, and only then is the dirty mark cleared.\<close>

theorem persist_atomic:
  assumes "lm_state_file lm = Some path" and "persist_now js io now fs lm = (fs', lm', r)"
  shows "(case r of
      Inr _ \<Rightarrow> fs' path = Some (to_json js (snd (build_snapshot now lm))) \<and> \<not> lm_dirty lm'
    | Inl _ \<Rightarrow> fs' path = fs path \<and> lm_dirty lm' = lm_dirty lm)
    \<and> (\<forall>p. p \<noteq> path \<and> p \<noteq> tmp_path path \<longrightarrow> fs' p = fs p)"
  using assms tmp_path_neq [of path]
  by (auto simp: persist_now_def Let_def build_snapshot_def split: if_splits option.splits)

theorem persist_atomic_witness:
  "fst (persist_now one_json (no_faults\<lparr>write_leaves := Some (Some ''{'')\<rparr>) 0 ((\<lambda>_. None)(''/d/l.json'' := Some ''old'')) saved_limiter)
     ''/d/l.json'' = Some ''old''"
proof -
  let ?io = "no_faults\<lparr>write_leaves := Some (Some ''{'')\<rparr>"
  let ?fs = "((\<lambda>_. None)(''/d/l.json'' := Some ''old''))"
  let ?p = "persist_now one_json ?io 0 ?fs saved_limiter"
  have f: "lm_state_file saved_limiter = Some ''/d/l.json''" by code_simp
  have r: "snd (snd ?p) = Inl WriteFailed"
    using f by (simp add: persist_now_def no_faults_def Let_def split: prod.split)
  have p: "?p = (fst ?p, fst (snd ?p), snd (snd ?p))" by simp
  show ?thesis using persist_atomic [OF f p] unfolding r by simp
qed

end
