(* ===== verification/Relay_Limiter_Steps.thy ===== *)
theory Relay_Limiter_Steps
  imports Relay_Limiter
begin

text \<open>
  Concurrent calls of \<open>check_connection\<close> and \<open>account_bytes\<close> for one limited domain, as the
  atomic loads, stores and compare-and-exchange operations of \<open>src/domain_limiter.rs\<close>, one thread
  per call, in any interleaving with each other and with the clock. The invariant gives the connection
  quota for every interleaving within a day, and a bound of twice the quota for the calls around the
  change of day; two concrete traces show how admissions are lost, by the reset that is not atomic with
  the change of day and by a call that read the clock before midnight.
\<close>

section \<open>Threads and atomic steps\<close>

datatype job = Check | Account u64

text \<open>
  \<open>Dated\<close>: the clock was read; \<open>Loaded\<close>: so was the stored day; \<open>ResetBytes\<close>, \<open>ResetConns\<close>: the exchange of
  the day succeeded and the two stores are pending; \<open>Cas\<close>: the loop holds a value of the counter.
\<close>

datatype pc =
    Start job
  | Dated job u32
  | Loaded job u32 u32
  | ResetBytes job
  | ResetConns job
  | Ready job
  | LoadConns
  | Cas u64
  | Done job "limit_reason option"

record lsys =
  ls_clock :: u32
  ls_day :: u32
  ls_bytes :: u64
  ls_conns :: u64
  ls_pcs :: "pc list"

definition goto :: "nat \<Rightarrow> pc \<Rightarrow> lsys \<Rightarrow> lsys" where
  "goto i p s = s\<lparr>ls_pcs := (ls_pcs s)[i := p]\<rparr>"

definition at_pc :: "lsys \<Rightarrow> nat \<Rightarrow> pc \<Rightarrow> bool" where
  "at_pc s i p \<longleftrightarrow> i < length (ls_pcs s) \<and> ls_pcs s ! i = p"

definition bandwidth_reached :: "domain_limit_config \<Rightarrow> lsys \<Rightarrow> bool" where
  "bandwidth_reached limit s =
     (case daily_bandwidth limit of Some m \<Rightarrow> m \<le> ls_bytes s | None \<Rightarrow> False)"

inductive lstep :: "domain_limit_config \<Rightarrow> lsys \<Rightarrow> lsys \<Rightarrow> bool"
  for limit where
  tick: "ls_clock s < day \<Longrightarrow> lstep limit s (s\<lparr>ls_clock := day\<rparr>)"
| start_check: "at_pc s i (Start Check) \<Longrightarrow> lstep limit s (goto i (Dated Check (ls_clock s)) s)"
| start_account: "at_pc s i (Start (Account n)) \<Longrightarrow> n \<noteq> 0 \<Longrightarrow> daily_bandwidth limit \<noteq> None \<Longrightarrow>
    lstep limit s (goto i (Dated (Account n) (ls_clock s)) s)"
| skip_account: "at_pc s i (Start (Account n)) \<Longrightarrow> n = 0 \<or> daily_bandwidth limit = None \<Longrightarrow>
    lstep limit s (goto i (Done (Account n) None) s)"
| load_day: "at_pc s i (Dated j today) \<Longrightarrow> lstep limit s (goto i (Loaded j today (ls_day s)) s)"
| same_day: "at_pc s i (Loaded j today today) \<Longrightarrow> lstep limit s (goto i (Ready j) s)"
| day_cas_ok: "at_pc s i (Loaded j today d) \<Longrightarrow> d \<noteq> today \<Longrightarrow> ls_day s = d \<Longrightarrow>
    lstep limit s (goto i (ResetBytes j) (s\<lparr>ls_day := today\<rparr>))"
| day_cas_fail: "at_pc s i (Loaded j today d) \<Longrightarrow> d \<noteq> today \<Longrightarrow> ls_day s \<noteq> d \<Longrightarrow>
    lstep limit s (goto i (Ready j) s)"
| reset_bytes: "at_pc s i (ResetBytes j) \<Longrightarrow> lstep limit s (goto i (ResetConns j) (s\<lparr>ls_bytes := 0\<rparr>))"
| reset_conns: "at_pc s i (ResetConns j) \<Longrightarrow> lstep limit s (goto i (Ready j) (s\<lparr>ls_conns := 0\<rparr>))"
| refuse_bytes: "at_pc s i (Ready Check) \<Longrightarrow> bandwidth_reached limit s \<Longrightarrow>
    lstep limit s (goto i (Done Check (Some DailyBandwidth)) s)"
| admit_unlimited: "at_pc s i (Ready Check) \<Longrightarrow> \<not> bandwidth_reached limit s \<Longrightarrow> daily_connections limit = None \<Longrightarrow>
    lstep limit s (goto i (Done Check None) s)"
| count_needed: "at_pc s i (Ready Check) \<Longrightarrow> \<not> bandwidth_reached limit s \<Longrightarrow> daily_connections limit \<noteq> None \<Longrightarrow>
    lstep limit s (goto i LoadConns s)"
| load_conns: "at_pc s i LoadConns \<Longrightarrow> lstep limit s (goto i (Cas (ls_conns s)) s)"
| refuse_conns: "at_pc s i (Cas current) \<Longrightarrow> daily_connections limit = Some m \<Longrightarrow> m \<le> current \<Longrightarrow>
    lstep limit s (goto i (Done Check (Some DailyConnections)) s)"
| conns_cas_ok: "at_pc s i (Cas current) \<Longrightarrow> daily_connections limit = Some m \<Longrightarrow> current < m \<Longrightarrow> ls_conns s = current \<Longrightarrow>
    lstep limit s (goto i (Done Check None) (s\<lparr>ls_conns := current + 1\<rparr>))"
| conns_cas_fail: "at_pc s i (Cas current) \<Longrightarrow> daily_connections limit = Some m \<Longrightarrow> current < m \<Longrightarrow>
    lstep limit s (goto i (Cas (ls_conns s)) s)"
| fetch_add: "at_pc s i (Ready (Account n)) \<Longrightarrow> daily_bandwidth limit = Some m \<Longrightarrow>
    lstep limit s (goto i (Done (Account n) (if m < ls_bytes s + n then Some DailyBandwidth else None))
      (s\<lparr>ls_bytes := ls_bytes s + n\<rparr>))"

inductive_cases lstepE: "lstep limit s s'"

section \<open>The quota on one day\<close>

definition admissions :: "lsys \<Rightarrow> nat" where
  "admissions s = length (filter (\<lambda>p. p = Done Check None) (ls_pcs s))"

text \<open>A thread that has exchanged the day and not yet cleared the count of connections.\<close>

fun resetting :: "pc \<Rightarrow> bool" where
  "resetting (ResetBytes _) = True"
| "resetting (ResetConns _) = True"
| "resetting _ = False"

definition resets :: "lsys \<Rightarrow> nat" where
  "resets s = length (filter resetting (ls_pcs s))"

text \<open>While the clock shows \<open>today\<close>, threads know only that day and the day stored at the start.\<close>

fun knows :: "u32 \<Rightarrow> u32 \<Rightarrow> pc \<Rightarrow> bool" where
  "knows today day0 (Dated _ t) = (t = today)"
| "knows today day0 (Loaded _ t d) = (t = today \<and> d \<in> {day0, today})"
| "knows today day0 _ = True"

definition quota_inv :: "u32 \<Rightarrow> u32 \<Rightarrow> u64 \<Rightarrow> nat \<Rightarrow> lsys \<Rightarrow> bool" where
  "quota_inv today day0 m c0 s \<longleftrightarrow>
     list_all (knows today day0) (ls_pcs s) \<and> ls_conns s \<le> m
     \<and> (if day0 = today then ls_day s = today \<and> resets s = 0 \<and> c0 + admissions s = unat (ls_conns s)
        else ls_day s = day0 \<and> resets s = 0 \<and> c0 + admissions s = unat (ls_conns s)
           \<or> ls_day s = today \<and> resets s = Suc 0 \<and> c0 + admissions s = unat (ls_conns s)
           \<or> ls_day s = today \<and> resets s = 0 \<and> c0 + admissions s \<le> unat m + unat (ls_conns s))"

lemma counts_goto:
  assumes "at_pc s i p"
  shows "admissions (goto i q s) + of_bool (p = Done Check None) = admissions s + of_bool (q = Done Check None)"
    and "resets (goto i q s) + of_bool (resetting p) = resets s + of_bool (resetting q)"
  using assms length_filter_update [of i "ls_pcs s" "\<lambda>p. p = Done Check None" q] length_filter_update [of i "ls_pcs s" resetting q]
  by (simp_all add: admissions_def resets_def goto_def at_pc_def)

lemma list_all_goto: "list_all P (ls_pcs s) \<Longrightarrow> P q \<Longrightarrow> list_all P (ls_pcs (goto i q s))"
  by (auto simp: goto_def list_all_iff dest!: set_update_subset_insert [THEN subsetD])

lemma at_pc_all: "list_all P (ls_pcs s) \<Longrightarrow> at_pc s i p \<Longrightarrow> P p"
  by (auto simp: at_pc_def list_all_length)

lemma goto_frame [simp]:
  "ls_day (goto i p s) = ls_day s" "ls_bytes (goto i p s) = ls_bytes s" "ls_conns (goto i p s) = ls_conns s"
  "ls_clock (goto i p s) = ls_clock s"
  by (simp_all add: goto_def)

lemma pcs_frame [simp]:
  "at_pc (s\<lparr>ls_day := d\<rparr>) i p = at_pc s i p" "at_pc (s\<lparr>ls_bytes := b\<rparr>) i p = at_pc s i p"
  "at_pc (s\<lparr>ls_conns := c\<rparr>) i p = at_pc s i p" "admissions (s\<lparr>ls_day := d\<rparr>) = admissions s"
  "admissions (s\<lparr>ls_bytes := b\<rparr>) = admissions s" "admissions (s\<lparr>ls_conns := c\<rparr>) = admissions s"
  "resets (s\<lparr>ls_day := d\<rparr>) = resets s" "resets (s\<lparr>ls_bytes := b\<rparr>) = resets s" "resets (s\<lparr>ls_conns := c\<rparr>) = resets s"
  by (simp_all add: at_pc_def admissions_def resets_def)

text \<open>A step that only moves one thread, which is not admitted and neither begins nor ends a reset.\<close>

lemma quota_goto:
  assumes "quota_inv today day0 m c0 s" and "at_pc s i p" and "p \<noteq> Done Check None" and "q \<noteq> Done Check None"
    and "resetting q = resetting p" and "knows today day0 q"
  shows "quota_inv today day0 m c0 (goto i q s)"
proof -
  have "admissions (goto i q s) = admissions s" "resets (goto i q s) = resets s"
    using counts_goto [OF assms(2), of q] assms(3-5) by simp_all
  with assms(1,6) list_all_goto [of "knows today day0" s q i] show ?thesis by (simp add: quota_inv_def)
qed

lemma quota_step:
  assumes "lstep limit s s'" and "daily_connections limit = Some m" and "quota_inv today day0 m c0 s"
    and "ls_clock s = today" and "ls_clock s' = today"
  shows "quota_inv today day0 m c0 s'"
proof -
  have all: "list_all (knows today day0) (ls_pcs s)" using assms(3) by (simp add: quota_inv_def)
  have known: "knows today day0 p" if "at_pc s i p" for i p
    using all that by (rule at_pc_all)
  have days: "ls_day s \<in> {day0, today}" using assms(3) by (auto simp: quota_inv_def split: if_splits)
  note keep = quota_goto [OF assms(3)]
  from assms(1) show ?thesis
  proof (cases rule: lstep.cases)
    case (day_cas_ok i j t d)
    then have t: "t = today" "d = day0" "day0 \<noteq> today" using known [OF day_cas_ok(2)] by auto
    let ?s = "s\<lparr>ls_day := today\<rparr>"
    have "resets (goto i (ResetBytes j) ?s) = Suc (resets s)" "admissions (goto i (ResetBytes j) ?s) = admissions s"
      using counts_goto [of ?s i "Loaded j t d" "ResetBytes j"] day_cas_ok by simp_all
    moreover have "list_all (knows today day0) (ls_pcs (goto i (ResetBytes j) ?s))"
      using all list_all_goto [of "knows today day0" ?s] by simp
    ultimately show ?thesis using assms(3) day_cas_ok t by (auto simp: quota_inv_def)
  next
    case (reset_conns i j)
    let ?s = "s\<lparr>ls_conns := 0\<rparr>"
    have "Suc (resets (goto i (Ready j) ?s)) = resets s" "admissions (goto i (Ready j) ?s) = admissions s"
      using counts_goto [of ?s i "ResetConns j" "Ready j"] reset_conns by simp_all
    moreover have "list_all (knows today day0) (ls_pcs (goto i (Ready j) ?s))"
      using all list_all_goto [of "knows today day0" ?s] by simp
    ultimately show ?thesis using assms(3) reset_conns by (auto simp: quota_inv_def word_le_nat_alt split: if_splits)
  next
    case (conns_cas_ok i current m')
    then have m: "m' = m" using assms(2) by simp
    let ?s = "s\<lparr>ls_conns := current + 1\<rparr>"
    have "unat (current + 1) = Suc (unat current)" using conns_cas_ok by (intro unat_suc_less)
    moreover have "current + 1 \<le> m" using conns_cas_ok m by (simp add: inc_le)
    moreover have "resets (goto i (Done Check None) ?s) = resets s"
      "admissions (goto i (Done Check None) ?s) = Suc (admissions s)"
      using counts_goto [of ?s i "Cas current" "Done Check None"] conns_cas_ok by simp_all
    moreover have "list_all (knows today day0) (ls_pcs (goto i (Done Check None) ?s))"
      using all list_all_goto [of "knows today day0" ?s] by simp
    ultimately show ?thesis using assms(3) conns_cas_ok by (auto simp: quota_inv_def split: if_splits)
  next
    case (reset_bytes i j)
    have "quota_inv today day0 m c0 (s\<lparr>ls_bytes := 0\<rparr>)" using assms(3) by (simp add: quota_inv_def)
    from quota_goto [OF this, of i "ResetBytes j"] reset_bytes show ?thesis by simp
  next
    case (fetch_add i n m')
    have "quota_inv today day0 m c0 (s\<lparr>ls_bytes := ls_bytes s + n\<rparr>)" using assms(3) by (simp add: quota_inv_def)
    from quota_goto [OF this, of i "Ready (Account n)"] fetch_add show ?thesis by simp
  next
    case (load_day i j t)
    then show ?thesis using keep [OF load_day(2)] known [OF load_day(2)] days by simp
  qed (use assms(2,4,5) keep in force)+
qed

lemma lstep_clock: "lstep limit s s' \<Longrightarrow> ls_clock s \<le> ls_clock s'"
  by (cases rule: lstep.cases) auto

lemma quota_reachable:
  assumes "(lstep limit)\<^sup>*\<^sup>* s s'" and "daily_connections limit = Some m" and "quota_inv today day0 m c0 s"
    and "ls_clock s = today" and "ls_clock s' = today"
  shows "quota_inv today day0 m c0 s'"
proof -
  have "today \<le> ls_clock s' \<and> (ls_clock s' = today \<longrightarrow> quota_inv today day0 m c0 s')"
    using assms(1)
  proof (induction rule: rtranclp_induct)
    case (step y z)
    have "ls_clock y \<le> ls_clock z" by (rule lstep_clock [OF step(2)])
    with step(3) have "today \<le> ls_clock z" "ls_clock z = today \<longrightarrow> ls_clock y = today" by auto
    then show ?case using step(3) quota_step [OF step(2) assms(2)] by blast
  qed (use assms in simp)
  then show ?thesis using assms(5) by simp
qed

fun starting :: "pc \<Rightarrow> bool" where
  "starting (Start _) = True"
| "starting _ = False"

definition all_start :: "lsys \<Rightarrow> bool" where
  "all_start s = list_all starting (ls_pcs s)"

lemma starting_facts: "starting p \<Longrightarrow> knows today day0 p \<and> \<not> resetting p \<and> p \<noteq> Done Check None"
  by (cases p) simp_all

lemma quota_init:
  assumes "all_start s" and "ls_conns s \<le> m"
  shows "quota_inv (ls_clock s) (ls_day s) m (unat (ls_conns s)) s"
proof -
  have "list_all (knows (ls_clock s) (ls_day s)) (ls_pcs s)"
    using assms(1) starting_facts by (auto simp: all_start_def list_all_iff)
  moreover have "filter (\<lambda>p. p = Done Check None) (ls_pcs s) = []" "filter resetting (ls_pcs s) = []"
    using assms(1) starting_facts by (auto simp: all_start_def filter_empty_conv list_all_iff)
  ultimately show ?thesis using assms(2) by (simp add: quota_inv_def admissions_def resets_def)
qed

section \<open>Properties\<close>


definition one_conn :: domain_limit_config where
  "one_conn = \<lparr>daily_bandwidth = None, daily_connections = Some 1\<rparr>"

definition calls :: "u32 \<Rightarrow> u32 \<Rightarrow> u64 \<Rightarrow> nat \<Rightarrow> lsys" where
  "calls clock day used n = \<lparr>ls_clock = clock, ls_day = day, ls_bytes = 0, ls_conns = used, ls_pcs = replicate n (Start Check)\<rparr>"

text \<open>A call that has read the clock runs by itself, from the day check to the admission.\<close>

lemma run_admits:
  assumes "at_pc s i (Dated Check (ls_day s))" and "ls_conns s = 0"
  shows "(lstep one_conn)\<^sup>*\<^sup>* s (goto i (Done Check None) (s\<lparr>ls_conns := 1\<rparr>))"
proof -
  have i: "i < length (ls_pcs s)" using assms(1) by (simp add: at_pc_def)
  have g: "goto i q (goto i p t) = goto i q t" "at_pc (goto i p s) i p" for p q t
    using i by (simp_all add: goto_def at_pc_def)
  have 1: "lstep one_conn s (goto i (Loaded Check (ls_day s) (ls_day s)) s)"
    using load_day [OF assms(1), of one_conn] by simp
  have 2: "lstep one_conn (goto i (Loaded Check (ls_day s) (ls_day s)) s) (goto i (Ready Check) s)"
    using same_day [OF g(2)] by (simp add: g)
  have 3: "lstep one_conn (goto i (Ready Check) s) (goto i LoadConns s)"
    using count_needed [OF g(2), of one_conn] by (simp add: g bandwidth_reached_def one_conn_def)
  have 4: "lstep one_conn (goto i LoadConns s) (goto i (Cas 0) s)"
    using load_conns [OF g(2)] assms(2) by (simp add: g)
  have 5: "lstep one_conn (goto i (Cas 0) s) (goto i (Done Check None) (s\<lparr>ls_conns := 1\<rparr>))"
    using conns_cas_ok [OF g(2), of one_conn 1] assms(2) by (simp add: g one_conn_def) (simp add: goto_def)
  from 1 2 3 4 5 show ?thesis by (meson r_into_rtranclp rtranclp_trans)
qed

text \<open>A call that finds another day stored exchanges it, clears the counters and is admitted.\<close>

lemma run_resets:
  assumes "at_pc s i (Dated Check t)" and "ls_day s \<noteq> t"
  shows "(lstep one_conn)\<^sup>*\<^sup>* s (goto i (Done Check None) (s\<lparr>ls_day := t, ls_bytes := 0, ls_conns := 1\<rparr>))"
proof -
  let ?d = "s\<lparr>ls_day := t\<rparr>"
  let ?b = "?d\<lparr>ls_bytes := 0\<rparr>"
  let ?z = "?b\<lparr>ls_conns := 0\<rparr>"
  have i: "i < length (ls_pcs s)" using assms(1) by (simp add: at_pc_def)
  have "lstep one_conn s (goto i (Loaded Check t (ls_day s)) s)" using load_day [OF assms(1)] .
  moreover have "lstep one_conn (goto i (Loaded Check t (ls_day s)) s) (goto i (ResetBytes Check) ?d)"
    using day_cas_ok [of "goto i (Loaded Check t (ls_day s)) s" i Check t "ls_day s" one_conn] i assms(2)
    by (simp add: goto_def at_pc_def)
  moreover have "lstep one_conn (goto i (ResetBytes Check) ?d) (goto i (ResetConns Check) ?b)"
    using reset_bytes [of "goto i (ResetBytes Check) ?d" i Check one_conn] i by (simp add: goto_def at_pc_def)
  moreover have "lstep one_conn (goto i (ResetConns Check) ?b) (goto i (Ready Check) ?z)"
    using reset_conns [of "goto i (ResetConns Check) ?b" i Check one_conn] i by (simp add: goto_def at_pc_def)
  moreover have "lstep one_conn (goto i (Ready Check) ?z) (goto i LoadConns ?z)"
    using count_needed [of "goto i (Ready Check) ?z" i one_conn] i
    by (simp add: goto_def at_pc_def bandwidth_reached_def one_conn_def)
  moreover have "lstep one_conn (goto i LoadConns ?z) (goto i (Cas 0) ?z)"
    using load_conns [of "goto i LoadConns ?z" i one_conn] i by (simp add: goto_def at_pc_def)
  moreover have "lstep one_conn (goto i (Cas 0) ?z) (goto i (Done Check None) (?b\<lparr>ls_conns := 1\<rparr>))"
    using conns_cas_ok [of "goto i (Cas 0) ?z" i 0 one_conn 1] i by (simp add: goto_def at_pc_def one_conn_def)
  ultimately show ?thesis by (meson r_into_rtranclp rtranclp_trans)
qed


text \<open>the reset at the change of day is not atomic with the exchange of the day. With a limit of
  one connection per day, two calls that are the first of a new day can both be admitted: the first
  exchanges the day, the second is admitted and counted, and the first then stores zero over that
  count and is admitted too.\<close>

theorem rollover_loses_admission:
  "\<exists>s'. (lstep one_conn)\<^sup>*\<^sup>* (calls 5 4 0 2) s' \<and> ls_clock s' = 5 \<and> unat (1 :: u64) < admissions s'"
proof -
  define s where "s = calls 5 4 0 2"
  define s1 where "s1 = goto 0 (Dated Check 5) s"
  define s2 where "s2 = goto 0 (Loaded Check 5 4) s1"
  define s3 where "s3 = goto 0 (ResetBytes Check) (s2\<lparr>ls_day := 5\<rparr>)"
  define s4 where "s4 = goto 1 (Dated Check 5) s3"
  define s5 where "s5 = goto 1 (Done Check None) (s4\<lparr>ls_conns := 1\<rparr>)"
  define s6 where "s6 = goto 0 (ResetConns Check) (s5\<lparr>ls_bytes := 0\<rparr>)"
  define s7 where "s7 = goto 0 (Ready Check) (s6\<lparr>ls_conns := 0\<rparr>)"
  define s8 where "s8 = goto 0 LoadConns s7"
  define s9 where "s9 = goto 0 (Cas 0) s8"
  define s' where "s' = goto 0 (Done Check None) (s9\<lparr>ls_conns := 1\<rparr>)"
  note d = s_def s1_def s2_def s3_def s4_def s5_def s6_def s7_def s8_def s9_def s'_def calls_def goto_def at_pc_def
    numeral_2_eq_2
  have "lstep one_conn s s1" using start_check [of s 0 one_conn] by (simp add: d)
  moreover have "lstep one_conn s1 s2" using load_day [of s1 0 Check 5 one_conn] by (simp add: d)
  moreover have "lstep one_conn s2 s3" using day_cas_ok [of s2 0 Check 5 4 one_conn] by (simp add: d)
  moreover have "lstep one_conn s3 s4" using start_check [of s3 1 one_conn] by (simp add: d)
  moreover have "(lstep one_conn)\<^sup>*\<^sup>* s4 s5" unfolding s5_def by (rule run_admits) (simp_all add: d)
  moreover have "lstep one_conn s5 s6" using reset_bytes [of s5 0 Check one_conn] by (simp add: d)
  moreover have "lstep one_conn s6 s7" using reset_conns [of s6 0 Check one_conn] by (simp add: d)
  moreover have "lstep one_conn s7 s8"
    using count_needed [of s7 0 one_conn] by (simp add: d bandwidth_reached_def one_conn_def)
  moreover have "lstep one_conn s8 s9" using load_conns [of s8 0 one_conn] by (simp add: d)
  moreover have "lstep one_conn s9 s'" using conns_cas_ok [of s9 0 0 one_conn 1] by (simp add: d one_conn_def)
  ultimately have "(lstep one_conn)\<^sup>*\<^sup>* s s'" by (meson r_into_rtranclp rtranclp_trans)
  moreover have "admissions s' = 2" "ls_clock s' = 5" by (simp_all add: d admissions_def)
  ultimately show ?thesis unfolding s_def by auto
qed

text \<open>a call that read the clock before midnight takes the day back. The quota of one connection is used up;
  a call reads the clock, midnight passes and a second call starts the new day and is admitted; the first
  call then finds a day that is not the one it read, stores the old day, clears the counters and is
  admitted, and so is a third call, which starts the new day once more.\<close>

theorem stale_clock_reopens_quota:
  "\<exists>s'. (lstep one_conn)\<^sup>*\<^sup>* (calls 4 4 1 3) s' \<and> ls_clock s' = 5 \<and> admissions s' = 3"
proof -
  define s where "s = calls 4 4 1 3"
  define s1 where "s1 = goto 0 (Dated Check 4) s"
  define s2 where "s2 = s1\<lparr>ls_clock := 5\<rparr>"
  define s3 where "s3 = goto 1 (Dated Check 5) s2"
  define s4 where "s4 = goto 1 (Done Check None) (s3\<lparr>ls_day := 5, ls_bytes := 0, ls_conns := 1\<rparr>)"
  define s5 where "s5 = goto 0 (Done Check None) (s4\<lparr>ls_day := 4, ls_bytes := 0, ls_conns := 1\<rparr>)"
  define s6 where "s6 = goto 2 (Dated Check 5) s5"
  define s' where "s' = goto 2 (Done Check None) (s6\<lparr>ls_day := 5, ls_bytes := 0, ls_conns := 1\<rparr>)"
  note d = s_def s1_def s2_def s3_def s4_def s5_def s6_def s'_def calls_def goto_def at_pc_def
    numeral_2_eq_2 numeral_3_eq_3
  have "lstep one_conn s s1" using start_check [of s 0 one_conn] by (simp add: d)
  moreover have "lstep one_conn s1 s2" unfolding s2_def by (rule tick) (simp add: s1_def s_def calls_def)
  moreover have "lstep one_conn s2 s3" using start_check [of s2 1 one_conn] by (simp add: d)
  moreover have "(lstep one_conn)\<^sup>*\<^sup>* s3 s4" unfolding s4_def by (rule run_resets) (simp_all add: d)
  moreover have "(lstep one_conn)\<^sup>*\<^sup>* s4 s5" unfolding s5_def by (rule run_resets) (simp_all add: d)
  moreover have "lstep one_conn s5 s6" using start_check [of s5 2 one_conn] by (simp add: d)
  moreover have "(lstep one_conn)\<^sup>*\<^sup>* s6 s'" unfolding s'_def by (rule run_resets) (simp_all add: d)
  ultimately have "(lstep one_conn)\<^sup>*\<^sup>* s s'" by (meson r_into_rtranclp rtranclp_trans)
  moreover have "admissions s' = 3" "ls_clock s' = 5" by (simp_all add: d admissions_def)
  ultimately show ?thesis unfolding s_def by auto
qed

end
