(* ===== verification/Relay_Listener.thy ===== *)
theory Relay_Listener
  imports Relay_Config
begin

text \<open>
  Start and shutdown of the service and the listener loops of \<open>src/service.rs\<close> (\<open>SniProxyService::run\<close> and \<open>run_listener\<close>) as a transition
  system: the listeners share one semaphore, each takes a permit before it accepts and hands it to
  the handler of the connection, and a shutdown flag is looked at between rounds. The theorems show
  that no permit is lost or made up, that the handlers never exceed the configured number, and when a
  shutdown reaches its end.
\<close>

section \<open>Binding\<close>

datatype listen_error = BadListenAddr string | BindFailed socket_addr

definition bind_listener :: "(socket_addr \<Rightarrow> u32 \<Rightarrow> bool) \<Rightarrow> string \<Rightarrow> u32 \<Rightarrow> listen_error + socket_addr" where
  "bind_listener can_bind addr backlog =
     (case parse_socket_addr addr of
        None \<Rightarrow> Inl (BadListenAddr addr)
      | Some a \<Rightarrow> if can_bind a backlog then Inr a else Inl (BindFailed a))"

section \<open>The transition system\<close>

text \<open>Before the address is bound, top of the loop, in \<open>select!\<close>, in \<open>accept\<close> with a permit in hand, and after \<open>break\<close>.\<close>

datatype phase = Binding | Looping | Selecting | Accepting | Stopped

record relay =
  rl_free :: nat
  rl_phases :: "phase list"
  rl_sessions :: nat
  rl_shutdown :: bool

datatype event = Signal | Bind nat | BindError nat | Check nat | Notice nat | Acquire nat | Accept nat | AcceptError nat | SessionEnd

definition phase_of :: "nat \<Rightarrow> relay \<Rightarrow> phase option" where
  "phase_of i s = (if i < length (rl_phases s) then Some (rl_phases s ! i) else None)"

definition set_phase :: "nat \<Rightarrow> phase \<Rightarrow> relay \<Rightarrow> relay" where
  "set_phase i p s = s\<lparr>rl_phases := (rl_phases s)[i := p]\<rparr>"

definition relay_start :: "nat \<Rightarrow> nat \<Rightarrow> relay" where
  "relay_start slots listeners =
     \<lparr>rl_free = slots, rl_phases = replicate listeners Binding, rl_sessions = 0,
      rl_shutdown = False\<rparr>"

text \<open>
  \<open>run\<close> spawns one task per configured listener; an address without a port makes it return at once.
\<close>

fun spawn_listeners :: "listener_config list \<Rightarrow> config_error + nat" where
  "spawn_listeners [] = Inr 0"
| "spawn_listeners (l # ls) =
     (case listen_port l of
        Inl e \<Rightarrow> Inl e
      | Inr _ \<Rightarrow> (case spawn_listeners ls of Inl e \<Rightarrow> Inl e | Inr n \<Rightarrow> Inr (Suc n)))"

definition run_start :: "nat \<Rightarrow> app_config \<Rightarrow> config_error + relay" where
  "run_start slots cfg =
     (case spawn_listeners (listens cfg) of Inl e \<Rightarrow> Inl e | Inr n \<Rightarrow> Inr (relay_start slots n))"

inductive step :: "event \<Rightarrow> relay \<Rightarrow> relay \<Rightarrow> bool" where
  signal: "step Signal s (s\<lparr>rl_shutdown := True\<rparr>)"
| bound: "phase_of i s = Some Binding \<Longrightarrow> step (Bind i) s (set_phase i Looping s)"
| bind_error: "phase_of i s = Some Binding \<Longrightarrow> step (BindError i) s (set_phase i Stopped s)"
| check_go: "phase_of i s = Some Looping \<Longrightarrow> \<not> rl_shutdown s \<Longrightarrow>
    step (Check i) s (set_phase i Selecting s)"
| check_stop: "phase_of i s = Some Looping \<Longrightarrow> rl_shutdown s \<Longrightarrow>
    step (Check i) s (set_phase i Stopped s)"
| notice: "phase_of i s = Some Selecting \<Longrightarrow> rl_shutdown s \<Longrightarrow>
    step (Notice i) s (set_phase i Stopped s)"
| acquire: "phase_of i s = Some Selecting \<Longrightarrow> 0 < rl_free s \<Longrightarrow>
    step (Acquire i) s (set_phase i Accepting (s\<lparr>rl_free := rl_free s - 1\<rparr>))"
| accept: "phase_of i s = Some Accepting \<Longrightarrow>
    step (Accept i) s (set_phase i Looping (s\<lparr>rl_sessions := Suc (rl_sessions s)\<rparr>))"
| accept_error: "phase_of i s = Some Accepting \<Longrightarrow>
    step (AcceptError i) s (set_phase i Looping (s\<lparr>rl_free := Suc (rl_free s)\<rparr>))"
| session_end: "0 < rl_sessions s \<Longrightarrow>
    step SessionEnd s (s\<lparr>rl_sessions := rl_sessions s - 1, rl_free := Suc (rl_free s)\<rparr>)"

inductive_cases stepE: "step e s s'"

inductive steps :: "relay \<Rightarrow> event list \<Rightarrow> relay \<Rightarrow> bool" where
  steps_Nil: "steps s [] s"
| steps_Cons: "step e s s' \<Longrightarrow> steps s' es s'' \<Longrightarrow> steps s (e # es) s''"

text \<open>\<open>run\<close> returns, after a last save of the limiter, once every listener task has ended.\<close>

definition run_returns :: "relay \<Rightarrow> bool" where
  "run_returns s \<longleftrightarrow> rl_shutdown s \<and> list_all (\<lambda>p. p = Stopped) (rl_phases s)"

section \<open>Permits\<close>

definition accepting :: "relay \<Rightarrow> nat" where
  "accepting s = length (filter (\<lambda>p. p = Accepting) (rl_phases s))"

definition permits :: "relay \<Rightarrow> nat" where
  "permits s = rl_free s + accepting s + rl_sessions s"

lemma accepting_set_phase:
  assumes "phase_of i s = Some p"
  shows "accepting (set_phase i q s) + of_bool (p = Accepting) = accepting s + of_bool (q = Accepting)"
proof -
  have "i < length (rl_phases s)" "rl_phases s ! i = p" using assms by (auto simp: phase_of_def split: if_splits)
  then show ?thesis
    using length_filter_update [of i "rl_phases s" "\<lambda>p. p = Accepting" q] by (simp add: accepting_def set_phase_def)
qed

lemma accepting_quiet:
  "phase_of i s = Some p \<Longrightarrow> p \<noteq> Accepting \<Longrightarrow> q \<noteq> Accepting \<Longrightarrow> accepting (set_phase i q s) = accepting s"
  using accepting_set_phase [of i s p q] by simp

lemma accepting_update [simp]:
  "accepting (s\<lparr>rl_free := n\<rparr>) = accepting s" "accepting (s\<lparr>rl_sessions := n\<rparr>) = accepting s"
  "accepting (s\<lparr>rl_shutdown := b\<rparr>) = accepting s"
  by (simp_all add: accepting_def)

lemma phase_of_update [simp]:
  "phase_of i (s\<lparr>rl_free := n\<rparr>) = phase_of i s" "phase_of i (s\<lparr>rl_sessions := n\<rparr>) = phase_of i s"
  "phase_of i (s\<lparr>rl_shutdown := b\<rparr>) = phase_of i s"
  by (simp_all add: phase_of_def)

lemma set_phase_fields [simp]:
  "rl_free (set_phase i p s) = rl_free s" "rl_sessions (set_phase i p s) = rl_sessions s"
  "rl_shutdown (set_phase i p s) = rl_shutdown s"
  by (simp_all add: set_phase_def)

lemma step_permits: "step e s s' \<Longrightarrow> permits s' = permits s"
proof (induction e s s' rule: step.induct)
  case (acquire i s)
  then show ?case
    using accepting_set_phase [of i "s\<lparr>rl_free := rl_free s - 1\<rparr>" Selecting Accepting]
    by (simp add: permits_def)
next
  case (accept i s)
  then show ?case
    using accepting_set_phase [of i "s\<lparr>rl_sessions := Suc (rl_sessions s)\<rparr>" Accepting Looping]
    by (simp add: permits_def)
next
  case (accept_error i s)
  then show ?case
    using accepting_set_phase [of i "s\<lparr>rl_free := Suc (rl_free s)\<rparr>" Accepting Looping]
    by (simp add: permits_def)
qed (simp_all add: permits_def accepting_quiet)

lemma steps_permits: "steps s es s' \<Longrightarrow> permits s' = permits s"
  by (induction rule: steps.induct) (simp_all add: step_permits)

text \<open>permits are neither lost nor made up. In every reachable state the free permits, the
  listeners that hold one while they wait in \<open>accept\<close>, and the running handlers add up to
  \<open>max_connections\<close>, over all listeners; in particular no more connections than that are ever
  handled at a time.\<close>

theorem connection_slots:
  assumes "steps (relay_start slots listeners) es s"
  shows "rl_free s + accepting s + rl_sessions s = slots \<and> rl_sessions s \<le> slots"
proof -
  have "accepting (relay_start slots listeners) = 0"
    by (simp add: accepting_def relay_start_def)
  then have "permits s = slots"
    using steps_permits [OF assms] by (simp add: permits_def relay_start_def)
  then show ?thesis by (simp add: permits_def)
qed

lemma one_session_run:
  "steps (relay_start 2 1) [Bind 0, Check 0, Acquire 0, Accept 0]
     \<lparr>rl_free = 1, rl_phases = [Looping], rl_sessions = 1, rl_shutdown = False\<rparr>"
  by (rule steps_Cons [OF bound], simp_all add: relay_start_def phase_of_def)
    (rule steps_Cons [OF check_go], simp_all add: phase_of_def set_phase_def, rule steps_Cons [OF acquire], simp_all add: phase_of_def set_phase_def,
     rule steps_Cons [OF accept], simp_all add: phase_of_def set_phase_def steps_Nil)

theorem connection_slots_witness:
  "\<exists>s. steps (relay_start 2 1) [Bind 0, Check 0, Acquire 0, Accept 0] s \<and> rl_sessions s = 1
     \<and> rl_free s + accepting s + rl_sessions s = 2"
  using connection_slots [OF one_session_run] one_session_run by fastforce

section \<open>Shutdown\<close>

fun accepts_on :: "nat \<Rightarrow> event \<Rightarrow> bool" where
  "accepts_on i (Accept j) = (i = j)"
| "accepts_on i (AcceptError j) = (i = j)"
| "accepts_on i _ = False"

lemma step_keeps_accepting:
  assumes "step e s s'" and "phase_of i s = Some Accepting" and "\<not> accepts_on i e"
  shows "phase_of i s' = Some Accepting"
  using assms
  by (cases rule: step.cases) (auto simp: phase_of_def set_phase_def nth_list_update split: if_splits)

lemma steps_keep_accepting:
  assumes "steps s es s'" and "phase_of i s = Some Accepting" and "list_all (\<lambda>e. \<not> accepts_on i e) es"
  shows "phase_of i s' = Some Accepting"
  using assms by (induction rule: steps.induct) (auto dest: step_keeps_accepting)

fun accept_event :: "event \<Rightarrow> bool" where
  "accept_event (Accept j) = True"
| "accept_event (AcceptError j) = True"
| "accept_event _ = False"

lemma accepts_on_event: "accepts_on i e \<Longrightarrow> accept_event e"
  by (cases e) auto

text \<open>After the signal a listener outside \<open>accept\<close> stops by its own next step.\<close>

lemma stop_one:
  assumes "rl_shutdown s" and "phase_of i s = Some p" and "p \<notin> {Accepting, Stopped}"
  shows "\<exists>es. steps s es (set_phase i Stopped s) \<and> list_all (\<lambda>e. \<not> accept_event e) es"
proof (cases p)
  case Binding
  let ?t = "set_phase i Looping s"
  have "phase_of i ?t = Some Looping" "set_phase i Stopped ?t = set_phase i Stopped s"
    using assms(2) by (simp_all add: phase_of_def set_phase_def split: if_splits)
  with assms(1,2) Binding have "step (Bind i) s ?t" "step (Check i) ?t (set_phase i Stopped s)"
    using check_stop [of i ?t] by (simp_all add: bound)
  then show ?thesis by (intro exI [of _ "[Bind i, Check i]"]) (auto intro: steps_Cons steps_Nil)
next
  case Looping
  with assms have "step (Check i) s (set_phase i Stopped s)" by (simp add: check_stop)
  then show ?thesis by (intro exI [of _ "[Check i]"]) (auto intro: steps_Cons steps_Nil)
next
  case Selecting
  with assms have "step (Notice i) s (set_phase i Stopped s)" by (simp add: notice)
  then show ?thesis by (intro exI [of _ "[Notice i]"]) (auto intro: steps_Cons steps_Nil)
qed (use assms in auto)

lemma steps_append: "steps s es t \<Longrightarrow> steps t fs u \<Longrightarrow> steps s (es @ fs) u"
  by (induction rule: steps.induct) (auto intro: steps_Cons)

definition running :: "relay \<Rightarrow> nat" where
  "running s = length (filter (\<lambda>p. p \<noteq> Stopped) (rl_phases s))"

lemma running_stop: "phase_of i s = Some p \<Longrightarrow> p \<noteq> Stopped \<Longrightarrow> Suc (running (set_phase i Stopped s)) = running s"
  using length_filter_update [of i "rl_phases s" "\<lambda>p. p \<noteq> Stopped" Stopped]
  by (simp add: running_def set_phase_def phase_of_def split: if_splits)

lemma phase_of_set: "p \<in> set (rl_phases s) \<longleftrightarrow> (\<exists>i. phase_of i s = Some p)"
  by (auto simp: phase_of_def in_set_conv_nth)

lemma accepting_zero: "accepting s = 0 \<longleftrightarrow> Accepting \<notin> set (rl_phases s)"
  by (auto simp: accepting_def filter_empty_conv)

lemma shutdown_drains:
  assumes "rl_shutdown s" and "accepting s = 0"
  shows "\<exists>es s'. steps s es s' \<and> list_all (\<lambda>e. \<not> accept_event e) es \<and> run_returns s'"
  using assms
proof (induction "running s" arbitrary: s)
  case 0
  then have "run_returns s" by (auto simp: run_returns_def running_def filter_empty_conv list_all_iff)
  then show ?case by (intro exI [of _ "[]"] exI [of _ s]) (simp add: steps_Nil)
next
  case (Suc n)
  then obtain p where p: "p \<in> set (rl_phases s)" "p \<noteq> Stopped"
    by (metis (mono_tags, lifting) filter_False list.size(3) nat.distinct(1) running_def)
  then obtain i where i: "phase_of i s = Some p" by (auto simp: phase_of_set)
  have q: "p \<noteq> Accepting" using p(1) Suc.prems(2) by (auto simp: accepting_zero)
  let ?t = "set_phase i Stopped s"
  have "n = running ?t" "rl_shutdown ?t" "accepting ?t = 0"
    using running_stop [OF i p(2)] accepting_quiet [OF i q, of Stopped] Suc.hyps(2) Suc.prems by simp_all
  from Suc.hyps(1) [OF this] obtain es s' where rest: "steps ?t es s'" "list_all (\<lambda>e. \<not> accept_event e) es" "run_returns s'"
    by blast
  from stop_one [OF Suc.prems(1) i] p(2) q obtain fs where "steps s fs ?t" "list_all (\<lambda>e. \<not> accept_event e) fs" by auto
  with rest show ?case by (intro exI [of _ "fs @ es"] exI [of _ s']) (simp add: steps_append)
qed

text \<open>C38: when a shutdown comes to its end. After the signal \<open>run\<close> can return, and the limiter be saved
  for the last time, without another client if and only if no listener waits in \<open>accept\<close>: a listener
  that holds a permit there leaves only with a connection or an accept error of its own, while all
  others stop by themselves.\<close>

theorem shutdown_waits_for_accept:
  assumes "rl_shutdown s"
  shows "(\<exists>es s'. steps s es s' \<and> list_all (\<lambda>e. \<not> accept_event e) es \<and> run_returns s') = (accepting s = 0)"
proof
  assume "\<exists>es s'. steps s es s' \<and> list_all (\<lambda>e. \<not> accept_event e) es \<and> run_returns s'"
  then obtain es s' where run: "steps s es s'" "list_all (\<lambda>e. \<not> accept_event e) es" "run_returns s'" by blast
  have "phase_of i s \<noteq> Some Accepting" for i
  proof
    assume "phase_of i s = Some Accepting"
    moreover have "list_all (\<lambda>e. \<not> accepts_on i e) es"
      using run(2) by (auto simp: list_all_iff dest: accepts_on_event)
    ultimately have "phase_of i s' = Some Accepting" using steps_keep_accepting [OF run(1)] by blast
    with run(3) show False by (auto simp: run_returns_def phase_of_def list_all_length split: if_splits)
  qed
  then show "accepting s = 0" by (auto simp: accepting_zero phase_of_set)
qed (rule shutdown_drains [OF assms])

theorem shutdown_waits_for_accept_witness:
  "\<not> (\<exists>es s'. steps \<lparr>rl_free = 1, rl_phases = [Accepting, Looping], rl_sessions = 0, rl_shutdown = True\<rparr> es s'
       \<and> list_all (\<lambda>e. \<not> accept_event e) es \<and> run_returns s')
   \<and> (\<exists>es s'. steps \<lparr>rl_free = 1, rl_phases = [Selecting, Looping], rl_sessions = 3, rl_shutdown = True\<rparr> es s'
       \<and> list_all (\<lambda>e. \<not> accept_event e) es \<and> run_returns s')"
  by (simp add: shutdown_waits_for_accept accepting_def)

text \<open>
  Slots and listeners of a service that was started with a configuration: a listener per entry, unless
  one of them has no valid address.
\<close>

lemma spawn_listeners_result:
  "case spawn_listeners ls of
     Inr n \<Rightarrow> n = length ls \<and> list_all (\<lambda>l. parse_socket_addr (li_addr l) \<noteq> None) ls
   | Inl e \<Rightarrow> \<exists>l \<in> set ls. parse_socket_addr (li_addr l) = None \<and> e = InvalidListenAddr (li_addr l)"
  by (induction ls) (auto simp: listen_port_def split: option.splits sum.splits)

lemma run_start_listeners:
  "case run_start slots cfg of
     Inr s \<Rightarrow> s = relay_start slots (length (listens cfg))
       \<and> list_all (\<lambda>l. parse_socket_addr (li_addr l) \<noteq> None) (listens cfg)
   | Inl e \<Rightarrow> \<exists>l \<in> set (listens cfg). parse_socket_addr (li_addr l) = None \<and> e = InvalidListenAddr (li_addr l)"
  using spawn_listeners_result [of "listens cfg"] by (simp add: run_start_def split: sum.splits)

end
