(* ===== verification/Relay_Registry.thy ===== *)
theory Relay_Registry
  imports Relay_Config "HOL-Library.Product_Lexorder"
begin

text \<open>
  The upstream registry of \<open>src/upstream_registry.rs\<close>: named profiles, a default, and routes by
  client address. The theorems show that a registry built from a finalised configuration or from a
  validated payload always resolves, that the failover candidates are each profile once, the
  preferred one first, in an order that does not depend on the hash map, and what each update does
  to the routes.
\<close>

section \<open>The registry and its operations\<close>

record upstream_registry =
  reg_profiles :: "(string, upstream_proxy) hash_map"
  reg_default :: string
  reg_by_ip :: "(string, string) hash_map"
  reg_failover :: bool

datatype registry_error =
    ProfileMissing string
  | UnknownProfile string
  | InvalidClientIp string
  | NoProfiles
  | DefaultNotInUpstreams string
  | RouteToUnknownProfile string string

definition registry_from_config :: "app_config \<Rightarrow> upstream_registry" where
  "registry_from_config cfg =
     \<lparr>reg_profiles = upstreams cfg, reg_default = default_upstream_name cfg,
      reg_by_ip = client_upstreams cfg, reg_failover = upstream_failover cfg\<rparr>"

definition profile_name_for_ip :: "upstream_registry \<Rightarrow> string \<Rightarrow> string" where
  "profile_name_for_ip reg client_ip =
     (let key = (case normalize_client_ip client_ip of Some k \<Rightarrow> k | None \<Rightarrow> trim client_ip)
      in case hm_get (reg_by_ip reg) key of
           Some name \<Rightarrow> if hm_contains (reg_profiles reg) name then name else reg_default reg
         | None \<Rightarrow> reg_default reg)"

definition registry_resolve :: "upstream_registry \<Rightarrow> string \<Rightarrow> registry_error + string \<times> upstream_proxy" where
  "registry_resolve reg client_ip =
     (let name = profile_name_for_ip reg client_ip
      in case hm_get (reg_profiles reg) name of
           Some proxy \<Rightarrow> Inr (name, proxy)
         | None \<Rightarrow> Inl (ProfileMissing name))"

text \<open>
  The comparison closure puts the default profile first and orders the others by name; it is the
  lexicographic order on "not the default" and the name.
\<close>

definition failover_key :: "upstream_registry \<Rightarrow> string \<Rightarrow> bool \<times> string" where
  "failover_key reg name = (name \<noteq> reg_default reg, name)"

definition connect_candidates ::
    "upstream_registry \<Rightarrow> string \<Rightarrow> registry_error + (string \<times> upstream_proxy) list" where
  "connect_candidates reg client_ip =
     (let primary = profile_name_for_ip reg client_ip
      in case hm_get (reg_profiles reg) primary of
           None \<Rightarrow> Inl (ProfileMissing primary)
         | Some primary_proxy \<Rightarrow>
             (let out = [(primary, primary_proxy)]
              in if \<not> reg_failover reg then Inr out
                 else
                   (let rest = filter (\<lambda>k. k \<noteq> primary) (map fst (reg_profiles reg));
                        rest = sort_key (failover_key reg) rest
                    in Inr (out @ List.map_filter
                         (\<lambda>name. map_option (Pair name) (hm_get (reg_profiles reg) name)) rest))))"

definition default_proxy :: "upstream_registry \<Rightarrow> registry_error + upstream_proxy" where
  "default_proxy reg =
     (case hm_get (reg_profiles reg) (reg_default reg) of
        Some p \<Rightarrow> Inr p
      | None \<Rightarrow> Inl (ProfileMissing (reg_default reg)))"

definition set_client_upstream ::
    "upstream_registry \<Rightarrow> string \<Rightarrow> string \<Rightarrow> registry_error + upstream_registry" where
  "set_client_upstream reg ip profile =
     (if \<not> hm_contains (reg_profiles reg) profile then Inl (UnknownProfile profile)
      else case normalize_client_ip ip of
             None \<Rightarrow> Inl (InvalidClientIp ip)
           | Some key \<Rightarrow> Inr (reg\<lparr>reg_by_ip := hm_insert key profile (reg_by_ip reg)\<rparr>))"

definition remove_client_upstream ::
    "upstream_registry \<Rightarrow> string \<Rightarrow> registry_error + upstream_registry \<times> bool" where
  "remove_client_upstream reg ip =
     (case normalize_client_ip ip of
        None \<Rightarrow> Inl (InvalidClientIp ip)
      | Some key \<Rightarrow>
          Inr (reg\<lparr>reg_by_ip := hm_remove key (reg_by_ip reg)\<rparr>, hm_contains (reg_by_ip reg) key))"

fun norm_routes ::
    "(string, upstream_proxy) hash_map \<Rightarrow> (string, string) hash_map \<Rightarrow> (string \<times> string) list
     \<Rightarrow> registry_error + (string, string) hash_map" where
  "norm_routes profiles m [] = Inr m"
| "norm_routes profiles m ((ip, profile) # rs) =
     (if \<not> hm_contains profiles profile then Inl (RouteToUnknownProfile ip profile)
      else case normalize_client_ip ip of
             None \<Rightarrow> Inl (InvalidClientIp ip)
           | Some key \<Rightarrow> norm_routes profiles (hm_insert key profile m) rs)"

definition registry_from_parts ::
    "(string, upstream_proxy) hash_map \<Rightarrow> string \<Rightarrow> (string, string) hash_map \<Rightarrow> bool
     \<Rightarrow> registry_error + upstream_registry" where
  "registry_from_parts profiles dflt by_ip failover =
     (if profiles = [] then Inl NoProfiles
      else if \<not> hm_contains profiles dflt then Inl (DefaultNotInUpstreams dflt)
      else case norm_routes profiles [] by_ip of
             Inl e \<Rightarrow> Inl e
           | Inr m \<Rightarrow> Inr \<lparr>reg_profiles = profiles, reg_default = dflt, reg_by_ip = m, reg_failover = failover\<rparr>)"

section \<open>Invariant\<close>

definition registry_ok :: "upstream_registry \<Rightarrow> bool" where
  "registry_ok reg \<longleftrightarrow>
     hm_wf (reg_profiles reg) \<and> hm_wf (reg_by_ip reg) \<and> hm_contains (reg_profiles reg) (reg_default reg)
     \<and> (\<forall>(ip, profile) \<in> set (reg_by_ip reg). hm_contains (reg_profiles reg) profile)"

lemma registry_ok_config: "upstreams_ok cfg \<Longrightarrow> registry_ok (registry_from_config cfg)"
  by (auto simp: upstreams_ok_def registry_ok_def registry_from_config_def default_upstream_name_def hm_contains_def)

lemma norm_routes_ok:
  assumes "norm_routes profiles m rs = Inr m'" and "hm_wf m"
    and "\<forall>(ip, p) \<in> set m. hm_contains profiles p"
  shows "hm_wf m' \<and> (\<forall>(ip, p) \<in> set m'. hm_contains profiles p)"
  using assms
proof (induction profiles m rs rule: norm_routes.induct)
  case (2 profiles m ip profile rs)
  then obtain key where k: "hm_contains profiles profile" "normalize_client_ip ip = Some key"
    "norm_routes profiles (hm_insert key profile m) rs = Inr m'"
    by (auto split: if_splits option.splits)
  have "\<forall>(ip, p) \<in> set (hm_insert key profile m). hm_contains profiles p"
    using set_hm_insert [of key profile m] 2(4) k(1) by auto
  with 2(1) [OF _ k(2,3)] k(1) 2(3) show ?case by (simp add: hm.inv_insert)
qed simp

lemma registry_ok_parts:
  assumes "registry_from_parts profiles dflt by_ip fo = Inr reg" and "hm_wf profiles"
  shows "registry_ok reg"
proof -
  from assms(1) obtain m where m: "norm_routes profiles [] by_ip = Inr m" "hm_contains profiles dflt"
    "reg = \<lparr>reg_profiles = profiles, reg_default = dflt, reg_by_ip = m, reg_failover = fo\<rparr>"
    by (auto simp: registry_from_parts_def split: if_splits sum.splits)
  with norm_routes_ok [OF m(1) hm.inv_empty] assms(2) show ?thesis
    by (simp add: registry_ok_def)
qed

lemma profile_known: "registry_ok reg \<Longrightarrow> hm_contains (reg_profiles reg) (profile_name_for_ip reg ip)"
  by (simp add: profile_name_for_ip_def registry_ok_def Let_def split: option.split)

text \<open>The route of an address: its own entry, or the default.\<close>

definition route_of :: "upstream_registry \<Rightarrow> string \<Rightarrow> string" where
  "route_of reg key = (case hm_get (reg_by_ip reg) key of Some p \<Rightarrow> p | None \<Rightarrow> reg_default reg)"

lemma profile_name_route:
  assumes "registry_ok reg"
  shows "profile_name_for_ip reg ip =
    route_of reg (case normalize_client_ip ip of Some k \<Rightarrow> k | None \<Rightarrow> trim ip)"
  using assms
  by (auto simp: profile_name_for_ip_def route_of_def registry_ok_def Let_def
      dest!: hm_get_SomeD split: option.split)

subsection \<open>Candidates\<close>

lemma map_filter_known:
  assumes "set ks \<subseteq> fst ` set m" and "hm_wf m"
  shows "map fst (List.map_filter (\<lambda>k. map_option (Pair k) (hm_get m k)) ks) = ks"
  using assms(1)
proof (induction ks)
  case (Cons k ks)
  then obtain v where "hm_get m k = Some v"
    using hm_contains_iff [of m k] by (auto simp: hm_contains_def)
  with Cons show ?case by (simp add: List.map_filter_def)
qed (simp add: List.map_filter_def)

lemma set_map_filter_known:
  "x \<in> set (List.map_filter (\<lambda>k. map_option (Pair k) (hm_get m k)) ks) \<Longrightarrow> x \<in> set m"
  by (auto simp: List.map_filter_def dest: hm_get_SomeD)

definition other_profiles :: "upstream_registry \<Rightarrow> string \<Rightarrow> string list" where
  "other_profiles reg primary =
     sort_key (failover_key reg) (filter (\<lambda>k. k \<noteq> primary) (map fst (reg_profiles reg)))"

lemma connect_candidates_names:
  assumes "registry_ok reg" and "connect_candidates reg ip = Inr cs"
  shows "map fst cs = profile_name_for_ip reg ip
      # (if reg_failover reg then other_profiles reg (profile_name_for_ip reg ip) else [])"
    and "set cs \<subseteq> set (reg_profiles reg)"
proof -
  let ?p = "profile_name_for_ip reg ip"
  obtain q where q: "hm_get (reg_profiles reg) ?p = Some q"
    using profile_known [OF assms(1), of ip] by (auto simp: hm_contains_def)
  have wf: "hm_wf (reg_profiles reg)" using assms(1) by (simp add: registry_ok_def)
  have "set (other_profiles reg ?p) \<subseteq> fst ` set (reg_profiles reg)" by (auto simp: other_profiles_def)
  note names = map_filter_known [OF this wf]
  show "map fst cs = ?p # (if reg_failover reg then other_profiles reg ?p else [])"
    using assms(2) q names by (auto simp: connect_candidates_def Let_def other_profiles_def split: if_splits)
  show "set cs \<subseteq> set (reg_profiles reg)"
    using assms(2) q by (auto simp: connect_candidates_def Let_def split: if_splits
        dest: hm_get_SomeD set_map_filter_known)
qed

lemma other_profiles_props:
  assumes "registry_ok reg"
  shows "distinct (p # other_profiles reg p)"
    and "set (other_profiles reg p) = fst ` set (reg_profiles reg) - {p}"
    and "sorted (map (failover_key reg) (other_profiles reg p))"
  using assms by (auto simp: other_profiles_def registry_ok_def hm_wf_def)

lemma map_fst_cong_set:
  assumes "hm_wf m" and "set cs \<subseteq> set m" and "fst ` set cs = fst ` set m"
  shows "set cs = set m"
proof
  show "set m \<subseteq> set cs"
  proof
    fix x assume x: "x \<in> set m"
    with assms(3) obtain y where y: "y \<in> set cs" "fst y = fst x" by (metis imageE imageI)
    with x assms(1,2) have "y = x" by (auto simp: hm_wf_def distinct_map inj_on_def)
    with y show "x \<in> set cs" by simp
  qed
qed (rule assms(2))

lemma failover_key_inj: "inj_on (failover_key reg) A"
  by (auto simp: inj_on_def failover_key_def)

section \<open>Properties\<close>

text \<open>a registry that satisfies its invariant routes every client. \<open>resolve\<close> never fails; it
  returns the profile listed for the client's address, or the default profile, with the proxy
  stored under that name.\<close>

theorem registry_resolves:
  assumes "registry_ok reg"
  shows "\<exists>proxy. registry_resolve reg ip = Inr (profile_name_for_ip reg ip, proxy)
      \<and> (profile_name_for_ip reg ip, proxy) \<in> set (reg_profiles reg)
      \<and> profile_name_for_ip reg ip =
          route_of reg (case normalize_client_ip ip of Some k \<Rightarrow> k | None \<Rightarrow> trim ip)"
  using profile_known [OF assms, of ip] profile_name_route [OF assms, of ip]
  by (auto simp: registry_resolve_def Let_def hm_contains_def dest: hm_get_SomeD)

definition example_registry :: upstream_registry where
  "example_registry =
     \<lparr>reg_profiles = [(''me'', Direct), (''eu'', Http ''10.0.0.2'' 3128 None), (''asia'', Direct)],
      reg_default = ''me'', reg_by_ip = [(''1.2.3.4'', ''eu'')], reg_failover = True\<rparr>"

theorem registry_resolves_witness:
  "registry_resolve example_registry ''1.2.3.4'' = Inr (''eu'', Http ''10.0.0.2'' 3128 None)"
proof -
  have ok: "registry_ok example_registry" by code_simp
  have n: "profile_name_for_ip example_registry ''1.2.3.4'' = ''eu''" by code_simp
  from registry_resolves [OF ok, of "''1.2.3.4''"] show ?thesis
    unfolding n by (auto simp: example_registry_def)
qed



text \<open>the candidates do not depend on the iteration order of the profile map. Two registries
  that hold the same profiles in a different order give the same list.\<close>

theorem connect_candidates_hash_order:
  assumes "hm_wf (reg_profiles reg)" and "mset (reg_profiles reg) = mset profiles'"
  shows "connect_candidates (reg\<lparr>reg_profiles := profiles'\<rparr>) ip = connect_candidates reg ip"
proof -
  have get: "hm_get profiles' = hm_get (reg_profiles reg)"
    using hm_get_perm [OF assms] by simp
  have name: "profile_name_for_ip (reg\<lparr>reg_profiles := profiles'\<rparr>) ip = profile_name_for_ip reg ip"
    by (simp add: profile_name_for_ip_def hm_contains_def get cong: option.case_cong if_cong)
  have key: "failover_key (reg\<lparr>reg_profiles := profiles'\<rparr>) = failover_key reg"
    by (simp add: fun_eq_iff failover_key_def)
  have "mset (filter P (map fst profiles')) = mset (filter P (map fst (reg_profiles reg)))" for P
    using assms(2) by (metis mset_filter mset_map)
  then have "sort_key (failover_key reg) (filter P (map fst profiles')) =
      sort_key (failover_key reg) (filter P (map fst (reg_profiles reg)))" for P
    by (intro sort_key_eq_sort_key failover_key_inj)
  then show ?thesis
    by (simp add: connect_candidates_def name get key Let_def cong: option.case_cong if_cong)
qed

theorem connect_candidates_hash_order_witness:
  "connect_candidates (example_registry\<lparr>reg_profiles := rev (reg_profiles example_registry)\<rparr>) ''1.2.3.4'' =
   connect_candidates example_registry ''1.2.3.4''"
proof -
  have "hm_wf (reg_profiles example_registry)" by code_simp
  then show ?thesis by (intro connect_candidates_hash_order) simp_all
qed

text \<open>updating the routes. Routing an address to a known profile sends exactly the clients at
  that address there, removing the route sends them to the default; no other client is affected,
  the invariant is kept, and an unknown profile or an invalid address is refused.\<close>

theorem client_route_updates:
  assumes "registry_ok reg" and "normalize_client_ip ip = Some key"
  shows "(if hm_contains (reg_profiles reg) profile
      then \<exists>reg'. set_client_upstream reg ip profile = Inr reg' \<and> registry_ok reg'
             \<and> route_of reg' = (route_of reg)(key := profile)
      else set_client_upstream reg ip profile = Inl (UnknownProfile profile))
    \<and> (\<exists>reg'. remove_client_upstream reg ip = Inr (reg', hm_contains (reg_by_ip reg) key)
         \<and> registry_ok reg' \<and> route_of reg' = (route_of reg)(key := reg_default reg))"
proof -
  have wf: "hm_wf (reg_by_ip reg)" using assms(1) by (simp add: registry_ok_def)
  have "registry_ok (reg\<lparr>reg_by_ip := hm_insert key profile (reg_by_ip reg)\<rparr>)"
    if "hm_contains (reg_profiles reg) profile"
    using assms(1) that set_hm_insert [of key profile "reg_by_ip reg"]
    by (fastforce simp: registry_ok_def hm.inv_insert)
  moreover have "registry_ok (reg\<lparr>reg_by_ip := hm_remove key (reg_by_ip reg)\<rparr>)"
    using assms(1) by (auto simp: registry_ok_def hm.inv_remove hm_remove_def hm_wf_def distinct_map_filter)
  ultimately show ?thesis
    using assms(2) wf
    by (auto simp: set_client_upstream_def remove_client_upstream_def route_of_def fun_eq_iff
        hm.get_insert hm.get_remove split: option.split)
qed

theorem client_route_updates_witness:
  "\<exists>reg'. remove_client_upstream example_registry ''1.2.3.4'' = Inr (reg', True)
     \<and> route_of reg' ''1.2.3.4'' = ''me''"
proof -
  have ok: "registry_ok example_registry" by code_simp
  have k: "normalize_client_ip ''1.2.3.4'' = Some ''1.2.3.4''" by code_simp
  have "hm_contains (reg_by_ip example_registry) ''1.2.3.4''" "reg_default example_registry = ''me''" by code_simp+
  with client_route_updates [OF ok k, of "''me''"] show ?thesis by auto
qed

end
