(* ===== verification/Relay_Stream.thy ===== *)
theory Relay_Stream
  imports Relay_Prelude
begin

text \<open>
  TCP streams as the relay reads and writes them. What a peer sends is a list of chunks, one per
  arrival, followed by what happens then: an orderly close, an error, or silence. A read returns at
  most the room it is given, so the same byte stream can arrive in many ways; the lemmas relate
  each operation to the concatenated stream, which makes chunking irrelevant for \<open>read_exact\<close>.
\<close>

section \<open>Streams\<close>

datatype stream_end = Closed | Broken | Silent

record sock =
  sk_in :: "bytes list"
  sk_end :: stream_end
  sk_out :: "bytes list"
  sk_room :: "nat option"

text \<open>\<open>sk_room\<close> is the number of writes that still succeed, \<open>None\<close> for all of them.\<close>

datatype io_error = UnexpectedEof | ReadError | WriteError

text \<open>An operation returns a value, fails, or never returns.\<close>

datatype ('e, 'a) outcome = Got 'a | Err 'e | Hang

fun and_then :: "('e, 'a) outcome \<Rightarrow> ('a \<Rightarrow> ('e, 'b) outcome) \<Rightarrow> ('e, 'b) outcome" where
  "and_then (Got x) f = f x"
| "and_then (Err e) f = Err e"
| "and_then Hang f = Hang"

fun map_err :: "('e \<Rightarrow> 'f) \<Rightarrow> ('e, 'a) outcome \<Rightarrow> ('f, 'a) outcome" where
  "map_err g (Got x) = Got x"
| "map_err g (Err e) = Err (g e)"
| "map_err g Hang = Hang"

text \<open>\<open>timeout\<close> turns an operation that never returns into an error.\<close>

fun with_timeout :: "'e \<Rightarrow> ('e, 'a) outcome \<Rightarrow> ('e, 'a) outcome" where
  "with_timeout e (Got x) = Got x"
| "with_timeout e (Err e') = Err e'"
| "with_timeout e Hang = Err e"

definition read :: "nat \<Rightarrow> sock \<Rightarrow> (io_error, bytes \<times> sock) outcome" where
  "read room s =
     (case sk_in s of
        c # cs \<Rightarrow>
          Got (take room c,
               s\<lparr>sk_in := (if length c \<le> room then cs else drop room c # cs)\<rparr>)
      | [] \<Rightarrow>
          (case sk_end s of Closed \<Rightarrow> Got ([], s) | Broken \<Rightarrow> Err ReadError | Silent \<Rightarrow> Hang))"

fun take_exact :: "nat \<Rightarrow> bytes list \<Rightarrow> (bytes \<times> bytes list) option" where
  "take_exact n [] = (if n = 0 then Some ([], []) else None)"
| "take_exact n (c # cs) =
     (if n = 0 then Some ([], c # cs)
      else if n < length c then Some (take n c, drop n c # cs)
      else map_option (\<lambda>(b, r). (c @ b, r)) (take_exact (n - length c) cs))"

definition read_exact :: "nat \<Rightarrow> sock \<Rightarrow> (io_error, bytes \<times> sock) outcome" where
  "read_exact n s =
     (case take_exact n (sk_in s) of
        Some (b, r) \<Rightarrow> Got (b, s\<lparr>sk_in := r\<rparr>)
      | None \<Rightarrow>
          (case sk_end s of Closed \<Rightarrow> Err UnexpectedEof | Broken \<Rightarrow> Err ReadError | Silent \<Rightarrow> Hang))"

definition write_all :: "bytes \<Rightarrow> sock \<Rightarrow> (io_error, sock) outcome" where
  "write_all b s =
     (if sk_room s = Some 0 then Err WriteError
      else Got (s\<lparr>sk_out := sk_out s @ [b], sk_room := map_option (\<lambda>n. n - 1) (sk_room s)\<rparr>))"

section \<open>Streams as byte sequences\<close>

definition incoming :: "sock \<Rightarrow> bytes" where
  "incoming s = concat (sk_in s)"

lemma take_exact_SomeD:
  "take_exact n cs = Some (b, r) \<Longrightarrow>
     n \<le> length (concat cs) \<and> b = take n (concat cs) \<and> concat r = drop n (concat cs)"
proof (induction n cs arbitrary: b r rule: take_exact.induct)
  case (2 n c cs)
  show ?case
  proof (cases "n = 0 \<or> n < length c")
    case False
    with 2(2) obtain b' where "take_exact (n - length c) cs = Some (b', r)" "b = c @ b'" by auto
    with 2(1) [of b' r] False show ?thesis by auto
  qed (use 2(2) in \<open>auto split: if_splits\<close>)
qed (auto split: if_splits)

lemma take_exact_None: "take_exact n cs = None \<longleftrightarrow> length (concat cs) < n"
  by (induction n cs rule: take_exact.induct) auto

lemma read_exact_Got:
  assumes "incoming s = b @ rest" and "n = length b"
  shows "\<exists>s'. read_exact n s = Got (b, s') \<and> incoming s' = rest \<and> sk_out s' = sk_out s
    \<and> sk_end s' = sk_end s \<and> sk_room s' = sk_room s"
proof -
  have "take_exact n (sk_in s) \<noteq> None"
    unfolding take_exact_None using assms by (simp add: incoming_def)
  then obtain b' r where t: "take_exact n (sk_in s) = Some (b', r)" by auto
  then have "b' = b" "concat r = rest"
    using assms take_exact_SomeD [OF t] by (auto simp: incoming_def)
  with t show ?thesis by (simp add: read_exact_def incoming_def)
qed

lemma read_exact_short:
  "length (incoming s) < n \<Longrightarrow> read_exact n s =
     (case sk_end s of Closed \<Rightarrow> Err UnexpectedEof | Broken \<Rightarrow> Err ReadError | Silent \<Rightarrow> Hang)"
  by (simp add: read_exact_def incoming_def take_exact_None [THEN iffD2])

lemma write_all_Got:
  "sk_room s = None \<Longrightarrow> \<exists>s'. write_all b s = Got s' \<and> incoming s' = incoming s
     \<and> sk_out s' = sk_out s @ [b] \<and> sk_end s' = sk_end s \<and> sk_room s' = None"
  by (simp add: write_all_def incoming_def)

lemma read_progress:
  assumes "read room s = Got (b, s')"
  shows "incoming s = b @ incoming s'" and "length b \<le> room" and "sk_end s' = sk_end s"
    and "sk_out s' = sk_out s" and "sk_room s' = sk_room s"
  using assms by (auto simp: read_def incoming_def split: list.splits stream_end.splits)

lemma with_timeout_returns: "with_timeout e r \<noteq> Hang"
  by (cases r) auto

lemma read_nonempty:
  assumes "[] \<notin> set (sk_in s)" and "incoming s \<noteq> []" and "0 < room"
  obtains b s' where "read room s = Got (b, s')" "b \<noteq> []" "[] \<notin> set (sk_in s')"
proof -
  from assms(2) obtain c cs where c: "sk_in s = c # cs" by (cases "sk_in s") (auto simp: incoming_def)
  then have "c \<noteq> []" "[] \<notin> set cs" using assms(1) by auto
  with c assms(3) that show thesis by (auto simp: read_def)
qed

section \<open>Incremental parsers\<close>

text \<open>
  A parser that is run again on a growing buffer: once it has decided, more bytes do not change its
  answer. Then every buffer that overlaps a decided one is either too short or decided alike.
\<close>

locale incremental_parser =
  fixes parse :: "'b list \<Rightarrow> 'v" and need_more :: "'v \<Rightarrow> bool"
  assumes decided: "\<not> need_more (parse b) \<Longrightarrow> parse (b @ c) = parse b"
begin

lemma same_decision:
  assumes "\<not> need_more (parse b)" and "b @ c = b' @ c'" and "\<not> need_more (parse b')"
  shows "parse b = parse b'"
  using assms decided by metis

lemma short_if_undecided:
  assumes "\<not> need_more (parse b)" and "b @ c = b' @ c'" and "need_more (parse b')"
  shows "length b' < length b"
proof (rule ccontr)
  assume "\<not> length b' < length b"
  then have "b' = b @ drop (length b) b'"
    using assms(2) by (auto simp: append_eq_append_conv2)
  with assms(1,3) decided show False by metis
qed

end

end
