(* ===== verification/Relay_Connector.thy ===== *)
theory Relay_Connector
  imports Relay_Config Relay_Stream
begin

unbundle bit_operations_syntax

text \<open>
  The upstream connector of \<open>src/proxy_connector.rs\<close>: SOCKS5, HTTP CONNECT and direct
  connections, the start-up probe and the health check. The network is the argument \<open>dial\<close>,
  which says what connecting to an address gives. The theorems show that the SOCKS5 request decodes
  to the destination it was built for, that a handshake with a conforming proxy leaves exactly the
  tunnelled bytes unread however they arrive, that the probe always returns, and that a connect
  through a silent proxy does not.
\<close>

section \<open>Errors and dialling\<close>

datatype conn_error =
    ConnectTimeout
  | ConnectFailed
  | Io io_error
  | BadVersion byte
  | AuthRejected byte
  | NoAcceptableMethod
  | UnsupportedMethod byte
  | HostnameTooLong
  | SocksConnectFailed string
  | UnknownAddressType byte
  | HttpProxyClosed
  | HttpConnectFailed string
  | HttpResponseTooLarge
  | ProbeTimedOut
  | NoProbeTargets
  | TlsBadContentType byte
  | TlsBadRecordLength nat
  | EmptyReply
  | StillUnreachable nat conn_error

datatype dial_result = Up sock | Refused | TimedOut

type_synonym network = "string \<Rightarrow> dial_result"

definition addr_of :: "string \<Rightarrow> u16 \<Rightarrow> string" where
  "addr_of host port = host @ '':'' @ show_nat (unat port)"

definition tcp_connect :: "network \<Rightarrow> string \<Rightarrow> u16 \<Rightarrow> (conn_error, sock) outcome" where
  "tcp_connect dial host port =
     (case dial (addr_of host port) of
        Up s \<Rightarrow> Got s | Refused \<Rightarrow> Err ConnectFailed | TimedOut \<Rightarrow> Err ConnectTimeout)"

definition send :: "bytes \<Rightarrow> sock \<Rightarrow> (conn_error, sock) outcome" where
  "send b s = map_err Io (write_all b s)"

definition recv :: "nat \<Rightarrow> sock \<Rightarrow> (conn_error, bytes \<times> sock) outcome" where
  "recv n s = map_err Io (read_exact n s)"

section \<open>SOCKS5\<close>

fun octets :: "ip_addr \<Rightarrow> bytes" where
  "octets (V4 os) = os"
| "octets (V6 gs) = concat (map u16_to_be gs)"

definition port_bytes :: "u16 \<Rightarrow> bytes" where
  "port_bytes port = [ucast (drop_bit 8 port), ucast port]"

definition build_socks5_connect_request :: "string \<Rightarrow> u16 \<Rightarrow> (conn_error, bytes) outcome" where
  "build_socks5_connect_request target_host target_port =
     (case parse_ip_addr target_host of
        Some ip \<Rightarrow>
          Got ([5, 1, 0] @ [case ip of V4 _ \<Rightarrow> 1 | V6 _ \<Rightarrow> 4] @ octets ip @ port_bytes target_port)
      | None \<Rightarrow>
          (let host_bytes = as_bytes target_host
           in if 255 < length host_bytes then Err HostnameTooLong
              else Got ([5, 1, 0, 3, of_nat (length host_bytes)] @ host_bytes @ port_bytes target_port)))"

definition skip_socks5_addr :: "sock \<Rightarrow> byte \<Rightarrow> (conn_error, sock) outcome" where
  "skip_socks5_addr s atyp =
     (if atyp = 1 then and_then (recv 6 s) (\<lambda>(_, s). Got s)
      else if atyp = 3 then
        and_then (recv 1 s) (\<lambda>(len, s).
          and_then (recv (unat (len ! 0) + 2) s) (\<lambda>(_, s). Got s))
      else if atyp = 4 then and_then (recv 18 s) (\<lambda>(_, s). Got s)
      else Err (UnknownAddressType atyp))"

definition socks5_reply_text :: "byte \<Rightarrow> string" where
  "socks5_reply_text code =
     (if code = 1 then ''general SOCKS server failure''
      else if code = 2 then ''connection not allowed by ruleset''
      else if code = 3 then ''Network unreachable''
      else if code = 4 then ''Host unreachable''
      else if code = 5 then ''Connection refused''
      else if code = 6 then ''TTL expired''
      else if code = 7 then ''Command not supported''
      else if code = 8 then ''Address type not supported''
      else ''unknown error'')"

text \<open>The lengths of user and password are truncated to one byte, as \<open>as u8\<close> does.\<close>

definition auth_request :: "string \<Rightarrow> string \<Rightarrow> bytes" where
  "auth_request user pass =
     [1, of_nat (length user)] @ as_bytes user @ [of_nat (length pass)] @ as_bytes pass"

definition or_empty :: "string option \<Rightarrow> string" where
  "or_empty x = (case x of Some s \<Rightarrow> s | None \<Rightarrow> [])"

definition auth_method :: "string option \<Rightarrow> byte" where
  "auth_method username = (if username \<noteq> None then 2 else 0)"

definition socks5_authenticate ::
    "byte \<Rightarrow> string option \<Rightarrow> string option \<Rightarrow> sock \<Rightarrow> (conn_error, sock) outcome" where
  "socks5_authenticate m username password s =
     (if m = 0 then Got s
      else if m = 2 then
        and_then (send (auth_request (or_empty username) (or_empty password)) s) (\<lambda>s.
        and_then (recv 2 s) (\<lambda>(auth_resp, s).
          if auth_resp ! 1 \<noteq> 0 then Err (AuthRejected (auth_resp ! 1)) else Got s))
      else if m = 0xFF then Err NoAcceptableMethod
      else Err (UnsupportedMethod m))"

definition socks5_connect ::
    "network \<Rightarrow> string \<Rightarrow> u16 \<Rightarrow> string \<Rightarrow> u16 \<Rightarrow> string option \<Rightarrow> string option
     \<Rightarrow> (conn_error, sock) outcome" where
  "socks5_connect dial proxy_host proxy_port target_host target_port username password =
     and_then (tcp_connect dial proxy_host proxy_port) (\<lambda>s.
     and_then (send [5, 1, auth_method username] s) (\<lambda>s.
     and_then (recv 2 s) (\<lambda>(resp, s).
       if resp ! 0 \<noteq> 5 then Err (BadVersion (resp ! 0))
       else
         and_then (socks5_authenticate (resp ! 1) username password s) (\<lambda>s.
         and_then (build_socks5_connect_request target_host target_port) (\<lambda>req.
         and_then (send req s) (\<lambda>s.
         and_then (recv 4 s) (\<lambda>(hdr, s).
           if hdr ! 0 \<noteq> 5 then Err (BadVersion (hdr ! 0))
           else if hdr ! 1 \<noteq> 0 then Err (SocksConnectFailed (socks5_reply_text (hdr ! 1)))
           else skip_socks5_addr s (hdr ! 3))))))))"

section \<open>HTTP CONNECT\<close>

definition crlf :: string where
  "crlf = [CHR 0x0D, CHR 0x0A]"

text \<open>\<open>windows(4).position\<close>: the first offset at which the four bytes occur.\<close>

fun find_sub :: "bytes \<Rightarrow> bytes \<Rightarrow> nat \<Rightarrow> nat option" where
  "find_sub p [] i = (if p = [] then Some i else None)"
| "find_sub p (b # bs) i = (if starts_with (b # bs) p then Some i else find_sub p bs (Suc i))"

definition find_crlfcrlf :: "bytes \<Rightarrow> nat option" where
  "find_crlfcrlf buf = find_sub [0x0D, 0x0A, 0x0D, 0x0A] buf 0"

definition http_connect_request :: "string \<Rightarrow> u16 \<Rightarrow> string option \<Rightarrow> string" where
  "http_connect_request target_host target_port auth =
     (let target = addr_of target_host target_port
      in ''CONNECT '' @ target @ '' HTTP/1.1'' @ crlf @ ''Host: '' @ target @ crlf
         @ (case auth of Some a \<Rightarrow> ''Proxy-Authorization: Basic '' @ a @ crlf | None \<Rightarrow> [])
         @ ''Proxy-Connection: keep-alive'' @ crlf @ crlf)"

definition first_line :: "bytes \<Rightarrow> string" where
  "first_line hdr =
     (let headers = (case from_utf8 hdr of Some s \<Rightarrow> s | None \<Rightarrow> ''<invalid utf8>'')
      in case lines headers of l # _ \<Rightarrow> l | [] \<Rightarrow> [])"

function http_connect_loop :: "bytes \<Rightarrow> sock \<Rightarrow> (conn_error, sock) outcome" where
  "http_connect_loop acc s =
     (case read (4096 - length acc) s of
        Err e \<Rightarrow> Err (Io e)
      | Hang \<Rightarrow> Hang
      | Got (b, s') \<Rightarrow>
          if b = [] then Err HttpProxyClosed
          else
            (let acc' = acc @ b
             in case find_crlfcrlf acc' of
                  Some i \<Rightarrow>
                    if \<not> contains_sub (first_line (take i acc')) ''200''
                    then Err (HttpConnectFailed (first_line (take i acc')))
                    else Got s'
                | None \<Rightarrow>
                    if 4096 \<le> length acc' then Err HttpResponseTooLarge
                    else http_connect_loop acc' s'))"
  by pat_completeness auto
termination
proof (relation "measure (\<lambda>(acc, s). 4096 - length acc)")
  fix acc s x y b s' acc'
  assume "read (4096 - length acc) s = Got x" "(b, s') = x" "b \<noteq> []" "acc' = acc @ b"
    "\<not> 4096 \<le> length acc'"
  then show "((acc', s'), acc, s) \<in> measure (\<lambda>(acc, s). 4096 - length acc)" by (cases b) auto
qed simp

declare http_connect_loop.simps [simp del]

definition http_connect ::
    "network \<Rightarrow> string \<Rightarrow> u16 \<Rightarrow> string \<Rightarrow> u16 \<Rightarrow> string option \<Rightarrow> (conn_error, sock) outcome" where
  "http_connect dial proxy_host proxy_port target_host target_port auth =
     and_then (tcp_connect dial proxy_host proxy_port) (\<lambda>s.
     and_then (send (as_bytes (http_connect_request target_host target_port auth)) s) (\<lambda>s.
       http_connect_loop [] s))"

fun connect :: "network \<Rightarrow> upstream_proxy \<Rightarrow> string \<Rightarrow> u16 \<Rightarrow> (conn_error, sock) outcome" where
  "connect dial Direct target_host target_port = tcp_connect dial target_host target_port"
| "connect dial (Socks5 host port username password) target_host target_port =
     socks5_connect dial host port target_host target_port username password"
| "connect dial (Http host port auth) target_host target_port =
     http_connect dial host port target_host target_port auth"

section \<open>Probes\<close>

fun probe_upstream_inner :: "network \<Rightarrow> upstream_proxy \<Rightarrow> (conn_error, unit) outcome" where
  "probe_upstream_inner dial Direct = Got ()"
| "probe_upstream_inner dial (Socks5 host port username _) =
     and_then (tcp_connect dial host port) (\<lambda>s.
     and_then (send [5, 1, auth_method username] s) (\<lambda>s.
     and_then (recv 2 s) (\<lambda>(resp, s).
       if resp ! 0 \<noteq> 5 then Err (BadVersion (resp ! 0))
       else if resp ! 1 = 0xFF then Err NoAcceptableMethod
       else Got ())))"
| "probe_upstream_inner dial (Http host port _) =
     and_then (tcp_connect dial host port) (\<lambda>_. Got ())"

definition probe_upstream :: "network \<Rightarrow> upstream_proxy \<Rightarrow> (conn_error, unit) outcome" where
  "probe_upstream dial proxy = with_timeout ProbeTimedOut (probe_upstream_inner dial proxy)"

definition be16_of :: "nat \<Rightarrow> bytes" where
  "be16_of n = u16_to_be (of_nat n)"

definition build_minimal_tls_client_hello :: "string \<Rightarrow> bytes" where
  "build_minimal_tls_client_hello sni_host =
     (let sni_bytes = as_bytes sni_host;
          extensions = [0, 0] @ be16_of (5 + length sni_bytes) @ be16_of (3 + length sni_bytes)
            @ [0] @ be16_of (length sni_bytes) @ sni_bytes;
          ciphers = [0x13, 0x01, 0xc0, 0x2f, 0x00, 0x2f];
          body = [3, 3] @ replicate 32 0 @ [0] @ be16_of (length ciphers) @ ciphers @ [1, 0]
            @ be16_of (length extensions) @ extensions;
          hs_len = (of_nat (length body) :: u32);
          handshake = [1, ucast (drop_bit 16 hs_len AND 0xff), ucast (drop_bit 8 hs_len AND 0xff),
                       ucast (hs_len AND 0xff)] @ body
      in [0x16, 3, 1] @ be16_of (length handshake) @ handshake)"

text \<open>
  Every read and write of \<open>verify_tunnel_alive\<close> runs under what is left of the budget, so none of
  them can block.
\<close>

definition verify_tunnel_alive :: "sock \<Rightarrow> string \<Rightarrow> u16 \<Rightarrow> (conn_error, unit) outcome" where
  "verify_tunnel_alive s probe_host probe_port =
     (if probe_port = 443 \<or> probe_port = 8443 \<or> probe_port = 2053 then
        and_then (with_timeout ProbeTimedOut (send (build_minimal_tls_client_hello probe_host) s)) (\<lambda>s.
        and_then (with_timeout ProbeTimedOut (recv 5 s)) (\<lambda>(hdr, s).
          if hdr ! 0 \<noteq> 0x16 \<and> hdr ! 0 \<noteq> 0x15 then Err (TlsBadContentType (hdr ! 0))
          else
            (let rec_len = unat (u16_from_be (hdr ! 3) (hdr ! 4))
             in if rec_len = 0 \<or> 16384 < rec_len then Err (TlsBadRecordLength rec_len)
                else and_then (with_timeout ProbeTimedOut (recv rec_len s)) (\<lambda>_. Got ()))))
      else
        and_then (with_timeout ProbeTimedOut
          (send (as_bytes (''HEAD / HTTP/1.0'' @ crlf @ ''Host: '' @ probe_host @ crlf
                 @ ''Connection: close'' @ crlf @ crlf)) s)) (\<lambda>s.
        and_then (with_timeout ProbeTimedOut (map_err Io (read 16 s))) (\<lambda>(b, s).
          if b = [] then Err EmptyReply else Got ())))"

text \<open>\<open>time_left\<close> says whether the connect left any of its budget for the check.\<close>

definition check_upstream_one ::
    "network \<Rightarrow> bool \<Rightarrow> upstream_proxy \<Rightarrow> string \<Rightarrow> u16 \<Rightarrow> (conn_error, unit) outcome" where
  "check_upstream_one dial time_left proxy probe_host probe_port =
     and_then (connect dial proxy probe_host probe_port) (\<lambda>s.
       if \<not> time_left then Err ProbeTimedOut
       else verify_tunnel_alive s probe_host probe_port)"

fun check_targets ::
    "network \<Rightarrow> (string \<times> u16 \<Rightarrow> bool) \<Rightarrow> upstream_proxy \<Rightarrow> (string \<times> u16) list \<Rightarrow> (conn_error, unit) outcome" where
  "check_targets dial time_left proxy [] = Got ()"
| "check_targets dial time_left proxy ((host, port) # ps) =
     and_then (check_upstream_one dial (time_left (host, port)) proxy host port)
       (\<lambda>_. check_targets dial time_left proxy ps)"

definition check_upstream ::
    "network \<Rightarrow> (string \<times> u16 \<Rightarrow> bool) \<Rightarrow> upstream_proxy \<Rightarrow> (string \<times> u16) list \<Rightarrow> (conn_error, unit) outcome" where
  "check_upstream dial time_left proxy probes =
     (if probes = [] then Err NoProbeTargets else check_targets dial time_left proxy probes)"

text \<open>
  \<open>ensure_upstream_ready\<close>: \<open>net k\<close> is the network at the k-th attempt and \<open>cost k\<close> the time that
  attempt takes; \<open>now\<close> is the clock. A loop that does not end is \<open>None\<close>, otherwise the result is
  the number of attempts and the last error, if any.
\<close>

partial_function (option) ensure_loop ::
    "(nat \<Rightarrow> network) \<Rightarrow> (nat \<Rightarrow> nat) \<Rightarrow> upstream_proxy \<Rightarrow> nat \<Rightarrow> nat \<Rightarrow> nat \<Rightarrow> nat
     \<Rightarrow> (nat \<times> conn_error option) option" where
  "ensure_loop net cost proxy deadline interval attempt now =
     (let attempt = Suc attempt;
          now = now + cost attempt
      in case probe_upstream (net attempt) proxy of
           Got _ \<Rightarrow> Some (attempt, None)
         | Hang \<Rightarrow> None
         | Err e \<Rightarrow>
             (let remaining = deadline - now
              in if remaining = 0 then Some (attempt, Some e)
                 else ensure_loop net cost proxy deadline interval attempt
                        (now + min interval remaining)))"

definition ensure_upstream_ready ::
    "(nat \<Rightarrow> network) \<Rightarrow> (nat \<Rightarrow> nat) \<Rightarrow> upstream_proxy \<Rightarrow> nat \<Rightarrow> nat \<Rightarrow> nat \<Rightarrow> bool
     \<Rightarrow> (conn_error, bool) outcome" where
  "ensure_upstream_ready net cost proxy now wait_time interval required =
     (if proxy = Direct then and_then (probe_upstream (net 1) proxy) (\<lambda>_. Got True)
      else case ensure_loop net cost proxy (now + wait_time) interval 0 now of
             None \<Rightarrow> Hang
           | Some (_, None) \<Rightarrow> Got True
           | Some (attempt, Some e) \<Rightarrow>
               if required then Err (StillUnreachable attempt e) else Got False)"

section \<open>The SOCKS5 request as the proxy reads it\<close>

datatype socks_target = TargetIp ip_addr | TargetName bytes

fun pairs16 :: "bytes \<Rightarrow> u16 list" where
  "pairs16 (a # b # bs) = u16_from_be a b # pairs16 bs"
| "pairs16 _ = []"

text \<open>The CONNECT request of RFC 1928, section 4, read back.\<close>

definition decode_socks5_request :: "bytes \<Rightarrow> (socks_target \<times> u16) option" where
  "decode_socks5_request r =
     (if length r < 5 \<or> take 3 r \<noteq> [5, 1, 0] then None
      else
        (let atyp = r ! 3; body = drop 4 r
         in if atyp = 1 \<and> length body = 6
            then Some (TargetIp (V4 (take 4 body)), u16_from_be (body ! 4) (body ! 5))
            else if atyp = 4 \<and> length body = 18
            then Some (TargetIp (V6 (pairs16 (take 16 body))), u16_from_be (body ! 16) (body ! 17))
            else if atyp = 3 \<and> length body = unat (body ! 0) + 3
            then Some (TargetName (take (unat (body ! 0)) (drop 1 body)),
                       u16_from_be (body ! (unat (body ! 0) + 1)) (body ! (unat (body ! 0) + 2)))
            else None))"

lemma unat_drop_bit_8: "unat (drop_bit 8 (w :: u16)) = unat w div 256"
  unfolding unat_drop_bit_eq by (simp add: drop_bit_eq_div)

lemma port_bytes_be: "port_bytes p = u16_to_be p"
proof -
  have "unat (ucast p :: byte) = unat p mod 256"
    by (simp add: unsigned_ucast_eq take_bit_eq_mod)
  moreover have "unat (ucast (drop_bit 8 p) :: byte) = unat p div 256"
    using u16_div_bound [of p] by (simp add: unsigned_ucast_eq take_bit_eq_mod unat_drop_bit_8)
  ultimately have "(ucast p :: byte) = of_nat (unat p mod 256)"
    "(ucast (drop_bit 8 p) :: byte) = of_nat (unat p div 256)"
    using u16_div_bound [of p] by (auto intro!: unsigned_word_eqI [where ?'a = nat])
  then show ?thesis by (simp add: port_bytes_def u16_to_be_def)
qed

lemma pairs16_octets: "pairs16 (concat (map u16_to_be gs)) = gs"
  by (induction gs) (simp_all add: u16_to_be_def)

lemma length_octets: "ip_wf ip \<Longrightarrow> length (octets ip) = (case ip of V4 _ \<Rightarrow> 4 | V6 _ \<Rightarrow> 16)"
proof (cases ip)
  case (V6 gs)
  assume "ip_wf ip"
  moreover have "length (concat (map u16_to_be gs)) = 2 * length gs" for gs
    by (induction gs) auto
  ultimately show ?thesis using V6 by simp
qed simp

lemma decode_name_request:
  assumes "length hb \<le> 255"
  shows "decode_socks5_request ([5, 1, 0, 3, of_nat (length hb)] @ hb @ port_bytes p)
    = Some (TargetName hb, p)"
  using assms
  by (simp add: decode_socks5_request_def Let_def port_bytes_be u16_to_be_def nth_append)

lemma decode_ip_request:
  assumes "ip_wf ip"
  shows "decode_socks5_request
      ([5, 1, 0] @ [case ip of V4 _ \<Rightarrow> 1 | V6 _ \<Rightarrow> 4] @ octets ip @ port_bytes p)
    = Some (TargetIp ip, p)"
  using assms length_octets [OF assms]
  by (cases ip) (simp_all add: decode_socks5_request_def Let_def port_bytes_be u16_to_be_def
    nth_append pairs16_octets)

text \<open>a CONNECT request decodes, as RFC 1928 reads it, to the destination it was built for: the
  parsed address if the host is an IP address, the host name otherwise, and the port in network
  order. Building fails only for a name of more than 255 bytes.\<close>

theorem socks5_request_roundtrip:
  "case build_socks5_connect_request host port of
     Got req \<Rightarrow> decode_socks5_request req
       = Some (case parse_ip_addr host of Some ip \<Rightarrow> TargetIp ip | None \<Rightarrow> TargetName (as_bytes host), port)
   | Err e \<Rightarrow> e = HostnameTooLong \<and> parse_ip_addr host = None \<and> 255 < length host
   | Hang \<Rightarrow> False"
proof (cases "parse_ip_addr host")
  case None
  then show ?thesis
    using decode_name_request [of "as_bytes host" port]
    by (simp add: build_socks5_connect_request_def Let_def)
next
  case (Some ip)
  then show ?thesis
    using decode_ip_request [OF parse_ip_wf [OF Some]]
    by (simp add: build_socks5_connect_request_def)
qed

section \<open>The handshakes\<close>

lemma recv_Got:
  assumes "incoming s = b @ rest" and "n = length b"
  obtains s' where "recv n s = Got (b, s')" "incoming s' = rest" "sk_out s' = sk_out s"
    "sk_room s' = sk_room s"
  using read_exact_Got [OF assms] by (auto simp: recv_def)

lemma send_Got:
  assumes "sk_room s = None"
  obtains s' where "send b s = Got s'" "incoming s' = incoming s" "sk_out s' = sk_out s @ [b]"
    "sk_end s' = sk_end s" "sk_in s' = sk_in s" "sk_room s' = None"
proof
  show "send b s = Got (s\<lparr>sk_out := sk_out s @ [b]\<rparr>)"
    using assms by (simp add: send_def write_all_def)
qed (use assms in \<open>simp_all add: incoming_def\<close>)

definition bound_addr :: "byte \<Rightarrow> bytes \<Rightarrow> bool" where
  "bound_addr atyp b \<longleftrightarrow>
     atyp = 1 \<and> length b = 6 \<or> atyp = 4 \<and> length b = 18
     \<or> atyp = 3 \<and> b \<noteq> [] \<and> length b = unat (hd b) + 3"

lemma skip_bound_addr:
  assumes "bound_addr atyp b" and "incoming s = b @ rest"
  obtains s' where "skip_socks5_addr s atyp = Got s'" "incoming s' = rest" "sk_out s' = sk_out s"
proof -
  from assms(1) consider "atyp = 1" "length b = 6" | "atyp = 4" "length b = 18"
    | l b' where "atyp = 3" "b = l # b'" "length b' = unat l + 2"
    unfolding bound_addr_def by (cases b) auto
  then show thesis
  proof cases
    case 1
    from recv_Got [OF assms(2), of 6] 1 obtain s1 where
      "recv 6 s = Got (b, s1)" "incoming s1 = rest" "sk_out s1 = sk_out s" by metis
    with 1 that show ?thesis by (simp add: skip_socks5_addr_def)
  next
    case 2
    from recv_Got [OF assms(2), of 18] 2 obtain s1 where
      "recv 18 s = Got (b, s1)" "incoming s1 = rest" "sk_out s1 = sk_out s" by metis
    with 2 that show ?thesis by (simp add: skip_socks5_addr_def)
  next
    case 3
    from assms(2) 3 have "incoming s = [l] @ (b' @ rest)" by simp
    from recv_Got [OF this, of 1] obtain s1 where
      s1: "recv 1 s = Got ([l], s1)" "incoming s1 = b' @ rest" "sk_out s1 = sk_out s" by auto
    from recv_Got [OF s1(2), of "unat l + 2"] 3 obtain s2 where
      "recv (unat l + 2) s1 = Got (b', s2)" "incoming s2 = rest" "sk_out s2 = sk_out s1" by auto
    with s1 3 that show ?thesis by (simp add: skip_socks5_addr_def)
  qed
qed

lemma authenticate_Got:
  assumes "m = 0 \<or> m = 2" and "incoming s = (if m = 2 then [v, 0] else []) @ rest"
    and "sk_room s = None"
  obtains s' where "socks5_authenticate m username password s = Got s'" "incoming s' = rest"
    "sk_room s' = None"
    "sk_out s' = sk_out s
       @ (if m = 2 then [auth_request (or_empty username) (or_empty password)] else [])"
proof (cases "m = 2")
  case True
  let ?a = "auth_request (or_empty username) (or_empty password)"
  from send_Got [OF assms(3), of ?a] obtain s1 where
    s1: "send ?a s = Got s1" "incoming s1 = incoming s" "sk_out s1 = sk_out s @ [?a]"
      "sk_room s1 = None" by metis
  have "incoming s1 = [v, 0] @ rest" using s1(2) assms(2) True by simp
  from recv_Got [OF this, of 2] obtain s2 where
    "recv 2 s1 = Got ([v, 0], s2)" "incoming s2 = rest" "sk_out s2 = sk_out s1"
    "sk_room s2 = sk_room s1" by auto
  with s1 True that show ?thesis by (simp add: socks5_authenticate_def)
next
  case False
  with assms that show ?thesis by (simp add: socks5_authenticate_def)
qed

text \<open>C26: a handshake with a proxy that answers as RFC 1928 and RFC 1929 prescribe succeeds
  whatever the chunks its answer arrives in, sends the greeting, the credentials only if asked for
  them and the request, in this order, and leaves exactly the tunnelled bytes to be read.\<close>

theorem socks5_handshake:
  assumes "dial (addr_of proxy_host proxy_port) = Up s" and "sk_room s = None"
    and "m = 0 \<or> m = 2" and "bound_addr atyp b"
    and "incoming s = [5, m] @ (if m = 2 then [v, 0] else []) @ [5, 0, rsv, atyp] @ b @ rest"
    and "build_socks5_connect_request target_host target_port = Got req"
  shows "\<exists>s'. socks5_connect dial proxy_host proxy_port target_host target_port username password
      = Got s' \<and> incoming s' = rest
    \<and> sk_out s' = sk_out s @ [[5, 1, auth_method username]]
      @ (if m = 2 then [auth_request (or_empty username) (or_empty password)] else []) @ [req]"
proof -
  let ?greet = "[5, 1, auth_method username]"
  let ?rest2 = "[5, 0, rsv, atyp] @ b @ rest"
  from send_Got [OF assms(2), of ?greet] obtain s1 where
    s1: "send ?greet s = Got s1" "incoming s1 = incoming s" "sk_out s1 = sk_out s @ [?greet]"
      "sk_room s1 = None" by metis
  have "incoming s1 = [5, m] @ ((if m = 2 then [v, 0] else []) @ ?rest2)" using s1(2) assms(5) by simp
  from recv_Got [OF this, of 2] obtain s2 where
    s2: "recv 2 s1 = Got ([5, m], s2)" "incoming s2 = (if m = 2 then [v, 0] else []) @ ?rest2"
      "sk_out s2 = sk_out s1" "sk_room s2 = sk_room s1" by auto
  from s2(4) s1(4) have "sk_room s2 = None" by simp
  from authenticate_Got [OF assms(3) s2(2) this, of username password] obtain s3 where
    s3: "socks5_authenticate m username password s2 = Got s3" "incoming s3 = ?rest2"
      "sk_room s3 = None" "sk_out s3 = sk_out s2
         @ (if m = 2 then [auth_request (or_empty username) (or_empty password)] else [])" by metis
  from send_Got [OF s3(3), of req] obtain s4 where
    s4: "send req s3 = Got s4" "incoming s4 = incoming s3" "sk_out s4 = sk_out s3 @ [req]" by metis
  from s4(2) s3(2) have "incoming s4 = [5, 0, rsv, atyp] @ (b @ rest)" by simp
  from recv_Got [OF this, of 4] obtain s5 where
    s5: "recv 4 s4 = Got ([5, 0, rsv, atyp], s5)" "incoming s5 = b @ rest" "sk_out s5 = sk_out s4"
    by auto
  from skip_bound_addr [OF assms(4) s5(2)] obtain s6 where
    "skip_socks5_addr s5 atyp = Got s6" "incoming s6 = rest" "sk_out s6 = sk_out s5" by metis
  with s1 s2 s3 s4 s5 assms(1,6) show ?thesis
    by (simp add: socks5_connect_def tcp_connect_def)
qed

definition sample_proxy :: sock where
  "sample_proxy = \<lparr>sk_in = [[5], [2, 1, 0, 5, 0, 0], [1, 127, 0, 0, 1, 0, 80, 22, 3]],
     sk_end = Closed, sk_out = [], sk_room = None\<rparr>"

theorem socks5_handshake_witness:
  "\<exists>s'. socks5_connect (\<lambda>_. Up sample_proxy) ''p'' 1080 ''a.io'' 443 (Some ''u'') (Some ''pw'') = Got s'
    \<and> incoming s' = [22, 3]
    \<and> sk_out s' = [[5, 1, 2], [1, 1, 117, 2, 112, 119], [5, 1, 0, 3, 4, 97, 46, 105, 111, 1, 187]]"
proof -
  have "build_socks5_connect_request ''a.io'' 443 = Got [5, 1, 0, 3, 4, 97, 46, 105, 111, 1, 187]"
    by code_simp
  moreover have "auth_request (or_empty (Some ''u'')) (or_empty (Some ''pw'')) = [1, 1, 117, 2, 112, 119]"
    by code_simp
  ultimately show ?thesis
    using socks5_handshake [of "\<lambda>_. Up sample_proxy" "''p''" 1080 sample_proxy 2 1
        "[127, 0, 0, 1, 0, 80]" 1 0 "[22, 3]" "''a.io''" 443 _ "Some ''u''" "Some ''pw''"]
    by (simp add: sample_proxy_def incoming_def bound_addr_def auth_method_def)
qed

section \<open>Which operations return\<close>

lemma and_then_Hang: "and_then x f = Hang \<longleftrightarrow> x = Hang \<or> (\<exists>y. x = Got y \<and> f y = Hang)"
  by (cases x) auto

lemma and_then_Got: "and_then x f = Got z \<longleftrightarrow> (\<exists>y. x = Got y \<and> f y = Got z)"
  by (cases x) auto

lemmas outcome_iffs = and_then_Hang and_then_Got

lemma map_err_Hang [simp]: "map_err g x = Hang \<longleftrightarrow> x = Hang"
  by (cases x) auto

lemma map_err_Got [simp]: "map_err g x = Got y \<longleftrightarrow> x = Got y"
  by (cases x) auto

lemma send_returns [simp]: "send b s \<noteq> Hang"
  by (simp add: send_def write_all_def)

lemma send_end: "send b s = Got s' \<Longrightarrow> sk_end s' = sk_end s"
  by (auto simp: send_def write_all_def split: if_splits)

lemma recv_returns: "sk_end s \<noteq> Silent \<Longrightarrow> recv n s \<noteq> Hang"
  by (auto simp: recv_def read_exact_def split: option.splits stream_end.splits)

lemma recv_end: "recv n s = Got (b, s') \<Longrightarrow> sk_end s' = sk_end s"
  by (auto simp: recv_def read_exact_def split: option.splits stream_end.splits)

lemma tcp_connect_returns [simp]: "tcp_connect dial host port \<noteq> Hang"
  by (simp add: tcp_connect_def split: dial_result.split)

lemma http_connect_loop_returns: "sk_end s \<noteq> Silent \<Longrightarrow> http_connect_loop acc s \<noteq> Hang"
proof (induction acc s rule: http_connect_loop.induct)
  case (1 acc s)
  show ?case
  proof (cases "read (4096 - length acc) s")
    case (Got r)
    obtain b s' where r: "r = (b, s')" by (cases r)
    from Got r have "sk_end s' = sk_end s" by (simp add: read_progress)
    with 1 Got r show ?thesis
      by (subst http_connect_loop.simps) (auto simp: Let_def split: option.split)
  next
    case Hang
    with 1(2) show ?thesis by (simp add: read_def split: list.splits stream_end.splits)
  qed (subst http_connect_loop.simps, simp)
qed

lemmas connector_returns = recv_returns http_connect_loop_returns

lemmas connector_ends = send_end recv_end

lemma socks5_authenticate_returns:
  "sk_end s \<noteq> Silent \<Longrightarrow> socks5_authenticate m username password s \<noteq> Hang"
  by (auto simp: socks5_authenticate_def outcome_iffs connector_returns
    dest: connector_ends split: if_splits)

lemma socks5_authenticate_end:
  "socks5_authenticate m username password s = Got s' \<Longrightarrow> sk_end s' = sk_end s"
  by (auto simp: socks5_authenticate_def outcome_iffs recv_end send_end split: if_splits)

lemma skip_returns: "sk_end s \<noteq> Silent \<Longrightarrow> skip_socks5_addr s atyp \<noteq> Hang"
  by (auto simp: skip_socks5_addr_def outcome_iffs connector_returns
    dest: connector_ends split: if_splits)

lemma build_returns: "build_socks5_connect_request host port \<noteq> Hang"
  by (simp add: build_socks5_connect_request_def Let_def split: option.split)

lemma tcp_connect_Got: "tcp_connect dial host port = Got s \<longleftrightarrow> dial (addr_of host port) = Up s"
  by (simp add: tcp_connect_def split: dial_result.split)

lemma socks5_connect_returns:
  assumes "\<And>s. dial (addr_of proxy_host proxy_port) = Up s \<Longrightarrow> sk_end s \<noteq> Silent"
  shows "socks5_connect dial proxy_host proxy_port host port username password \<noteq> Hang"
  using assms
  by (auto simp: socks5_connect_def outcome_iffs tcp_connect_Got connector_returns
    socks5_authenticate_returns socks5_authenticate_end skip_returns build_returns
    dest!: connector_ends split: if_splits)

lemma http_connect_returns:
  assumes "\<And>s. dial (addr_of proxy_host proxy_port) = Up s \<Longrightarrow> sk_end s \<noteq> Silent"
  shows "http_connect dial proxy_host proxy_port host port auth \<noteq> Hang"
  using assms
  by (auto simp: http_connect_def outcome_iffs tcp_connect_Got connector_returns
    dest!: connector_ends)

text \<open>connecting always comes to an end, with a tunnel or an error, if the proxy does not fall
  silent in the middle of the handshake; a direct connection always does.\<close>

theorem connect_returns:
  assumes "\<And>host port s. host_port proxy = Some (host, port) \<Longrightarrow>
      dial (addr_of host port) = Up s \<Longrightarrow> sk_end s \<noteq> Silent"
  shows "connect dial proxy target_host target_port \<noteq> Hang"
  using assms by (cases proxy) (simp_all add: socks5_connect_returns http_connect_returns)

theorem connect_returns_witness:
  "connect (\<lambda>_. Up sample_proxy) (Http ''p'' 3128 None) ''a.io'' 443 \<noteq> Hang"
  by (rule connect_returns) (auto simp: sample_proxy_def)

lemma silent_connect_hangs:
  assumes "host_port proxy = Some (host, port)" and "dial (addr_of host port) = Up s"
    and "sk_in s = []" and "sk_end s = Silent" and "sk_room s = None"
  shows "connect dial proxy target_host target_port = Hang"
proof -
  have r: "recv 2 s' = Hang" and h: "http_connect_loop [] s' = Hang"
    if "sk_in s' = []" "sk_end s' = Silent" for s'
    using that read_exact_short [of s' 2]
    by (simp_all add: recv_def incoming_def http_connect_loop.simps read_def)
  have s1: "\<exists>s1. send b s = Got s1 \<and> sk_end s1 = Silent \<and> sk_in s1 = []" for b
    using send_Got [OF assms(5), of b] assms(3,4) by metis
  have "and_then (send b s) (\<lambda>s. and_then (recv 2 s) f) = Hang"
    and "and_then (send b s) (http_connect_loop []) = Hang" for b f
    using s1 [of b] r h by auto
  then show ?thesis
    using assms(1,2)
    by (cases proxy) (simp_all add: socks5_connect_def http_connect_def tcp_connect_def)
qed

text \<open>the timeout of a connect covers the TCP connection only: a proxy that accepts and then
  says nothing keeps \<open>connect\<close> waiting for ever, so the next candidate is never tried. The start-up
  probe, whose timeout covers the handshake, returns an error for the same proxy if it is SOCKS5.\<close>

theorem silent_proxy_stalls_connect:
  assumes "host_port proxy = Some (host, port)" and "dial (addr_of host port) = Up s"
    and "sk_in s = []" and "sk_end s = Silent" and "sk_room s = None"
  shows "connect dial proxy target_host target_port = Hang \<and> probe_upstream dial proxy \<noteq> Hang"
  using silent_connect_hangs [where dial = dial, OF assms] by (simp add: probe_upstream_def with_timeout_returns)

theorem silent_proxy_stalls_connect_witness:
  "connect (\<lambda>_. Up (sample_proxy\<lparr>sk_in := [], sk_end := Silent\<rparr>)) (Socks5 ''p'' 1080 None None) ''a.io'' 443
     = Hang"
  using silent_proxy_stalls_connect [of "Socks5 ''p'' 1080 None None" "''p''" 1080
      "\<lambda>_. Up (sample_proxy\<lparr>sk_in := [], sk_end := Silent\<rparr>)"]
  by (simp add: sample_proxy_def)

section \<open>Start-up\<close>

definition rounds :: "nat \<Rightarrow> nat \<Rightarrow> nat" where
  "rounds interval d = (d + interval - 1) div interval"

lemma rounds_step:
  assumes "0 < interval" and "r \<le> d" and "0 < r"
  shows "rounds interval (r - min interval r) + 1 \<le> rounds interval d"
proof (cases "interval \<le> r")
  case True
  then have "(r - interval + interval - 1) + interval \<le> d + interval - 1" using assms by simp
  then have "((r - interval + interval - 1) + interval) div interval \<le> (d + interval - 1) div interval"
    by (rule div_le_mono)
  moreover have "(x + interval) div interval = x div interval + 1" for x
    using assms(1) by (simp add: div_add_self2)
  ultimately show ?thesis using True unfolding rounds_def by (metis min_absorb1)
next
  case False
  then have "interval \<le> d + interval - 1" using assms by simp
  then have "interval div interval \<le> (d + interval - 1) div interval" by (rule div_le_mono)
  with False assms(1) show ?thesis by (simp add: rounds_def)
qed

text \<open>The sleeps alone reach the deadline after \<open>rounds interval wait_time\<close> rounds.\<close>

lemma ensure_loop_returns:
  assumes "0 < interval"
  shows "\<exists>k r. ensure_loop net cost proxy deadline interval attempt now = Some (k, r)
    \<and> k \<le> attempt + rounds interval (deadline - now) + 1"
proof (induction "deadline - now" arbitrary: now attempt rule: less_induct)
  case less
  let ?now = "now + cost (Suc attempt)"
  show ?case
  proof (cases "probe_upstream (net (Suc attempt)) proxy")
    case (Err e)
    show ?thesis
    proof (cases "deadline - ?now = 0")
      case True
      with Err show ?thesis by (subst ensure_loop.simps) (simp add: Let_def)
    next
      case False
      let ?rem = "deadline - ?now"
      let ?next = "?now + min interval ?rem"
      from False assms have "deadline - ?next < deadline - now" by simp
      from less [OF this, of "Suc attempt"] obtain k r where
        k: "ensure_loop net cost proxy deadline interval (Suc attempt) ?next = Some (k, r)"
          "k \<le> Suc attempt + rounds interval (deadline - ?next) + 1" by blast
      have "rounds interval (?rem - min interval ?rem) + 1 \<le> rounds interval (deadline - now)"
        using False by (intro rounds_step [OF assms]) simp_all
      with k(2) have "k \<le> attempt + rounds interval (deadline - now) + 1" by simp
      with k(1) Err False show ?thesis by (subst ensure_loop.simps) (simp add: Let_def)
    qed
  next
    case (Got u)
    then show ?thesis by (subst ensure_loop.simps) simp
  next
    case Hang
    then show ?thesis by (simp add: probe_upstream_def with_timeout_returns)
  qed
qed

text \<open>waiting for the upstream at start-up always ends: with a positive retry interval the result
  is true if a probe succeeded, and otherwise, after at most \<open>wait_time\<close> divided by \<open>interval\<close>,
  rounded up, and one more attempt, an error if the probe is required and false if it is not.\<close>

theorem ensure_upstream_ready_returns:
  assumes "0 < interval"
  shows "case ensure_upstream_ready net cost proxy now wait_time interval required of
      Got b \<Rightarrow> b \<or> \<not> required
    | Err e \<Rightarrow> required \<and> (\<exists>k d. e = StillUnreachable k d \<and> k \<le> rounds interval wait_time + 1)
    | Hang \<Rightarrow> False"
proof (cases "proxy = Direct")
  case True
  then show ?thesis by (simp add: ensure_upstream_ready_def probe_upstream_def)
next
  case False
  from ensure_loop_returns [OF assms, of net cost proxy "now + wait_time" 0 now] obtain k r where
    "ensure_loop net cost proxy (now + wait_time) interval 0 now = Some (k, r)"
    "k \<le> rounds interval wait_time + 1" by auto
  with False show ?thesis by (cases r) (simp_all add: ensure_upstream_ready_def)
qed

theorem ensure_upstream_ready_returns_witness:
  "ensure_upstream_ready (\<lambda>_ _. Refused) (\<lambda>_. 3) (Http ''p'' 80 None) 0 10 4 False = Got False"
proof -
  have l: "ensure_loop (\<lambda>_ _. Refused) (\<lambda>_. 3) (Http ''p'' 80 None) 10 4 0 0 = Some (2, Some ConnectFailed)"
    by (subst ensure_loop.simps, subst ensure_loop.simps)
      (simp add: probe_upstream_def tcp_connect_def Let_def numeral_2_eq_2)
  then show ?thesis
    using ensure_upstream_ready_returns [where interval = 4 and net = "\<lambda>_ _. Refused" and cost = "\<lambda>_. 3"
        and proxy = "Http ''p'' 80 None" and now = 0 and wait_time = 10 and required = False]
    by (simp add: ensure_upstream_ready_def)
qed

end
