(* ===== verification/Relay_Monitor.thy ===== *)
theory Relay_Monitor
  imports Relay_Registry Relay_Connector Relay_Telegram
begin

text \<open>
  The upstream monitor of \<open>src/upstream_monitor.rs\<close>. Instants and durations are milliseconds. The
  theorems show that the health machine implements "so many results in a row" exactly, that alerts
  of one endpoint keep the cooldown, that every profile is watched through exactly one endpoint, and
  that an upstream which accepts connections and then says nothing stops the monitor.
\<close>

section \<open>The health machine\<close>

datatype health = HealthUp | HealthDown

record profile_state =
  ps_health :: health
  ps_fails :: u32
  ps_oks :: u32
  ps_last_error :: "string option"
  ps_last_notify :: "nat option"
  ps_down_since :: "nat option"

definition default_profile_state :: profile_state where
  "default_profile_state = \<lparr>ps_health = HealthUp, ps_fails = 0, ps_oks = 0, ps_last_error = None,
     ps_last_notify = None, ps_down_since = None\<rparr>"

datatype transition = WentDown string | Recovered nat | NoTransition

definition apply_probe_result ::
    "profile_state \<Rightarrow> bool \<Rightarrow> string option \<Rightarrow> u32 \<Rightarrow> u32 \<Rightarrow> nat \<Rightarrow> profile_state \<times> transition" where
  "apply_probe_result st ok err fail_threshold recover_threshold now =
     (if ok then
        (let st = st\<lparr>ps_oks := u32_saturating_add (ps_oks st) 1, ps_fails := 0, ps_last_error := None\<rparr>
         in if ps_health st = HealthDown \<and> ps_oks st \<ge> max recover_threshold 1 then
              (let downtime = (case ps_down_since st of Some t \<Rightarrow> now - t | None \<Rightarrow> 0)
               in (st\<lparr>ps_health := HealthUp, ps_down_since := None, ps_oks := 0\<rparr>, Recovered downtime))
            else (st, NoTransition))
      else
        (let st = st\<lparr>ps_fails := u32_saturating_add (ps_fails st) 1, ps_oks := 0\<rparr>;
             st = (case err of Some e \<Rightarrow> st\<lparr>ps_last_error := Some e\<rparr> | None \<Rightarrow> st)
         in if ps_health st = HealthUp \<and> ps_fails st \<ge> max fail_threshold 1 then
              (st\<lparr>ps_health := HealthDown, ps_down_since := Some now, ps_fails := 0\<rparr>,
               WentDown (case ps_last_error st of Some e \<Rightarrow> e | None \<Rightarrow> ''unknown error''))
            else (st, NoTransition)))"

definition cooldown_ok :: "profile_state \<Rightarrow> nat \<Rightarrow> nat \<Rightarrow> bool" where
  "cooldown_ok st cooldown now =
     (case ps_last_notify st of None \<Rightarrow> True | Some t \<Rightarrow> now - t \<ge> cooldown)"

section \<open>Messages\<close>

definition format_duration :: "nat \<Rightarrow> string" where
  "format_duration d =
     (let secs = d div 1000
      in if secs < 60 then show_nat secs @ ''s''
         else if secs < 3600 then show_nat (secs div 60) @ ''m '' @ show_nat (secs mod 60) @ ''s''
         else show_nat (secs div 3600) @ ''h '' @ show_nat (secs mod 3600 div 60) @ ''m'')"

fun endpoint_key :: "upstream_proxy \<Rightarrow> string" where
  "endpoint_key (Socks5 host port _ _) = ''socks5|'' @ host @ ''|'' @ show_nat (unat port)"
| "endpoint_key (Http host port _) = ''http|'' @ host @ ''|'' @ show_nat (unat port)"
| "endpoint_key Direct = ''direct''"

definition profiles_label :: "string list \<Rightarrow> string" where
  "profiles_label names = join '', '' names"

text \<open>A character is a byte that does not continue one, with the continuation bytes after it.\<close>

definition chars_count :: "string \<Rightarrow> nat" where
  "chars_count s = length (filter (\<lambda>c. \<not> is_cont (of_char c)) s)"

fun take_chars :: "nat \<Rightarrow> string \<Rightarrow> string" where
  "take_chars n [] = []"
| "take_chars n (c # s) =
     (if is_cont (of_char c) then c # take_chars n s
      else if n = 0 then [] else c # take_chars (n - 1) s)"

definition ellipsis :: string where
  "ellipsis = [CHR 0xE2, CHR 0x80, CHR 0xA6]"

definition short_error :: "string \<Rightarrow> string" where
  "short_error err =
     (let line = trim (case lines err of l # _ \<Rightarrow> l | [] \<Rightarrow> err)
      in if chars_count line \<le> 280 then line else take_chars 280 line @ ellipsis)"

definition nl :: string where
  "nl = [CHR 0x0A]"

text \<open>The pictograms of the messages, as their UTF-8 bytes.\<close>

definition red_circle :: string where "red_circle = map char_of [0xF0, 0x9F, 0x94, 0xB4 :: nat]"
definition green_circle :: string where "green_circle = map char_of [0xF0, 0x9F, 0x9F, 0xA2 :: nat]"
definition pin :: string where "pin = map char_of [0xF0, 0x9F, 0x93, 0x8D :: nat]"
definition plug :: string where "plug = map char_of [0xF0, 0x9F, 0x94, 0x8C :: nat]"
definition dart :: string where "dart = map char_of [0xF0, 0x9F, 0x8E, 0xAF :: nat]"
definition warning_sign :: string where "warning_sign = map char_of [0xE2, 0x9A, 0xA0, 0xEF, 0xB8, 0x8F :: nat]"
definition stopwatch :: string where "stopwatch = map char_of [0xE2, 0x8F, 0xB1 :: nat]"
definition check_mark :: string where "check_mark = map char_of [0xE2, 0x9C, 0x85 :: nat]"
definition chart_down :: string where "chart_down = map char_of [0xF0, 0x9F, 0x93, 0x89 :: nat]"
definition globe :: string where "globe = map char_of [0xF0, 0x9F, 0x8C, 0x90 :: nat]"
definition middle_dot :: string where "middle_dot = map char_of [0xC2, 0xB7 :: nat]"

definition code :: "string \<Rightarrow> string" where
  "code s = ''<code>'' @ escape_html s @ ''</code>''"

definition block :: "string \<Rightarrow> string \<Rightarrow> string \<Rightarrow> string" where
  "block picture title content = picture @ '' <b>'' @ title @ ''</b>'' @ nl @ content"

definition down_message :: "string list \<Rightarrow> upstream_proxy \<Rightarrow> string \<Rightarrow> string \<Rightarrow> string" where
  "down_message profiles proxy probe_label err =
     block red_circle ''Upstream DOWN'' nl
     @ block pin ''Profiles'' (code (profiles_label profiles)) @ nl @ nl
     @ block plug ''Endpoint'' (code (show_upstream_proxy proxy)) @ nl @ nl
     @ block dart ''Probe'' (code probe_label) @ nl @ nl
     @ block warning_sign ''Error'' (''<pre>'' @ escape_html (short_error err) @ ''</pre>'')"

definition up_message :: "string list \<Rightarrow> upstream_proxy \<Rightarrow> nat \<Rightarrow> string" where
  "up_message profiles proxy downtime =
     block green_circle ''Upstream RECOVERED'' nl
     @ block pin ''Profiles'' (code (profiles_label profiles)) @ nl @ nl
     @ block plug ''Endpoint'' (code (show_upstream_proxy proxy)) @ nl @ nl
     @ block stopwatch ''Downtime'' (code (format_duration downtime))"

definition startup_message :: "upstream_monitor_config \<Rightarrow> telegram_config \<Rightarrow> string" where
  "startup_message mon tg =
     block check_mark ''SNIrelay monitor online'' nl
     @ stopwatch @ '' interval <code>'' @ show_nat (unat (max (um_interval_secs mon) 15))
     @ ''s</code> '' @ middle_dot @ '' timeout <code>'' @ show_nat (unat (max (um_timeout_secs mon) 1))
     @ ''s</code>'' @ nl
     @ chart_down @ '' fail after <code>'' @ show_nat (unat (max (um_fail_threshold mon) 1))
     @ ''</code> '' @ middle_dot @ '' recover after <code>''
     @ show_nat (unat (max (um_recover_threshold mon) 1)) @ ''</code>'' @ nl
     @ dart @ '' probe '' @ code (probe_targets_label mon) @ nl
     @ globe @ '' api '' @ code (api_base_url tg)"

section \<open>Targets\<close>

record monitor_target =
  mt_key :: string
  mt_proxy :: upstream_proxy
  mt_profiles :: "string list"

definition wanted_profiles :: "upstream_registry \<Rightarrow> upstream_monitor_config \<Rightarrow> (string \<times> upstream_proxy) list" where
  "wanted_profiles reg mon =
     (if um_profiles mon = [] then filter (\<lambda>(_, p). p \<noteq> Direct) (reg_profiles reg)
      else List.map_filter (\<lambda>name.
             case hm_get (reg_profiles reg) name of
               Some proxy \<Rightarrow> if proxy = Direct then None else Some (name, proxy)
             | None \<Rightarrow> None) (um_profiles mon))"

fun group_targets ::
    "(string, monitor_target) hash_map \<Rightarrow> (string \<times> upstream_proxy) list \<Rightarrow> (string, monitor_target) hash_map" where
  "group_targets m [] = m"
| "group_targets m ((name, proxy) # ws) =
     (let key = endpoint_key proxy
      in group_targets
           (case hm_get m key of
              Some t \<Rightarrow>
                hm_insert key (if name \<in> set (mt_profiles t) then t
                               else t\<lparr>mt_profiles := mt_profiles t @ [name]\<rparr>) m
            | None \<Rightarrow> hm_insert key \<lparr>mt_key = key, mt_proxy = proxy, mt_profiles = [name]\<rparr> m) ws)"

definition targets_to_check :: "upstream_registry \<Rightarrow> upstream_monitor_config \<Rightarrow> monitor_target list" where
  "targets_to_check reg mon =
     (let out = map snd (group_targets [] (wanted_profiles reg mon));
          out = map (\<lambda>t. t\<lparr>mt_profiles := sort (mt_profiles t)\<rparr>) out
      in sort_key (\<lambda>t. hd (mt_profiles t)) out)"

section \<open>The loop\<close>

text \<open>
  What the loop meets at each target: the network and the clock when its turn comes, and the text of
  an error.
\<close>

record monitor_env =
  mo_dial :: "string \<Rightarrow> network"
  mo_left :: "string \<times> u16 \<Rightarrow> bool"
  mo_now :: "string \<Rightarrow> nat"
  mo_show :: "conn_error \<Rightarrow> string"

definition alert ::
    "upstream_monitor_config \<Rightarrow> monitor_target \<Rightarrow> transition \<Rightarrow> nat \<Rightarrow> profile_state
     \<Rightarrow> profile_state \<times> string option" where
  "alert mon t tr now st =
     (let cooldown = unat (um_notify_cooldown_secs mon) * 1000
      in case tr of
           WentDown e \<Rightarrow>
             if cooldown_ok st cooldown now
             then (st\<lparr>ps_last_notify := Some now\<rparr>,
                   Some (down_message (mt_profiles t) (mt_proxy t) (probe_targets_label mon) e))
             else (st, None)
         | Recovered downtime \<Rightarrow>
             if um_notify_recovery mon \<and> cooldown_ok st cooldown now
             then (st\<lparr>ps_last_notify := Some now\<rparr>,
                   Some (up_message (mt_profiles t) (mt_proxy t) downtime))
             else (st, None)
         | NoTransition \<Rightarrow> (st, None))"

definition observe ::
    "upstream_monitor_config \<Rightarrow> monitor_target \<Rightarrow> bool \<Rightarrow> string option \<Rightarrow> nat \<Rightarrow> profile_state
     \<Rightarrow> profile_state \<times> string option" where
  "observe mon t ok err now st =
     (case apply_probe_result st ok err (um_fail_threshold mon) (um_recover_threshold mon) now of
        (st, tr) \<Rightarrow> alert mon t tr now st)"

text \<open>One round over the targets; \<open>None\<close> if a check never returns.\<close>

fun monitor_round ::
    "monitor_env \<Rightarrow> upstream_monitor_config \<Rightarrow> monitor_target list \<Rightarrow> (string, profile_state) hash_map
     \<Rightarrow> ((string, profile_state) hash_map \<times> string list) option" where
  "monitor_round env mon [] states = Some (states, [])"
| "monitor_round env mon (t # ts) states =
     (let result = check_upstream (mo_dial env (mt_key t)) (mo_left env) (mt_proxy t) (probe_targets mon);
          now = mo_now env (mt_key t);
          st = (case hm_get states (mt_key t) of Some st \<Rightarrow> st | None \<Rightarrow> default_profile_state);
          next = (\<lambda>ok err. case observe mon t ok err now st of (st, msg) \<Rightarrow>
            map_option (\<lambda>(states, msgs). (states, (case msg of Some m \<Rightarrow> [m] | None \<Rightarrow> []) @ msgs))
              (monitor_round env mon ts (hm_insert (mt_key t) st states)))
      in case result of
           Hang \<Rightarrow> None
         | Got _ \<Rightarrow> next True None
         | Err e \<Rightarrow> next False (Some (mo_show env e)))"

text \<open>\<open>run_loop\<close>: rounds one after the other, the states carried along.\<close>

fun run_rounds ::
    "monitor_env list \<Rightarrow> upstream_registry \<Rightarrow> upstream_monitor_config \<Rightarrow> (string, profile_state) hash_map
     \<Rightarrow> string list \<Rightarrow> ((string, profile_state) hash_map \<times> string list) option" where
  "run_rounds [] reg mon states msgs = Some (states, msgs)"
| "run_rounds (env # envs) reg mon states msgs =
     (case monitor_round env mon (targets_to_check reg mon) states of
        None \<Rightarrow> None
      | Some (states, new) \<Rightarrow> run_rounds envs reg mon states (msgs @ new))"

definition monitor_start ::
    "monitor_env list \<Rightarrow> upstream_registry \<Rightarrow> app_config \<Rightarrow> ((string, profile_state) hash_map \<times> string list) option" where
  "monitor_start envs reg cfg =
     (let mon = upstream_monitor cfg
      in if \<not> um_enabled mon then Some ([], [])
         else run_rounds envs reg mon []
                (if is_configured (telegram cfg) then [startup_message mon (telegram cfg)] else []))"

section \<open>Results in a row\<close>

text \<open>
  The specification keeps the results since the last transition and looks at how many of the latest
  ones agree.
\<close>

definition latest :: "bool \<Rightarrow> bool list \<Rightarrow> nat" where
  "latest ok since = length (takeWhile (\<lambda>r. r = ok) (rev since))"

fun spec_step :: "u32 \<Rightarrow> u32 \<Rightarrow> health \<times> bool list \<Rightarrow> bool \<Rightarrow> health \<times> bool list" where
  "spec_step f r (HealthUp, since) ok =
     (if max (unat f) 1 \<le> latest False (since @ [ok]) then (HealthDown, []) else (HealthUp, since @ [ok]))"
| "spec_step f r (HealthDown, since) ok =
     (if max (unat r) 1 \<le> latest True (since @ [ok]) then (HealthUp, []) else (HealthDown, since @ [ok]))"

definition counts :: "u32 \<Rightarrow> nat \<Rightarrow> bool" where
  "counts w n \<longleftrightarrow> unat w = min n (2 ^ 32 - 1)"

definition tracks :: "profile_state \<Rightarrow> health \<times> bool list \<Rightarrow> bool" where
  "tracks st = (\<lambda>(h, since). ps_health st = h \<and> counts (ps_fails st) (latest False since)
     \<and> counts (ps_oks st) (latest True since) \<and> (ps_down_since st = None) = (h = HealthUp))"

lemma latest_snoc [simp]: "latest ok (since @ [r]) = (if r = ok then Suc (latest ok since) else 0)"
  by (simp add: latest_def)

lemma latest_Nil [simp]: "latest ok [] = 0"
  by (simp add: latest_def)

lemma counts_0 [simp]: "counts 0 n \<longleftrightarrow> n = 0"
  by (auto simp: counts_def)

lemma counts_Suc: "counts w n \<Longrightarrow> counts (u32_saturating_add w 1) (Suc n)"
  by (simp add: counts_def unat_saturating_add)

lemma counts_ge:
  assumes "counts w n"
  shows "max f 1 \<le> w \<longleftrightarrow> max (unat f) 1 \<le> n"
proof -
  have "unat f \<le> 2 ^ 32 - 1" using unsigned_less [of f, where ?'a = nat] by simp
  moreover have "max f 1 \<le> w \<longleftrightarrow> max (unat f) 1 \<le> unat w"
    by (simp add: max_def word_le_nat_alt)
  ultimately show ?thesis using assms by (auto simp: counts_def)
qed

lemma tracks_default: "tracks default_profile_state (HealthUp, [])"
  by (simp add: tracks_def default_profile_state_def)

lemma apply_probe_result_tracks:
  assumes "tracks st a" and "apply_probe_result st ok err f r now = (st', tr)"
  shows "tracks st' (spec_step f r a ok)"
    and "tr = NoTransition \<longleftrightarrow> fst (spec_step f r a ok) = fst a"
    and "ps_last_notify st' = ps_last_notify st"
proof -
  obtain h since where a: "a = (h, since)" by (cases a)
  note c = assms(1) [unfolded a tracks_def, simplified]
  then have cs: "counts (ps_fails st) (latest False since)" "counts (ps_oks st) (latest True since)"
    by simp_all
  have g: "max f 1 \<le> u32_saturating_add (ps_fails st) 1 \<longleftrightarrow> max (unat f) 1 \<le> Suc (latest False since)"
    "max r 1 \<le> u32_saturating_add (ps_oks st) 1 \<longleftrightarrow> max (unat r) 1 \<le> Suc (latest True since)"
    by (rule counts_ge [OF counts_Suc [OF cs(1)]], rule counts_ge [OF counts_Suc [OF cs(2)]])
  show "tracks st' (spec_step f r a ok)"
    using assms(2) c g counts_Suc a
    by (cases h) (auto simp: apply_probe_result_def tracks_def Let_def
      simp del: max.bounded_iff split: if_splits option.splits)
  show "tr = NoTransition \<longleftrightarrow> fst (spec_step f r a ok) = fst a"
    using assms(2) c g a
    by (cases h) (auto simp: apply_probe_result_def Let_def
      simp del: max.bounded_iff split: if_splits option.splits)
  show "ps_last_notify st' = ps_last_notify st"
    using assms(2) by (auto simp: apply_probe_result_def Let_def split: if_splits option.splits)
qed

section \<open>The history of one endpoint\<close>

type_synonym probe_log = "(bool \<times> string option \<times> nat) list"

text \<open>What the rounds do to one endpoint: its state and the alerts with their times.\<close>

fun watch ::
    "upstream_monitor_config \<Rightarrow> monitor_target \<Rightarrow> profile_state \<Rightarrow> probe_log
     \<Rightarrow> profile_state \<times> (nat \<times> string) list" where
  "watch mon t st [] = (st, [])"
| "watch mon t st ((ok, err, now) # h) =
     (case observe mon t ok err now st of (st, msg) \<Rightarrow>
        (case watch mon t st h of (st, msgs) \<Rightarrow>
           (st, (case msg of Some m \<Rightarrow> [(now, m)] | None \<Rightarrow> []) @ msgs)))"

definition spec_run :: "upstream_monitor_config \<Rightarrow> health \<times> bool list \<Rightarrow> probe_log \<Rightarrow> health \<times> bool list" where
  "spec_run mon a h =
     foldl (\<lambda>a (ok, _, _). spec_step (um_fail_threshold mon) (um_recover_threshold mon) a ok) a h"

lemma alert_tracks: "tracks (fst (alert mon t tr now st)) a = tracks st a"
  by (simp add: alert_def tracks_def Let_def split: transition.split prod.split)

lemma observe_tracks:
  assumes "tracks st a"
  shows "tracks (fst (observe mon t ok err now st))
    (spec_step (um_fail_threshold mon) (um_recover_threshold mon) a ok)"
  using apply_probe_result_tracks(1) [OF assms] alert_tracks
  by (simp add: observe_def split: prod.split)

lemma watch_tracks: "tracks st a \<Longrightarrow> tracks (fst (watch mon t st h)) (spec_run mon a h)"
proof (induction mon t st h arbitrary: a rule: watch.induct)
  case (2 mon t st ok err now h)
  obtain st1 msg where o: "observe mon t ok err now st = (st1, msg)" by fastforce
  obtain st2 msgs where w: "watch mon t st1 h = (st2, msgs)" by fastforce
  have "tracks st1 (spec_step (um_fail_threshold mon) (um_recover_threshold mon) a ok)"
    using observe_tracks [OF 2(2), of mon t ok err now] o by simp
  from 2(1) [OF o [symmetric] this] show ?case by (simp add: o w spec_run_def)
qed (simp add: spec_run_def)

text \<open>C19: the health of an endpoint follows its probe results exactly as the thresholds say. After any
  history of results it is down if and only if the specification is, which goes down when the latest
  \<open>fail_threshold\<close> results since the last change are failures and up again when the latest
  \<open>recover_threshold\<close> are successes, a threshold of zero counting as one; the saturating counters
  never make a difference; and the time it went down is known exactly while it is down.\<close>

theorem monitor_debounce:
  "ps_health (fst (watch mon t default_profile_state h)) = fst (spec_run mon (HealthUp, []) h)
   \<and> (ps_down_since (fst (watch mon t default_profile_state h)) = None
      \<longleftrightarrow> ps_health (fst (watch mon t default_profile_state h)) = HealthUp)"
  using watch_tracks [OF tracks_default, of mon t h]
  by (auto simp: tracks_def split: prod.splits)

definition notified_at :: "profile_state \<Rightarrow> nat list" where
  "notified_at st = (case ps_last_notify st of Some t \<Rightarrow> [t] | None \<Rightarrow> [])"

lemma observe_notifies:
  assumes "observe mon t ok err now st = (st', msg)"
  shows "case msg of
      None \<Rightarrow> ps_last_notify st' = ps_last_notify st
    | Some _ \<Rightarrow> ps_last_notify st' = Some now
        \<and> (\<forall>t0. ps_last_notify st = Some t0 \<longrightarrow> unat (um_notify_cooldown_secs mon) * 1000 \<le> now - t0)"
proof -
  obtain st1 tr where "apply_probe_result st ok err (um_fail_threshold mon) (um_recover_threshold mon) now = (st1, tr)"
    by fastforce
  moreover from this have "ps_last_notify st1 = ps_last_notify st"
    by (auto simp: apply_probe_result_def Let_def split: if_splits option.splits)
  ultimately show ?thesis using assms
    by (auto simp: observe_def alert_def cooldown_ok_def Let_def split: transition.splits if_splits option.splits)
qed

lemma watch_cooldown:
  assumes "sorted (notified_at st @ map (\<lambda>(_, _, now). now) h)"
  shows "successively (\<lambda>a b. a + unat (um_notify_cooldown_secs mon) * 1000 \<le> b)
    (notified_at st @ map fst (snd (watch mon t st h)))"
  using assms
proof (induction mon t st h rule: watch.induct)
  case (2 mon t st ok err now h)
  obtain st1 msg where o: "observe mon t ok err now st = (st1, msg)" by fastforce
  obtain st2 msgs where w: "watch mon t st1 h = (st2, msgs)" by fastforce
  note n = observe_notifies [OF o]
  have ih: "sorted (notified_at st1 @ map (\<lambda>(_, _, now). now) h) \<Longrightarrow>
      successively (\<lambda>a b. a + unat (um_notify_cooldown_secs mon) * 1000 \<le> b) (notified_at st1 @ map fst msgs)"
    using 2(1) [OF o [symmetric]] w by simp
  show ?case
  proof (cases msg)
    case None
    with n ih 2(2) o w show ?thesis by (auto simp: notified_at_def split: option.splits)
  next
    case (Some m)
    have "sorted (now # map (\<lambda>(_, _, now). now) h)" using 2(2) by (simp add: sorted_append)
    with Some n ih have s: "successively (\<lambda>a b. a + unat (um_notify_cooldown_secs mon) * 1000 \<le> b) (now # map fst msgs)"
      by (simp add: notified_at_def)
    have "t0 + unat (um_notify_cooldown_secs mon) * 1000 \<le> now" if "ps_last_notify st = Some t0" for t0
      using that n Some 2(2) by (auto simp: notified_at_def)
    with s Some o w show ?thesis by (auto simp: notified_at_def split: option.split)
  qed
qed (simp add: notified_at_def split: option.split)

text \<open>two alerts of one endpoint are never closer than the cooldown, if the clock does not go
  backwards. The cooldown is shared by both kinds of alert, so a recovery soon after the outage
  is not announced.\<close>

theorem alert_cooldown:
  assumes "sorted (map (\<lambda>(_, _, now). now) h)"
  shows "successively (\<lambda>a b. a + unat (um_notify_cooldown_secs mon) * 1000 \<le> b)
    (map fst (snd (watch mon t default_profile_state h)))"
  using watch_cooldown [of default_profile_state h mon t] assms
  by (simp add: notified_at_def default_profile_state_def)

definition flaky_target :: monitor_target where
  "flaky_target = \<lparr>mt_key = ''http|p|80'', mt_proxy = Http ''p'' 80 None, mt_profiles = [''me'']\<rparr>"

definition flaky_log :: probe_log where
  "flaky_log = [(False, Some ''e'', 0), (False, None, 1000), (False, None, 2000), (True, None, 3000),
     (True, None, 4000), (False, None, 900000), (False, None, 901000), (False, None, 902000)]"

theorem alert_cooldown_witness:
  "map fst (snd (watch (default_monitor_config\<lparr>um_fail_threshold := 3, um_notify_cooldown_secs := 600\<rparr>)
      flaky_target default_profile_state flaky_log)) = [2000, 902000]
   \<and> successively (\<lambda>a b. a + 600 * 1000 \<le> b) [2000, 902000 :: nat]"
proof -
  let ?mon = "default_monitor_config\<lparr>um_fail_threshold := 3, um_notify_cooldown_secs := 600\<rparr>"
  have s: "sorted (map (\<lambda>(_, _, now). now) flaky_log)" by (simp add: flaky_log_def)
  have "map fst (snd (watch ?mon flaky_target default_profile_state flaky_log)) = [2000, 902000]"
    by code_simp
  with alert_cooldown [OF s, of ?mon flaky_target] show ?thesis by simp
qed

section \<open>Every profile through one endpoint\<close>

definition users :: "(string \<times> upstream_proxy) list \<Rightarrow> string \<Rightarrow> string set" where
  "users ws k = {n. \<exists>p. (n, p) \<in> set ws \<and> endpoint_key p = k}"

definition covers :: "(string \<times> upstream_proxy) list \<Rightarrow> string \<Rightarrow> monitor_target \<Rightarrow> bool" where
  "covers ws k t \<longleftrightarrow> mt_key t = k \<and> endpoint_key (mt_proxy t) = k \<and> distinct (mt_profiles t)
     \<and> set (mt_profiles t) = users ws k \<and> mt_profiles t \<noteq> []"

definition groups :: "(string \<times> upstream_proxy) list \<Rightarrow> (string, monitor_target) hash_map \<Rightarrow> bool" where
  "groups ws m \<longleftrightarrow> hm_wf m
     \<and> (\<forall>k. case hm_get m k of None \<Rightarrow> users ws k = {} | Some t \<Rightarrow> covers ws k t)"

lemma users_snoc: "users (ws @ [(n, p)]) k = users ws k \<union> (if endpoint_key p = k then {n} else {})"
  by (auto simp: users_def)

lemma users_nonempty: "users ws k \<noteq> {} \<longleftrightarrow> k \<in> endpoint_key ` snd ` set ws"
  by (force simp: users_def)

lemma groups_insert:
  assumes "groups ws m" and "covers (ws @ [(n, p)]) (endpoint_key p) t"
  shows "groups (ws @ [(n, p)]) (hm_insert (endpoint_key p) t m)"
proof -
  have w: "hm_wf m" and c: "\<And>k. case hm_get m k of None \<Rightarrow> users ws k = {} | Some t \<Rightarrow> covers ws k t"
    using assms(1) by (simp_all add: groups_def)
  have "case hm_get (hm_insert (endpoint_key p) t m) k of
      None \<Rightarrow> users (ws @ [(n, p)]) k = {} | Some t \<Rightarrow> covers (ws @ [(n, p)]) k t" for k
    using c [of k] assms(2)
    by (cases "k = endpoint_key p") (auto simp: hm.get_insert [OF w] users_snoc covers_def split: option.splits)
  then show ?thesis using w by (simp add: groups_def hm.inv_insert)
qed

lemma groups_group_targets: "groups ws m \<Longrightarrow> groups (ws @ ws') (group_targets m ws')"
proof (induction m ws' arbitrary: ws rule: group_targets.induct)
  case (2 m name proxy ws')
  let ?k = "endpoint_key proxy"
  let ?m = "case hm_get m ?k of
      Some t \<Rightarrow> hm_insert ?k (if name \<in> set (mt_profiles t) then t
                 else t\<lparr>mt_profiles := mt_profiles t @ [name]\<rparr>) m
    | None \<Rightarrow> hm_insert ?k \<lparr>mt_key = ?k, mt_proxy = proxy, mt_profiles = [name]\<rparr> m"
  have u: "case hm_get m ?k of None \<Rightarrow> users ws ?k = {} | Some t \<Rightarrow> covers ws ?k t"
    using 2(2) by (simp add: groups_def)
  have "groups (ws @ [(name, proxy)]) ?m"
  proof (cases "hm_get m ?k")
    case None
    with u have "covers (ws @ [(name, proxy)]) ?k \<lparr>mt_key = ?k, mt_proxy = proxy, mt_profiles = [name]\<rparr>"
      by (simp add: covers_def users_snoc)
    from groups_insert [OF 2(2) this] None show ?thesis by simp
  next
    case (Some t)
    with u have "covers (ws @ [(name, proxy)]) ?k (if name \<in> set (mt_profiles t) then t
        else t\<lparr>mt_profiles := mt_profiles t @ [name]\<rparr>)"
      by (auto simp: covers_def users_snoc)
    from groups_insert [OF 2(2) this] Some show ?thesis by simp
  qed
  from 2(1) [OF refl this] show ?case by (simp add: Let_def)
qed simp

text \<open>the monitor probes every endpoint once and forgets no profile. The targets of a round have
  distinct endpoints; the profiles of a target are sorted, without repetition, and exactly the
  watched profiles that use its endpoint; and every watched profile belongs to a target.\<close>

theorem monitor_targets_partition:
  "distinct (map mt_key (targets_to_check reg mon))
   \<and> list_all (\<lambda>t. covers (wanted_profiles reg mon) (mt_key t) t \<and> sorted (mt_profiles t))
       (targets_to_check reg mon)
   \<and> mt_key ` set (targets_to_check reg mon) = endpoint_key ` snd ` set (wanted_profiles reg mon)"
proof -
  let ?ws = "wanted_profiles reg mon"
  let ?g = "group_targets [] ?ws"
  let ?sort = "\<lambda>t. t\<lparr>mt_profiles := sort (mt_profiles t)\<rparr>"
  have "groups ([] @ ?ws) ?g"
    by (rule groups_group_targets) (simp add: groups_def hm.inv_empty hm.get_empty users_def)
  then have w: "hm_wf ?g" and c: "\<And>k. case hm_get ?g k of None \<Rightarrow> users ?ws k = {} | Some t \<Rightarrow> covers ?ws k t"
    by (simp_all add: groups_def)
  have k: "covers ?ws k t" if "(k, t) \<in> set ?g" for k t
    using c [of k] that hm_get_in_set [OF w] by (metis option.simps(5))
  have keys: "map (mt_key \<circ> (?sort \<circ> snd)) ?g = map fst ?g"
    using k by (auto simp: covers_def)
  have set_t: "set (targets_to_check reg mon) = ?sort ` snd ` set ?g"
    by (simp add: targets_to_check_def Let_def image_image)
  have "mset (map mt_key (targets_to_check reg mon)) = mset (map fst ?g)"
    unfolding keys [symmetric] by (simp add: targets_to_check_def Let_def mset_map image_mset.compositionality o_def)
  then have "distinct (map mt_key (targets_to_check reg mon))"
    using w mset_eq_imp_distinct_iff unfolding hm_wf_def by blast
  moreover have "covers ?ws (mt_key t) t \<and> sorted (mt_profiles t)" if "t \<in> set (targets_to_check reg mon)" for t
  proof -
    from that set_t obtain k t0 where "(k, t0) \<in> set ?g" "t = ?sort t0" by auto
    moreover have "sort (mt_profiles t0) = [] \<longleftrightarrow> mt_profiles t0 = []"
      by (metis length_0_conv length_sort)
    ultimately show ?thesis using k [of k t0] by (auto simp: covers_def)
  qed
  moreover have "mt_key ` set (targets_to_check reg mon) = fst ` set ?g"
    using arg_cong [OF keys, of set] by (simp add: set_t image_image o_def)
  moreover have "fst ` set ?g = endpoint_key ` snd ` set ?ws"
  proof -
    have "k \<in> fst ` set ?g \<longleftrightarrow> users ?ws k \<noteq> {}" for k
      using c [of k] hm_contains_iff [of ?g k]
      by (auto simp: hm_contains_def covers_def split: option.splits)
    then show ?thesis unfolding users_nonempty by blast
  qed
  ultimately show ?thesis by (simp add: list_all_iff)
qed

section \<open>A silent upstream\<close>

text \<open>a monitored proxy that accepts connections and then says nothing stops the monitor: the
  check of its endpoint never returns, because the monitor's timeout bounds only the TCP
  connection, so the round does not end and no alert is sent for it or for any later endpoint.\<close>

theorem silent_proxy_stalls_monitor:
  assumes "host_port (mt_proxy t) = Some (host, port)"
    and "mo_dial env (mt_key t) (addr_of host port) = Up s"
    and "sk_in s = []" and "sk_end s = Silent" and "sk_room s = None" and "probe_targets mon \<noteq> []"
  shows "monitor_round env mon (t # ts) states = None"
proof -
  obtain h p rest where pt: "probe_targets mon = (h, p) # rest"
    using assms(6) by (metis list.exhaust surj_pair)
  have "connect (mo_dial env (mt_key t)) (mt_proxy t) h p = Hang"
    using silent_connect_hangs [where dial = "mo_dial env (mt_key t)", OF assms(1-5)] .
  then show ?thesis by (simp add: check_upstream_def pt check_upstream_one_def)
qed

theorem silent_proxy_stalls_monitor_witness:
  "monitor_round \<lparr>mo_dial = (\<lambda>_ _. Up (sample_proxy\<lparr>sk_in := [], sk_end := Silent\<rparr>)), mo_left = (\<lambda>_. True),
       mo_now = (\<lambda>_. 0), mo_show = (\<lambda>_. [])\<rparr> default_monitor_config [flaky_target] [] = None"
proof -
  have "probe_targets default_monitor_config \<noteq> []" by code_simp
  then show ?thesis
    by (intro silent_proxy_stalls_monitor [where host = "''p''" and port = 80])
      (auto simp: flaky_target_def sample_proxy_def)
qed

end
