(* ===== verification/Relay_PanelDb.thy ===== *)
theory Relay_PanelDb
  imports Relay_Prelude "HOL-Library.Product_Lexorder"
begin

text \<open>
  The SQLite tables of \<open>src/panel/db.rs\<close>. A table with a primary key is a map, a table with an
  \<open>AUTOINCREMENT\<close> id a list of rows with the last id given out. SQLite itself and the text of dates
  (chrono) are parameters: \<open>pd_online\<close> says whether statements succeed, and the clock gives the
  time, its RFC 3339 text and its day. Times are compared as texts, as the SQL does. Integer columns
  keep SQLite's arithmetic: a sum outside 64 bits becomes a real number, which \<open>i64\<close> cannot read back.
  Where the code reads the clock twice in one operation the model takes one time for both.
\<close>

section \<open>Tables\<close>

record clock =
  ck_rfc3339 :: "nat \<Rightarrow> string"
  ck_day :: "nat \<Rightarrow> string"

definition HOUR :: nat where
  "HOUR = 3600 * 1000000000"

text \<open>
  chrono formats later times as larger texts; the number of fraction digits varies with the value,
  but a shorter fraction is followed by a plus sign, which sorts before every digit.
\<close>

definition texts_in_order :: "clock \<Rightarrow> bool" where
  "texts_in_order ck \<longleftrightarrow> (\<forall>s t. ck_rfc3339 ck s < ck_rfc3339 ck t \<longleftrightarrow> s < t)"

datatype sql_num = SInt int | SReal

definition fits_i64 :: "int \<Rightarrow> bool" where
  "fits_i64 n \<longleftrightarrow> - (2 ^ 63) \<le> n \<and> n < 2 ^ 63"

fun sql_add :: "sql_num \<Rightarrow> sql_num \<Rightarrow> sql_num" where
  "sql_add (SInt a) (SInt b) = (if fits_i64 (a + b) then SInt (a + b) else SReal)"
| "sql_add _ _ = SReal"

definition as_i64 :: "u64 \<Rightarrow> sql_num" where
  "as_i64 n = SInt (sint n)"

record domain_row =
  dr_id :: nat
  dr_pattern :: string
  dr_kind :: string
  dr_mode :: string
  dr_note :: string
  dr_created_at :: string

record ip_row =
  ir_bytes_up :: sql_num
  ir_bytes_down :: sql_num
  ir_sessions :: sql_num
  ir_last_seen :: string

record ip_domain_row =
  id_bytes_up :: sql_num
  id_bytes_down :: sql_num
  id_sessions :: sql_num

record dns_query_insert =
  dq_ts :: string
  dq_client_ip :: string
  dq_qtype :: string
  dq_domain :: string
  dq_action :: string
  dq_answer :: string

record panel_db =
  pd_online :: bool
  pd_settings :: "(string, string) hash_map"
  pd_sessions :: "(string, string \<times> string) hash_map"
  pd_domains :: "domain_row list"
  pd_domain_seq :: nat
  pd_traffic_by_ip :: "(string \<times> string, ip_row) hash_map"
  pd_traffic_by_ip_domain :: "(string \<times> string \<times> string, ip_domain_row) hash_map"
  pd_dns_queries :: "(nat \<times> dns_query_insert) list"
  pd_dns_seq :: nat

datatype db_error =
    SqliteFailed
  | EmptyPattern
  | DuplicateKey
  | DomainNotFound int
  | NotAnInteger

type_synonym 'a db_result = "panel_db \<times> (db_error + 'a)"

definition statement :: "(panel_db \<Rightarrow> 'a db_result) \<Rightarrow> panel_db \<Rightarrow> 'a db_result" where
  "statement f db = (if pd_online db then f db else (db, Inl SqliteFailed))"

definition empty_db :: panel_db where
  "empty_db =
     \<lparr>pd_online = True, pd_settings = [], pd_sessions = [], pd_domains = [], pd_domain_seq = 0,
      pd_traffic_by_ip = [], pd_traffic_by_ip_domain = [], pd_dns_queries = [], pd_dns_seq = 0\<rparr>"

section \<open>Settings and sessions\<close>

definition get_setting :: "string \<Rightarrow> panel_db \<Rightarrow> db_error + string option" where
  "get_setting key db = (if pd_online db then Inr (hm_get (pd_settings db) key) else Inl SqliteFailed)"

definition set_setting :: "string \<Rightarrow> string \<Rightarrow> panel_db \<Rightarrow> unit db_result" where
  "set_setting key v = statement (\<lambda>db. (db\<lparr>pd_settings := hm_insert key v (pd_settings db)\<rparr>, Inr ()))"

definition create_session :: "clock \<Rightarrow> nat \<Rightarrow> string \<Rightarrow> nat \<Rightarrow> panel_db \<Rightarrow> unit db_result" where
  "create_session ck now token ttl_hours =
     statement (\<lambda>db.
       if hm_contains (pd_sessions db) token then (db, Inl DuplicateKey)
       else (db\<lparr>pd_sessions := hm_insert token
                  (ck_rfc3339 ck now, ck_rfc3339 ck (now + ttl_hours * HOUR)) (pd_sessions db)\<rparr>, Inr ()))"

definition session_valid :: "clock \<Rightarrow> nat \<Rightarrow> string \<Rightarrow> panel_db \<Rightarrow> db_error + bool" where
  "session_valid ck now token db =
     (if pd_online db
      then Inr (case hm_get (pd_sessions db) token of
                  None \<Rightarrow> False
                | Some (_, expires_at) \<Rightarrow> expires_at > ck_rfc3339 ck now)
      else Inl SqliteFailed)"

definition delete_session :: "string \<Rightarrow> panel_db \<Rightarrow> unit db_result" where
  "delete_session token = statement (\<lambda>db. (db\<lparr>pd_sessions := hm_remove token (pd_sessions db)\<rparr>, Inr ()))"

definition cleanup_sessions :: "clock \<Rightarrow> nat \<Rightarrow> panel_db \<Rightarrow> unit db_result" where
  "cleanup_sessions ck now =
     statement (\<lambda>db.
       (db\<lparr>pd_sessions := filter (\<lambda>(_, _, expires_at). \<not> expires_at \<le> ck_rfc3339 ck now) (pd_sessions db)\<rparr>,
        Inr ()))"

section \<open>Traffic\<close>

type_synonym sample_row = "string \<times> string \<times> u64 \<times> u64"

definition upsert_ip :: "string \<Rightarrow> string \<Rightarrow> sample_row \<Rightarrow> panel_db \<Rightarrow> panel_db" where
  "upsert_ip day now row db =
     (case row of (ip, _, up, down) \<Rightarrow>
        db\<lparr>pd_traffic_by_ip :=
          hm_insert (day, ip)
            (case hm_get (pd_traffic_by_ip db) (day, ip) of
               None \<Rightarrow> \<lparr>ir_bytes_up = as_i64 up, ir_bytes_down = as_i64 down, ir_sessions = SInt 1,
                        ir_last_seen = now\<rparr>
             | Some r \<Rightarrow>
                 \<lparr>ir_bytes_up = sql_add (ir_bytes_up r) (as_i64 up),
                  ir_bytes_down = sql_add (ir_bytes_down r) (as_i64 down),
                  ir_sessions = sql_add (ir_sessions r) (SInt 1), ir_last_seen = now\<rparr>)
            (pd_traffic_by_ip db)\<rparr>)"

definition upsert_ip_domain :: "string \<Rightarrow> sample_row \<Rightarrow> panel_db \<Rightarrow> panel_db" where
  "upsert_ip_domain day row db =
     (case row of (ip, domain, up, down) \<Rightarrow>
        db\<lparr>pd_traffic_by_ip_domain :=
          hm_insert (day, ip, domain)
            (case hm_get (pd_traffic_by_ip_domain db) (day, ip, domain) of
               None \<Rightarrow> \<lparr>id_bytes_up = as_i64 up, id_bytes_down = as_i64 down, id_sessions = SInt 1\<rparr>
             | Some r \<Rightarrow>
                 \<lparr>id_bytes_up = sql_add (id_bytes_up r) (as_i64 up),
                  id_bytes_down = sql_add (id_bytes_down r) (as_i64 down),
                  id_sessions = sql_add (id_sessions r) (SInt 1)\<rparr>)
            (pd_traffic_by_ip_domain db)\<rparr>)"

definition apply_traffic_batch :: "clock \<Rightarrow> nat \<Rightarrow> sample_row list \<Rightarrow> panel_db \<Rightarrow> unit db_result" where
  "apply_traffic_batch ck now rows db =
     (if rows = [] then (db, Inr ())
      else statement (\<lambda>db.
        (foldl (\<lambda>db row. upsert_ip_domain (ck_day ck now) row (upsert_ip (ck_day ck now) (ck_rfc3339 ck now) row db))
           db rows, Inr ())) db)"

text \<open>
  \<open>SUM\<close> of integers raises an error when it overflows and is a real number if a summand is; an
  \<open>i64\<close> cannot be read from either.
\<close>

fun sql_sum_step :: "int option \<Rightarrow> sql_num \<Rightarrow> int option" where
  "sql_sum_step (Some a) (SInt b) = (if fits_i64 (a + b) then Some (a + b) else None)"
| "sql_sum_step _ _ = None"

definition sql_sum :: "sql_num list \<Rightarrow> int option" where
  "sql_sum ns = foldl sql_sum_step (Some 0) ns"

text \<open>Rows of equal totals are listed in the order of their group.\<close>

definition group_keys :: "('a :: linorder) list \<Rightarrow> 'a list" where
  "group_keys ks = sort (remdups ks)"

fun all_some :: "'a option list \<Rightarrow> 'a list option" where
  "all_some [] = Some []"
| "all_some (None # xs) = None"
| "all_some (Some x # xs) = map_option (Cons x) (all_some xs)"

definition sums_of :: "('v \<Rightarrow> sql_num) \<Rightarrow> ('v \<Rightarrow> sql_num) \<Rightarrow> ('v \<Rightarrow> sql_num) \<Rightarrow> 'v list \<Rightarrow> (int \<times> int \<times> int) option" where
  "sums_of up down sessions rows =
     (case (sql_sum (map up rows), sql_sum (map down rows), sql_sum (map sessions rows)) of
        (Some u, Some d, Some s) \<Rightarrow> Some (u, d, s)
      | _ \<Rightarrow> None)"

definition in_days :: "string \<Rightarrow> string \<Rightarrow> string \<Rightarrow> bool" where
  "in_days from_day to_day day \<longleftrightarrow> from_day \<le> day \<and> day \<le> to_day"

definition traffic_by_ip ::
    "string \<Rightarrow> string \<Rightarrow> nat \<Rightarrow> panel_db \<Rightarrow> db_error + (string \<times> (int \<times> int \<times> int) \<times> string) list" where
  "traffic_by_ip from_day to_day limit db =
     (if \<not> pd_online db then Inl SqliteFailed
      else
        (let rows = filter (\<lambda>((day, _), _). in_days from_day to_day day) (pd_traffic_by_ip db);
             group = (\<lambda>ip. map snd (filter (\<lambda>((_, i), _). i = ip) rows));
             row = (\<lambda>ip. map_option (\<lambda>sums. (ip, sums, Max (set (map ir_last_seen (group ip)))))
                      (sums_of ir_bytes_up ir_bytes_down ir_sessions (group ip)))
         in case all_some (map row (group_keys (map (\<lambda>((_, i), _). i) rows))) of
              None \<Rightarrow> Inl NotAnInteger
            | Some groups \<Rightarrow> Inr (take limit (sort_key (\<lambda>(_, (u, d, _), _). - (u + d)) groups))))"

definition traffic_for_ip_domains ::
    "string \<Rightarrow> string \<Rightarrow> string \<Rightarrow> nat \<Rightarrow> panel_db \<Rightarrow> db_error + (string \<times> (int \<times> int \<times> int)) list" where
  "traffic_for_ip_domains client_ip from_day to_day limit db =
     (if \<not> pd_online db then Inl SqliteFailed
      else
        (let rows = filter (\<lambda>((day, ip, _), _). ip = client_ip \<and> in_days from_day to_day day)
                      (pd_traffic_by_ip_domain db);
             group = (\<lambda>d. map snd (filter (\<lambda>((_, _, domain), _). domain = d) rows));
             row = (\<lambda>d. map_option (Pair d) (sums_of id_bytes_up id_bytes_down id_sessions (group d)))
         in case all_some (map row (group_keys (map (\<lambda>((_, _, domain), _). domain) rows))) of
              None \<Rightarrow> Inl NotAnInteger
            | Some groups \<Rightarrow> Inr (take limit (sort_key (\<lambda>(_, u, d, _). - (u + d)) groups))))"

definition daily_totals ::
    "string \<Rightarrow> string \<Rightarrow> panel_db \<Rightarrow> db_error + (string \<times> (int \<times> int \<times> int)) list" where
  "daily_totals from_day to_day db =
     (if \<not> pd_online db then Inl SqliteFailed
      else
        (let rows = filter (\<lambda>((day, _), _). in_days from_day to_day day) (pd_traffic_by_ip db);
             group = (\<lambda>d. map snd (filter (\<lambda>((day, _), _). day = d) rows));
             row = (\<lambda>d. map_option (Pair d) (sums_of ir_bytes_up ir_bytes_down ir_sessions (group d)))
         in case all_some (map row (group_keys (map (\<lambda>((day, _), _). day) rows))) of
              None \<Rightarrow> Inl NotAnInteger
            | Some groups \<Rightarrow> Inr groups))"

section \<open>Domains\<close>

definition list_domains :: "panel_db \<Rightarrow> db_error + domain_row list" where
  "list_domains db = (if pd_online db then Inr (sort_key dr_pattern (pd_domains db)) else Inl SqliteFailed)"

definition db_kind :: "string \<Rightarrow> string" where
  "db_kind kind = (if kind = ''wildcard'' then ''wildcard'' else ''exact'')"

definition db_mode :: "string \<Rightarrow> string" where
  "db_mode mode = (if mode = ''direct'' then ''direct'' else ''relay'')"

definition has_pattern :: "string \<Rightarrow> domain_row list \<Rightarrow> bool" where
  "has_pattern p rows = list_ex (\<lambda>r. dr_pattern r = p) rows"

definition insert_domain :: "string \<Rightarrow> string \<Rightarrow> string \<Rightarrow> string \<Rightarrow> string \<Rightarrow> panel_db \<Rightarrow> panel_db" where
  "insert_domain pattern kind mode note created db =
     (let i = Suc (pd_domain_seq db)
      in db\<lparr>pd_domain_seq := i,
            pd_domains := pd_domains db @
              [\<lparr>dr_id = i, dr_pattern = pattern, dr_kind = kind, dr_mode = mode, dr_note = note,
                dr_created_at = created\<rparr>]\<rparr>)"

definition add_domain ::
    "clock \<Rightarrow> nat \<Rightarrow> string \<Rightarrow> string \<Rightarrow> string \<Rightarrow> string \<Rightarrow> panel_db \<Rightarrow> nat db_result" where
  "add_domain ck now pattern kind mode note db =
     (let pattern = to_lowercase (trim pattern)
      in if pattern = [] then (db, Inl EmptyPattern)
         else statement (\<lambda>db.
           if has_pattern pattern (pd_domains db) then (db, Inl DuplicateKey)
           else (let db = insert_domain pattern (db_kind kind) (db_mode mode) note (ck_rfc3339 ck now) db
                 in (db, Inr (pd_domain_seq db)))) db)"

definition update_domain ::
    "int \<Rightarrow> string \<Rightarrow> string \<Rightarrow> string \<Rightarrow> string \<Rightarrow> panel_db \<Rightarrow> unit db_result" where
  "update_domain i pattern kind mode note =
     (let pattern = to_lowercase (trim pattern)
      in statement (\<lambda>db.
        if \<not> list_ex (\<lambda>r. int (dr_id r) = i) (pd_domains db) then (db, Inl (DomainNotFound i))
        else if list_ex (\<lambda>r. dr_pattern r = pattern \<and> int (dr_id r) \<noteq> i) (pd_domains db) then (db, Inl DuplicateKey)
        else (db\<lparr>pd_domains := map (\<lambda>r. if int (dr_id r) = i
                 then r\<lparr>dr_pattern := pattern, dr_kind := db_kind kind, dr_mode := db_mode mode, dr_note := note\<rparr>
                 else r) (pd_domains db)\<rparr>, Inr ())))"

definition delete_domain :: "int \<Rightarrow> panel_db \<Rightarrow> unit db_result" where
  "delete_domain i =
     statement (\<lambda>db.
       if list_ex (\<lambda>r. int (dr_id r) = i) (pd_domains db)
       then (db\<lparr>pd_domains := filter (\<lambda>r. int (dr_id r) \<noteq> i) (pd_domains db)\<rparr>, Inr ())
       else (db, Inl (DomainNotFound i)))"

definition import_line :: "string \<Rightarrow> (string \<times> string) option" where
  "import_line raw =
     (let line = to_lowercase (trim raw)
      in if line = [] \<or> starts_with line ''#'' then None
         else
           (let (kind, pattern) = (case strip_prefix ''*.'' line of
                                     Some rest \<Rightarrow> (''wildcard'', rest) | None \<Rightarrow> (''exact'', line))
            in if pattern = [] then None else Some (kind, pattern)))"

definition upsert_domain :: "string \<Rightarrow> string \<Rightarrow> panel_db \<Rightarrow> string \<times> string \<Rightarrow> panel_db" where
  "upsert_domain mode created db kp =
     (case kp of (kind, pattern) \<Rightarrow>
        if has_pattern pattern (pd_domains db)
        then db\<lparr>pd_domains := map (\<lambda>r. if dr_pattern r = pattern then r\<lparr>dr_mode := mode\<rparr> else r) (pd_domains db)\<rparr>
        else insert_domain pattern kind mode [] created db)"

definition import_domains :: "clock \<Rightarrow> nat \<Rightarrow> string \<Rightarrow> string \<Rightarrow> panel_db \<Rightarrow> nat db_result" where
  "import_domains ck now text mode =
     statement (\<lambda>db.
       (let kps = List.map_filter import_line (lines text)
        in (foldl (upsert_domain (db_mode mode) (ck_rfc3339 ck now)) db kps, Inr (length kps))))"

definition relay_domains_for_dnsmasq :: "panel_db \<Rightarrow> db_error + (string \<times> string) list" where
  "relay_domains_for_dnsmasq db =
     (if pd_online db
      then Inr (map (\<lambda>r. (dr_pattern r, dr_kind r))
             (sort_key dr_pattern (filter (\<lambda>r. dr_mode r = ''relay'') (pd_domains db))))
      else Inl SqliteFailed)"

definition render_dnsmasq :: "(string \<times> string) list \<Rightarrow> string \<Rightarrow> string" where
  "render_dnsmasq domains relay_ip =
     foldl (\<lambda>out (pattern, kind). out @ ''address=/'' @ pattern @ ''/'' @ relay_ip @ [CHR 0x0A])
       (''# Generated by SNIrelay admin panel'' @ [CHR 0x0A] @ ''# relay_ip='' @ relay_ip @ [CHR 0x0A]) domains"

section \<open>DNS queries\<close>

definition insert_dns_query :: "dns_query_insert \<Rightarrow> panel_db \<Rightarrow> nat db_result" where
  "insert_dns_query row =
     statement (\<lambda>db.
       (let i = Suc (pd_dns_seq db)
        in (db\<lparr>pd_dns_seq := i, pd_dns_queries := pd_dns_queries db @ [(i, row)]\<rparr>, Inr i)))"

definition insert_dns_queries_batch :: "dns_query_insert list \<Rightarrow> panel_db \<Rightarrow> unit db_result" where
  "insert_dns_queries_batch rows db =
     (if rows = [] then (db, Inr ())
      else statement (\<lambda>db. (foldl (\<lambda>db row. fst (insert_dns_query row db)) db rows, Inr ())) db)"

definition update_dns_query_result :: "nat \<Rightarrow> string \<Rightarrow> string \<Rightarrow> panel_db \<Rightarrow> unit db_result" where
  "update_dns_query_result i action answer =
     statement (\<lambda>db.
       (db\<lparr>pd_dns_queries := map (\<lambda>(j, row). (j, if j = i then row\<lparr>dq_action := action, dq_answer := answer\<rparr> else row))
             (pd_dns_queries db)\<rparr>, Inr ()))"

text \<open>
  \<open>LIKE\<close> of a text between two percent signs: characters are compared without ASCII case, a percent
  sign of the text matches any sequence and an underscore any character.
\<close>

fun sql_like :: "string \<Rightarrow> string \<Rightarrow> bool" where
  "sql_like [] s = (s = [])"
| "sql_like (p # ps) s =
     (if p = CHR ''%'' then (case s of [] \<Rightarrow> sql_like ps [] | _ # s' \<Rightarrow> sql_like ps s \<or> sql_like (p # ps) s')
      else case s of
             [] \<Rightarrow> False
           | c # s' \<Rightarrow> (p = CHR ''_'' \<or> ascii_lower p = ascii_lower c) \<and> sql_like ps s')"

definition sql_filter :: "string option \<Rightarrow> (string \<Rightarrow> string \<Rightarrow> bool) \<Rightarrow> string \<Rightarrow> bool" where
  "sql_filter q test v = (case q of Some p \<Rightarrow> p = [] \<or> test p v | None \<Rightarrow> True)"

definition like_inside :: "string \<Rightarrow> string \<Rightarrow> bool" where
  "like_inside p v = sql_like (''%'' @ p @ ''%'') v"

definition list_dns_queries ::
    "int \<Rightarrow> string option \<Rightarrow> string option \<Rightarrow> string option \<Rightarrow> panel_db \<Rightarrow> db_error + (nat \<times> dns_query_insert) list" where
  "list_dns_queries limit domain_q client_q action_q db =
     (if \<not> pd_online db then Inl SqliteFailed
      else Inr (take (nat (min (max limit 1) 2000))
        (rev (filter (\<lambda>(_, row). sql_filter domain_q like_inside (dq_domain row)
               \<and> sql_filter client_q like_inside (dq_client_ip row)
               \<and> sql_filter action_q (=) (dq_action row)) (pd_dns_queries db)))))"

definition top_action :: "string \<Rightarrow> bool" where
  "top_action a \<longleftrightarrow> a = ''query'' \<or> a \<in> {''relay'', ''reply'', ''forwarded'', ''cached'', ''config''}"

definition dns_query_top_domains :: "int \<Rightarrow> panel_db \<Rightarrow> db_error + (string \<times> nat) list" where
  "dns_query_top_domains limit db =
     (if \<not> pd_online db then Inl SqliteFailed
      else
        (let ds = map (dq_domain \<circ> snd) (filter (\<lambda>(_, row). top_action (dq_action row)) (pd_dns_queries db))
         in Inr (take (nat (min (max limit 1) 100))
              (sort_key (\<lambda>(_, c). - int c) (map (\<lambda>d. (d, count_list ds d)) (group_keys ds))))))"

definition clear_dns_queries :: "panel_db \<Rightarrow> nat db_result" where
  "clear_dns_queries = statement (\<lambda>db. (db\<lparr>pd_dns_queries := []\<rparr>, Inr (length (pd_dns_queries db))))"

definition prune_dns_queries :: "clock \<Rightarrow> nat \<Rightarrow> nat \<Rightarrow> panel_db \<Rightarrow> nat db_result" where
  "prune_dns_queries ck now retain_hours =
     statement (\<lambda>db.
       (let cutoff = ck_rfc3339 ck (now - retain_hours * HOUR);
            old = filter (\<lambda>(_, row). dq_ts row < cutoff) (pd_dns_queries db)
        in (db\<lparr>pd_dns_queries := filter (\<lambda>(_, row). \<not> dq_ts row < cutoff) (pd_dns_queries db)\<rparr>,
            Inr (length old))))"

definition dns_queries_count :: "panel_db \<Rightarrow> db_error + nat" where
  "dns_queries_count db = (if pd_online db then Inr (length (pd_dns_queries db)) else Inl SqliteFailed)"

section \<open>Invariant of the tables\<close>

definition domains_ok :: "panel_db \<Rightarrow> bool" where
  "domains_ok db \<longleftrightarrow> distinct (map dr_pattern (pd_domains db)) \<and> distinct (map dr_id (pd_domains db))
     \<and> (\<forall>r \<in> set (pd_domains db). dr_id r \<le> pd_domain_seq db \<and> to_lowercase (dr_pattern r) = dr_pattern r
          \<and> dr_kind r \<in> {''wildcard'', ''exact''} \<and> dr_mode r \<in> {''direct'', ''relay''})"

definition queries_ok :: "panel_db \<Rightarrow> bool" where
  "queries_ok db \<longleftrightarrow> sorted_wrt (<) (map fst (pd_dns_queries db)) \<and> (\<forall>i \<in> fst ` set (pd_dns_queries db). i \<le> pd_dns_seq db)"

definition db_ok :: "panel_db \<Rightarrow> bool" where
  "db_ok db \<longleftrightarrow> hm_wf (pd_settings db) \<and> hm_wf (pd_sessions db) \<and> hm_wf (pd_traffic_by_ip db)
     \<and> hm_wf (pd_traffic_by_ip_domain db) \<and> domains_ok db \<and> queries_ok db"

lemma db_ok_empty: "db_ok empty_db"
  by (simp add: db_ok_def empty_db_def hm_wf_def domains_ok_def queries_ok_def)

lemma db_kind_mode: "db_kind k \<in> {''wildcard'', ''exact''}" "db_mode m \<in> {''direct'', ''relay''}"
  by (simp_all add: db_kind_def db_mode_def)

lemma domains_ok_insert:
  assumes "domains_ok db" and "\<not> has_pattern p (pd_domains db)" and "to_lowercase p = p"
    and "kind \<in> {''wildcard'', ''exact''}" and "mode \<in> {''direct'', ''relay''}"
  shows "domains_ok (insert_domain p kind mode note created db)"
proof -
  have "Suc (pd_domain_seq db) \<notin> dr_id ` set (pd_domains db)"
    using assms(1) by (auto simp: domains_ok_def)
  then show ?thesis
    using assms by (auto simp: domains_ok_def insert_domain_def Let_def has_pattern_def list_ex_iff)
qed

lemma db_ok_insert_domain:
  assumes "db_ok db" and "\<not> has_pattern p (pd_domains db)" and "to_lowercase p = p"
  shows "db_ok (insert_domain p (db_kind kind) (db_mode mode) note created db)"
proof -
  have "domains_ok (insert_domain p (db_kind kind) (db_mode mode) note created db)"
    using assms by (intro domains_ok_insert) (simp_all add: db_ok_def db_kind_def db_mode_def)
  then show ?thesis
    using assms(1) by (simp add: db_ok_def queries_ok_def) (simp add: insert_domain_def Let_def)
qed

lemma domains_ok_mode:
  "domains_ok db \<Longrightarrow> mode \<in> {''direct'', ''relay''} \<Longrightarrow>
   domains_ok (db\<lparr>pd_domains := map (\<lambda>r. if P r then r\<lparr>dr_mode := mode\<rparr> else r) (pd_domains db)\<rparr>)"
  by (auto simp: domains_ok_def comp_def if_distrib cong: if_cong)

lemma distinct_map_override:
  assumes "distinct (map f xs)" and "distinct (map g xs)" and "\<forall>x \<in> set xs. f x = i \<or> g x \<noteq> p"
  shows "distinct (map (\<lambda>x. if f x = i then p else g x) xs)"
  using assms by (induction xs) (auto simp: image_iff)

lemma domains_ok_update:
  assumes "domains_ok db" and "\<not> list_ex (\<lambda>r. dr_pattern r = p \<and> int (dr_id r) \<noteq> i) (pd_domains db)"
    and "to_lowercase p = p"
  shows "domains_ok (db\<lparr>pd_domains := map (\<lambda>r. if int (dr_id r) = i
    then r\<lparr>dr_pattern := p, dr_kind := db_kind kind, dr_mode := db_mode mode, dr_note := note\<rparr> else r) (pd_domains db)\<rparr>)"
proof -
  have "distinct (map (\<lambda>r. int (dr_id r)) (pd_domains db))"
    using assms(1) by (simp add: domains_ok_def distinct_map inj_on_def)
  then have "distinct (map (\<lambda>r. if int (dr_id r) = i then p else dr_pattern r) (pd_domains db))"
    by (rule distinct_map_override) (use assms in \<open>auto simp: domains_ok_def list_ex_iff\<close>)
  then show ?thesis
    using assms(1,3)
    by (auto simp: domains_ok_def comp_def if_distrib db_kind_def db_mode_def cong: if_cong)
qed

lemma domains_ok_filter: "domains_ok db \<Longrightarrow> domains_ok (db\<lparr>pd_domains := filter P (pd_domains db)\<rparr>)"
  by (auto simp: domains_ok_def distinct_map_filter)

lemma import_line_lower: "import_line raw = Some (kind, p) \<Longrightarrow> to_lowercase p = p \<and> kind \<in> {''wildcard'', ''exact''}"
proof -
  assume a: "import_line raw = Some (kind, p)"
  let ?l = "to_lowercase (trim raw)"
  from a consider "p = ?l" "kind = ''exact''" | "?l = ''*.'' @ p" "kind = ''wildcard''"
    by (auto simp: import_line_def Let_def split: if_splits option.splits)
  then show ?thesis
  proof cases
    case 2
    then have "to_lowercase (''*.'' @ p) = ''*.'' @ p" by (metis to_lowercase_idem)
    with 2 show ?thesis by (simp add: to_lowercase_def ascii_lower_def)
  qed simp
qed

definition unchanged_but_domains :: "panel_db \<Rightarrow> panel_db \<Rightarrow> bool" where
  "unchanged_but_domains db db' \<longleftrightarrow>
     pd_online db' = pd_online db \<and> pd_settings db' = pd_settings db \<and> pd_sessions db' = pd_sessions db
     \<and> pd_traffic_by_ip db' = pd_traffic_by_ip db \<and> pd_traffic_by_ip_domain db' = pd_traffic_by_ip_domain db
     \<and> pd_dns_queries db' = pd_dns_queries db \<and> pd_dns_seq db' = pd_dns_seq db"

lemma foldl_upsert_domain:
  assumes "domains_ok db" and "mode \<in> {''direct'', ''relay''}"
    and "\<forall>(kind, p) \<in> set kps. to_lowercase p = p \<and> kind \<in> {''wildcard'', ''exact''}"
  shows "domains_ok (foldl (upsert_domain mode created) db kps)
    \<and> unchanged_but_domains db (foldl (upsert_domain mode created) db kps)"
  using assms
proof (induction kps arbitrary: db)
  case (Cons kp kps)
  obtain kind p where kp: "kp = (kind, p)" by (cases kp)
  have "domains_ok (upsert_domain mode created db kp)"
    using Cons.prems by (auto simp: upsert_domain_def kp intro: domains_ok_mode domains_ok_insert)
  moreover have "unchanged_but_domains db (upsert_domain mode created db kp)"
    by (simp add: upsert_domain_def kp unchanged_but_domains_def insert_domain_def Let_def)
  ultimately show ?case
    using Cons.IH [of "upsert_domain mode created db kp"] Cons.prems
    by (simp add: unchanged_but_domains_def)
qed (simp add: unchanged_but_domains_def)

lemma import_lines_lower: "\<forall>(kind, p) \<in> set (List.map_filter import_line ls).
    to_lowercase p = p \<and> kind \<in> {''wildcard'', ''exact''}"
  by (induction ls) (auto simp: List.map_filter_simps dest!: import_line_lower split: option.splits)

definition keeps_ok :: "(panel_db \<Rightarrow> 'a db_result) \<Rightarrow> bool" where
  "keeps_ok f \<longleftrightarrow> (\<forall>db. db_ok db \<longrightarrow> db_ok (fst (f db)))"

lemma keeps_ok_statement: "(\<And>db. db_ok db \<Longrightarrow> db_ok (fst (f db))) \<Longrightarrow> keeps_ok (statement f)"
  by (auto simp: keeps_ok_def statement_def)

lemma insert_dns_query_ok: "keeps_ok (insert_dns_query row)"
  unfolding insert_dns_query_def
proof (rule keeps_ok_statement)
  fix db assume "db_ok db"
  then show "db_ok (fst (let i = Suc (pd_dns_seq db)
      in (db\<lparr>pd_dns_seq := i, pd_dns_queries := pd_dns_queries db @ [(i, row)]\<rparr>, Inr i)))"
    by (auto simp: db_ok_def queries_ok_def domains_ok_def Let_def sorted_wrt_append less_Suc_eq_le)
qed

lemma foldl_keeps_ok: "(\<And>x. keeps_ok (f x)) \<Longrightarrow> db_ok db \<Longrightarrow> db_ok (foldl (\<lambda>db x. fst (f x db)) db xs)"
  by (induction xs arbitrary: db) (auto simp: keeps_ok_def)

lemma upsert_ok: "db_ok db \<Longrightarrow> db_ok (upsert_ip_domain day row (upsert_ip day now row db))"
  by (cases row) (simp add: upsert_ip_def upsert_ip_domain_def db_ok_def hm.inv_insert domains_ok_def queries_ok_def)

lemma foldl_upsert_ok:
  "db_ok db \<Longrightarrow> db_ok (foldl (\<lambda>db row. upsert_ip_domain day row (upsert_ip day now row db)) db rows)"
  by (induction rows arbitrary: db) (simp_all add: upsert_ok)

lemma sorted_filter_fst: "sorted_wrt (<) (map fst xs) \<Longrightarrow> sorted_wrt (<) (map fst (filter P xs))" for xs :: "(nat \<times> 'a) list"
  by (induction xs) auto

lemma keeps_operations:
  "keeps_ok (set_setting key v)" "keeps_ok (create_session ck now token ttl)" "keeps_ok (delete_session token)"
  "keeps_ok (cleanup_sessions ck now)" "keeps_ok (apply_traffic_batch ck now rows)"
  "keeps_ok (add_domain ck now pattern kind mode note)" "keeps_ok (update_domain i pattern kind mode note)"
  "keeps_ok (delete_domain i)" "keeps_ok (import_domains ck now txt mode)"
  "keeps_ok (insert_dns_query q)" "keeps_ok (insert_dns_queries_batch qs)"
  "keeps_ok (update_dns_query_result j action answer)" "keeps_ok clear_dns_queries"
  "keeps_ok (prune_dns_queries ck now hours)"
proof -
  show "keeps_ok (set_setting key v)" "keeps_ok (delete_session token)" "keeps_ok clear_dns_queries"
    unfolding set_setting_def delete_session_def clear_dns_queries_def
    by (rule keeps_ok_statement, simp add: db_ok_def hm.inv_insert hm.inv_remove domains_ok_def queries_ok_def)+
  show "keeps_ok (cleanup_sessions ck now)"
    unfolding cleanup_sessions_def
    by (rule keeps_ok_statement)
      (simp add: db_ok_def hm_wf_def distinct_map_filter domains_ok_def queries_ok_def)
  show "keeps_ok (create_session ck now token ttl)"
    unfolding create_session_def
    by (rule keeps_ok_statement) (simp add: db_ok_def hm.inv_insert domains_ok_def queries_ok_def)
  show "keeps_ok (apply_traffic_batch ck now rows)"
    by (simp add: keeps_ok_def apply_traffic_batch_def statement_def foldl_upsert_ok)
  show "keeps_ok (add_domain ck now pattern kind mode note)"
    by (simp add: keeps_ok_def add_domain_def statement_def Let_def db_ok_insert_domain)
  show "keeps_ok (update_domain i pattern kind mode note)"
    unfolding update_domain_def Let_def
    by (rule keeps_ok_statement) (simp add: db_ok_def domains_ok_update queries_ok_def)
  show "keeps_ok (delete_domain i)"
    unfolding delete_domain_def
    by (rule keeps_ok_statement) (simp add: db_ok_def domains_ok_filter queries_ok_def)
  show "keeps_ok (import_domains ck now txt mode)"
    unfolding import_domains_def
  proof (rule keeps_ok_statement)
    fix db assume ok: "db_ok db"
    have m: "db_mode mode \<in> {''direct'', ''relay''}" by (rule db_kind_mode)
    show "db_ok (fst (let kps = List.map_filter import_line (lines txt)
        in (foldl (upsert_domain (db_mode mode) (ck_rfc3339 ck now)) db kps, Inr (length kps))))"
      using foldl_upsert_domain [OF _ m import_lines_lower] ok
      by (simp add: Let_def db_ok_def unchanged_but_domains_def queries_ok_def)
  qed
  show "keeps_ok (insert_dns_query q)" by (rule insert_dns_query_ok)
  show "keeps_ok (insert_dns_queries_batch qs)"
    using foldl_keeps_ok [of insert_dns_query, OF insert_dns_query_ok]
    by (simp add: keeps_ok_def insert_dns_queries_batch_def statement_def)
  show "keeps_ok (update_dns_query_result j action answer)"
    unfolding update_dns_query_result_def
    by (rule keeps_ok_statement)
      (auto simp: db_ok_def domains_ok_def queries_ok_def comp_def case_prod_beta image_image)
  show "keeps_ok (prune_dns_queries ck now hours)"
    unfolding prune_dns_queries_def
    by (rule keeps_ok_statement) (auto simp: db_ok_def domains_ok_def queries_ok_def Let_def sorted_filter_fst)
qed

text \<open>C37: 
  The tables keep their keys under every operation: domain patterns and ids stay
  unique and patterns lower case, kinds and modes stay within their values, query ids increase,
  and settings, sessions and traffic rows have one row per key.
\<close>

theorem panel_db_invariant:
  "db_ok empty_db
   \<and> keeps_ok (set_setting key v) \<and> keeps_ok (create_session ck now token ttl) \<and> keeps_ok (delete_session token)
   \<and> keeps_ok (cleanup_sessions ck now) \<and> keeps_ok (apply_traffic_batch ck now rows)
   \<and> keeps_ok (add_domain ck now pattern kind mode note) \<and> keeps_ok (update_domain i pattern kind mode note)
   \<and> keeps_ok (delete_domain i) \<and> keeps_ok (import_domains ck now txt mode)
   \<and> keeps_ok (insert_dns_query q) \<and> keeps_ok (insert_dns_queries_batch qs)
   \<and> keeps_ok (update_dns_query_result j action answer) \<and> keeps_ok clear_dns_queries
   \<and> keeps_ok (prune_dns_queries ck now hours)"
  by (intro conjI db_ok_empty keeps_operations)

section \<open>Sessions\<close>

definition valid_at :: "clock \<Rightarrow> nat \<Rightarrow> string \<Rightarrow> panel_db \<Rightarrow> bool" where
  "valid_at ck now token db \<longleftrightarrow> session_valid ck now token db = Inr True"

lemma map_of_filter_ok: "distinct (map fst xs) \<Longrightarrow>
    map_of (filter P xs) k = (case map_of xs k of Some v \<Rightarrow> if P (k, v) then Some v else None | None \<Rightarrow> None)"
  by (induction xs) (auto split: option.splits simp: map_of_eq_None_iff rev_image_eqI)

text \<open>
  A login session is valid from its creation until its time to live is over and
  no longer; deleting it ends it at once. The hourly clean-up removes no session that is still valid,
  and none of these operations touches the session of another token.
\<close>

theorem session_lifetime:
  assumes "texts_in_order ck" and "db_ok db" and "pd_online db" and "\<not> hm_contains (pd_sessions db) token"
  shows "\<exists>db'. create_session ck now token ttl db = (db', Inr ())
    \<and> (\<forall>t. valid_at ck t token db' \<longleftrightarrow> t < now + ttl * HOUR)
    \<and> (\<forall>t. \<not> valid_at ck t token (fst (delete_session token db')))
    \<and> (\<forall>t s. s \<le> t \<longrightarrow> valid_at ck t token (fst (cleanup_sessions ck s db')) = valid_at ck t token db')
    \<and> (\<forall>other t. other \<noteq> token \<longrightarrow> valid_at ck t other db' = valid_at ck t other db
         \<and> valid_at ck t other (fst (delete_session token db')) = valid_at ck t other db)"
proof -
  define db' where "db' = db\<lparr>pd_sessions := hm_insert token
      (ck_rfc3339 ck now, ck_rfc3339 ck (now + ttl * HOUR)) (pd_sessions db)\<rparr>"
  have create: "create_session ck now token ttl db = (db', Inr ())"
    using assms(3,4) by (simp add: create_session_def statement_def db'_def)
  have wf: "hm_wf (pd_sessions db)" using assms(2) by (simp add: db_ok_def)
  have wf': "hm_wf (pd_sessions db')" using wf by (simp add: db'_def hm.inv_insert)
  have online: "pd_online db'" using assms(3) by (simp add: db'_def)
  have get: "hm_get (pd_sessions db') j =
      (if j = token then Some (ck_rfc3339 ck now, ck_rfc3339 ck (now + ttl * HOUR)) else hm_get (pd_sessions db) j)" for j
    using wf by (simp add: db'_def hm.get_insert)
  have order: "ck_rfc3339 ck a < ck_rfc3339 ck b \<longleftrightarrow> a < b" for a b
    using assms(1) by (simp add: texts_in_order_def)
  have own: "valid_at ck t token db' \<longleftrightarrow> t < now + ttl * HOUR" for t
    using online by (simp add: valid_at_def session_valid_def get order)
  moreover have del: "\<not> valid_at ck t token (fst (delete_session token db'))" for t
    using online wf' by (simp add: valid_at_def session_valid_def delete_session_def statement_def hm.get_remove)
  moreover have "valid_at ck t token (fst (cleanup_sessions ck s db')) = valid_at ck t token db'" if "s \<le> t" for t s
  proof -
    have "hm_get (pd_sessions (fst (cleanup_sessions ck s db'))) token =
        (if s < now + ttl * HOUR then hm_get (pd_sessions db') token else None)"
      using online wf' get [of token]
      by (simp add: cleanup_sessions_def statement_def hm_get_def hm_wf_def map_of_filter_ok not_le order)
    moreover have "pd_online (fst (cleanup_sessions ck s db'))"
      using online by (simp add: cleanup_sessions_def statement_def)
    ultimately show ?thesis
      using that own [of t] by (auto simp: valid_at_def session_valid_def online get order)
  qed
  moreover have "valid_at ck t other db' = valid_at ck t other db
      \<and> valid_at ck t other (fst (delete_session token db')) = valid_at ck t other db" if "other \<noteq> token" for other t
    using that online wf' assms(3)
    by (simp add: valid_at_def session_valid_def delete_session_def statement_def hm.get_remove get)
  ultimately show ?thesis using create by blast
qed

definition sample_clock :: clock where
  "sample_clock = \<lparr>ck_rfc3339 = (\<lambda>t. replicate t (CHR ''0'')), ck_day = (\<lambda>_. ''2026-10-07'')\<rparr>"

lemma replicate_less: "replicate s c < replicate t c \<longleftrightarrow> s < t" for c :: char
proof (induction s arbitrary: t)
  case 0
  then show ?case by (cases t) simp_all
next
  case (Suc s)
  then show ?case by (cases t) simp_all
qed

theorem session_lifetime_witness:
  "\<exists>db'. create_session sample_clock 5 ''t'' 1 empty_db = (db', Inr ())
     \<and> (\<forall>t. valid_at sample_clock t ''t'' db' \<longleftrightarrow> t < 5 + HOUR)"
proof -
  have "texts_in_order sample_clock" by (simp add: texts_in_order_def sample_clock_def replicate_less)
  moreover have "pd_online empty_db" "\<not> hm_contains (pd_sessions empty_db) ''t''"
    by (simp_all add: empty_db_def hm_contains_def hm_get_def)
  ultimately show ?thesis
    using session_lifetime [OF _ db_ok_empty, of sample_clock "''t''" 5 1] by auto
qed

section \<open>Traffic totals\<close>

definition merge_ip :: "string \<Rightarrow> sample_row \<Rightarrow> ip_row option \<Rightarrow> ip_row" where
  "merge_ip now row old =
     (case row of (_, _, up, down) \<Rightarrow>
        (case old of
           None \<Rightarrow> \<lparr>ir_bytes_up = as_i64 up, ir_bytes_down = as_i64 down, ir_sessions = SInt 1, ir_last_seen = now\<rparr>
         | Some r \<Rightarrow>
             \<lparr>ir_bytes_up = sql_add (ir_bytes_up r) (as_i64 up), ir_bytes_down = sql_add (ir_bytes_down r) (as_i64 down),
              ir_sessions = sql_add (ir_sessions r) (SInt 1), ir_last_seen = now\<rparr>))"

lemma upsert_ip_table:
  "pd_traffic_by_ip (upsert_ip_domain day row (upsert_ip day now row db)) =
     hm_insert (day, fst row) (merge_ip now row (hm_get (pd_traffic_by_ip db) (day, fst row))) (pd_traffic_by_ip db)"
  by (cases row) (simp add: upsert_ip_def upsert_ip_domain_def merge_ip_def)

lemma upsert_online: "pd_online (upsert_ip_domain day row (upsert_ip day now row db)) = pd_online db"
  by (cases row) (simp add: upsert_ip_def upsert_ip_domain_def)

text \<open>A numeric column of the table and what a sample adds to it.\<close>

definition column :: "(ip_row \<Rightarrow> sql_num) \<Rightarrow> (sample_row \<Rightarrow> int) \<Rightarrow> bool" where
  "column f g \<longleftrightarrow> (\<forall>now row old. f (merge_ip now row old) =
     (case old of None \<Rightarrow> SInt (g row) | Some r \<Rightarrow> sql_add (f r) (SInt (g row))))"

fun up_of :: "sample_row \<Rightarrow> int" where
  "up_of (_, _, up, _) = sint up"

fun down_of :: "sample_row \<Rightarrow> int" where
  "down_of (_, _, _, down) = sint down"

lemma columns: "column ir_bytes_up up_of" "column ir_bytes_down down_of" "column ir_sessions (\<lambda>_. 1)"
  by (auto simp: column_def merge_ip_def as_i64_def split: option.splits)

fun num :: "sql_num \<Rightarrow> int" where
  "num (SInt n) = n"
| "num SReal = 0"

definition day_sum :: "(ip_row \<Rightarrow> sql_num) \<Rightarrow> string \<Rightarrow> (string \<times> string, ip_row) hash_map \<Rightarrow> int" where
  "day_sum f d tbl = sum_list (map (\<lambda>(k, r). if fst k = d then num (f r) else 0) tbl)"

definition sample_sum :: "(sample_row \<Rightarrow> int) \<Rightarrow> string \<Rightarrow> (string \<times> sample_row) list \<Rightarrow> int" where
  "sample_sum g d S = sum_list (map (\<lambda>(day, row). if day = d then g row else 0) S)"

definition sample_total :: "(sample_row \<Rightarrow> int) \<Rightarrow> (string \<times> sample_row) list \<Rightarrow> int" where
  "sample_total g S = sum_list (map (\<lambda>(_, row). g row) S)"

definition small :: "(sample_row \<Rightarrow> int) \<Rightarrow> (string \<times> sample_row) list \<Rightarrow> bool" where
  "small g S \<longleftrightarrow> (\<forall>(_, row) \<in> set S. 0 \<le> g row) \<and> sample_total g S < 2 ^ 63"

definition column_ok ::
    "(ip_row \<Rightarrow> sql_num) \<Rightarrow> (sample_row \<Rightarrow> int) \<Rightarrow> (string \<times> sample_row) list \<Rightarrow> (string \<times> string, ip_row) hash_map \<Rightarrow> bool" where
  "column_ok f g S tbl \<longleftrightarrow> (\<forall>(_, r) \<in> set tbl. \<exists>n \<ge> 0. f r = SInt n) \<and> (\<forall>d. day_sum f d tbl = sample_sum g d S)"

lemma sum_update:
  fixes g :: "'k \<times> 'v \<Rightarrow> int"
  assumes "distinct (map fst m)"
  shows "sum_list (map g (AList.update k v m)) =
    sum_list (map g m) + g (k, v) - (case map_of m k of None \<Rightarrow> 0 | Some w \<Rightarrow> g (k, w))"
  using assms
proof (induction m)
  case (Cons kv m)
  then show ?case
    by (cases kv) (auto simp: map_of_eq_None_iff split: option.splits dest: map_of_SomeD intro: rev_image_eqI)
qed simp

lemma sum_list_nonneg_int: "\<forall>x \<in> set xs. 0 \<le> x \<Longrightarrow> 0 \<le> sum_list xs" for xs :: "int list"
  by (induction xs) auto

lemma member_le_sum_list_int: "\<forall>x \<in> set xs. 0 \<le> x \<Longrightarrow> x \<in> set xs \<Longrightarrow> x \<le> sum_list xs" for xs :: "int list"
proof (induction xs)
  case (Cons y ys)
  then show ?case using sum_list_nonneg_int [of ys] by (cases "x = y") auto
qed simp

lemma entry_le_day_sum:
  assumes "\<forall>(_, r) \<in> set tbl. \<exists>n \<ge> 0. f r = SInt n" and "((d, ip), r) \<in> set tbl"
  shows "num (f r) \<le> day_sum f d tbl"
proof -
  let ?g = "\<lambda>(k, r). if fst k = d then num (f r) else 0"
  have "\<forall>x \<in> set (map ?g tbl). 0 \<le> x" using assms(1) by fastforce
  moreover have "?g ((d, ip), r) \<in> set (map ?g tbl)" using assms(2) by (simp only: set_map) (rule imageI)
  ultimately have "?g ((d, ip), r) \<le> sum_list (map ?g tbl)" by (rule member_le_sum_list_int)
  then show ?thesis by (simp add: day_sum_def)
qed

lemma sample_sum_le_total: "\<forall>(_, row) \<in> set S. 0 \<le> g row \<Longrightarrow> sample_sum g d S \<le> sample_total g S"
  by (induction S) (auto simp: sample_sum_def sample_total_def)

lemma columnD:
  assumes "column f g"
  shows "f (merge_ip now row None) = SInt (g row)"
    and "f (merge_ip now row (Some r)) = sql_add (f r) (SInt (g row))"
proof -
  have "f (merge_ip now row old) = (case old of None \<Rightarrow> SInt (g row) | Some r \<Rightarrow> sql_add (f r) (SInt (g row)))" for old
    using assms unfolding column_def by blast
  from this [of None] this [of "Some r"]
  show "f (merge_ip now row None) = SInt (g row)" "f (merge_ip now row (Some r)) = sql_add (f r) (SInt (g row))"
    by simp_all
qed

lemma column_step:
  assumes "column f g" and "hm_wf tbl" and "column_ok f g S tbl" and "small g (S @ [(day, row)])"
  shows "column_ok f g (S @ [(day, row)])
    (hm_insert (day, fst row) (merge_ip now row (hm_get tbl (day, fst row))) tbl)"
proof -
  let ?k = "(day, fst row)"
  let ?v = "merge_ip now row (hm_get tbl ?k)"
  have ints: "\<forall>(_, r) \<in> set tbl. \<exists>n \<ge> 0. f r = SInt n" and sums: "\<And>d. day_sum f d tbl = sample_sum g d S"
    using assms(3) by (simp_all add: column_ok_def)
  have pos: "\<forall>(_, row) \<in> set S. 0 \<le> g row" "0 \<le> g row" and bound: "sample_total g S + g row < 2 ^ 63"
    using assms(4) by (auto simp: small_def sample_total_def)
  define old where "old = (case map_of tbl ?k of None \<Rightarrow> 0 | Some r \<Rightarrow> num (f r))"
  have "0 \<le> old \<and> f ?v = SInt (old + g row)"
  proof (cases "map_of tbl ?k")
    case None
    then show ?thesis by (simp add: old_def hm_get_def columnD [OF assms(1)])
  next
    case (Some r)
    then have r: "(?k, r) \<in> set tbl" by (rule map_of_SomeD)
    then obtain n where n: "0 \<le> n" "f r = SInt n" using ints by fastforce
    have "n \<le> sample_total g S"
      using entry_le_day_sum [OF ints r] sample_sum_le_total [OF pos(1), of day] by (simp add: sums n(2))
    then have "fits_i64 (n + g row)" using bound n(1) pos(2) by (simp add: fits_i64_def)
    then show ?thesis using Some n by (simp add: old_def hm_get_def columnD [OF assms(1)])
  qed
  then have old: "num (f ?v) = old + g row" "\<exists>n \<ge> 0. f ?v = SInt n" using pos(2) by auto
  have "day_sum f d (hm_insert ?k ?v tbl) = day_sum f d tbl + (if day = d then g row else 0)" for d
    using sum_update [of tbl "\<lambda>(k, r). if fst k = d then num (f r) else 0" ?k ?v] assms(2) old(1)
    by (cases "map_of tbl ?k") (auto simp: day_sum_def hm_insert_def hm_wf_def old_def)
  moreover have "\<forall>(_, r) \<in> set (hm_insert ?k ?v tbl). \<exists>n \<ge> 0. f r = SInt n"
    using set_hm_insert [of ?k ?v tbl] ints old(2) by fastforce
  ultimately show ?thesis
    by (simp add: column_ok_def sums sample_sum_def)
qed

text \<open>The batches a run of the panel stores, each at its time, and their samples by day.\<close>

definition record_batches :: "clock \<Rightarrow> (nat \<times> sample_row list) list \<Rightarrow> panel_db \<Rightarrow> panel_db" where
  "record_batches ck batches db = foldl (\<lambda>db (now, rows). fst (apply_traffic_batch ck now rows db)) db batches"

definition samples :: "clock \<Rightarrow> (nat \<times> sample_row list) list \<Rightarrow> (string \<times> sample_row) list" where
  "samples ck batches = concat (map (\<lambda>(now, rows). map (Pair (ck_day ck now)) rows) batches)"

definition small_samples :: "(string \<times> sample_row) list \<Rightarrow> bool" where
  "small_samples S \<longleftrightarrow> small up_of S \<and> small down_of S \<and> small (\<lambda>_. 1) S"

definition table_ok :: "(string \<times> sample_row) list \<Rightarrow> panel_db \<Rightarrow> bool" where
  "table_ok S db \<longleftrightarrow> (let tbl = pd_traffic_by_ip db in
     pd_online db \<and> hm_wf tbl \<and> (\<lambda>(k, _). fst k) ` set tbl = fst ` set S
     \<and> column_ok ir_bytes_up up_of S tbl \<and> column_ok ir_bytes_down down_of S tbl
     \<and> column_ok ir_sessions (\<lambda>_. 1) S tbl)"

lemma small_append: "small g (S @ T) \<Longrightarrow> small g S"
proof -
  assume a: "small g (S @ T)"
  have "\<forall>x \<in> set (map (\<lambda>(_, row). g row) T). 0 \<le> x"
    using a unfolding small_def by fastforce
  then have "0 \<le> sample_total g T"
    unfolding sample_total_def by (rule sum_list_nonneg_int)
  with a show ?thesis by (auto simp: small_def sample_total_def)
qed

lemma table_step:
  assumes "table_ok S db" and "small_samples (S @ [(day, row)])"
  shows "table_ok (S @ [(day, row)]) (upsert_ip_domain day row (upsert_ip day now row db))"
proof -
  let ?tbl = "pd_traffic_by_ip db"
  let ?new = "hm_insert (day, fst row) (merge_ip now row (hm_get ?tbl (day, fst row))) ?tbl"
  have wf: "hm_wf ?tbl" and online: "pd_online db" and days: "(\<lambda>(k, _). fst k) ` set ?tbl = fst ` set S"
    using assms(1) by (simp_all add: table_ok_def Let_def)
  have "(\<lambda>(k, _). fst k) ` set ?new = insert day (fst ` set S)"
  proof -
    have "fst ` set ?new = insert (day, fst row) (fst ` set ?tbl)"
      by (simp add: hm_insert_def dom_update)
    then have "fst ` fst ` set ?new = insert day (fst ` fst ` set ?tbl)" by simp
    then show ?thesis using days by (simp add: image_image case_prod_beta)
  qed
  moreover have "hm_wf ?new" using wf by (rule hm.inv_insert)
  ultimately show ?thesis
    using assms online wf column_step [OF columns(1)] column_step [OF columns(2)] column_step [OF columns(3)]
    by (simp add: table_ok_def upsert_ip_table upsert_online Let_def small_samples_def)
qed

lemma table_batch:
  assumes "table_ok S db" and "small_samples (S @ map (Pair day) rows)"
  shows "table_ok (S @ map (Pair day) rows)
    (foldl (\<lambda>db row. upsert_ip_domain day row (upsert_ip day now row db)) db rows)"
  using assms
proof (induction rows arbitrary: S db)
  case (Cons row rows)
  have "small_samples (S @ [(day, row)])"
    using Cons.prems(2) small_append [of _ "S @ [(day, row)]" "map (Pair day) rows"]
    by (simp add: small_samples_def)
  with Cons.prems(1) have "table_ok (S @ [(day, row)]) (upsert_ip_domain day row (upsert_ip day now row db))"
    by (rule table_step)
  then show ?case using Cons.IH Cons.prems(2) by fastforce
qed simp

lemma table_batches:
  assumes "table_ok S db" and "small_samples (S @ samples ck batches)"
  shows "table_ok (S @ samples ck batches) (record_batches ck batches db)"
  using assms
proof (induction batches arbitrary: S db)
  case (Cons batch batches)
  obtain now rows where b: "batch = (now, rows)" by (cases batch)
  let ?S = "S @ map (Pair (ck_day ck now)) rows"
  have "small_samples ?S"
    using Cons.prems(2) small_append [of _ ?S "samples ck batches"]
    by (simp add: small_samples_def samples_def b)
  moreover have "pd_online db" using Cons.prems(1) by (simp add: table_ok_def Let_def)
  ultimately have "table_ok ?S (fst (apply_traffic_batch ck now rows db))"
    using table_batch [OF Cons.prems(1)] Cons.prems(1) by (simp add: apply_traffic_batch_def statement_def)
  then show ?case
    using Cons.IH [of ?S] Cons.prems(2) by (simp add: record_batches_def samples_def b)
qed (simp add: record_batches_def samples_def)

lemma foldl_sum_step:
  assumes "\<forall>n \<in> set ns. \<exists>a \<ge> 0. n = SInt a" and "0 \<le> b" and "b + sum_list (map num ns) < 2 ^ 63"
  shows "foldl sql_sum_step (Some b) ns = Some (b + sum_list (map num ns))"
  using assms
proof (induction ns arbitrary: b)
  case (Cons n ns)
  obtain a where a: "0 \<le> a" "n = SInt a" using Cons.prems(1) by auto
  have "\<forall>x \<in> set (map num ns). 0 \<le> x" using Cons.prems(1) by auto
  then have "0 \<le> sum_list (map num ns)" by (rule sum_list_nonneg_int)
  then have "fits_i64 (b + a)" using Cons.prems(2,3) a by (simp add: fits_i64_def)
  then show ?case using Cons a by (simp add: add.assoc)
qed simp

lemma all_some_map: "all_some (map (\<lambda>x. Some (h x)) xs) = Some (map h xs)"
  by (induction xs) auto

lemma group_keys_set: "set ks = set ks' \<Longrightarrow> group_keys ks = group_keys ks'"
  by (simp add: group_keys_def sorted_list_of_set_sort_remdups [symmetric])

lemma day_group_sum:
  assumes "column_ok f g S tbl" and "small g S"
  shows "sql_sum (map f (map snd (filter (\<lambda>((day, _), _). day = d) tbl))) = Some (sample_sum g d S)"
proof -
  have ints: "\<forall>(_, r) \<in> set tbl. \<exists>n \<ge> 0. f r = SInt n" and sums: "day_sum f d tbl = sample_sum g d S"
    using assms(1) by (simp_all add: column_ok_def)
  let ?ns = "map f (map snd (filter (\<lambda>((day, _), _). day = d) tbl))"
  have "sum_list (map num ?ns) = day_sum f d tbl"
    unfolding day_sum_def by (induction tbl) (auto split: prod.splits)
  moreover have "sample_sum g d S < 2 ^ 63"
    using assms(2) sample_sum_le_total [of S g d] by (simp add: small_def)
  ultimately show ?thesis
    using foldl_sum_step [of ?ns 0] ints sums by (fastforce simp: sql_sum_def)
qed

text \<open>C34: 
  The daily report is the sum of what was recorded: for every day of the range on
  which a session ended, in order, the bytes up and down and the number of the samples of that day,
  whatever clients and domains they belong to and however they were batched, as long as the totals
  fit into 63 bits.
\<close>

theorem daily_totals_exact:
  assumes "small_samples (samples ck batches)"
  shows "daily_totals from_day to_day (record_batches ck batches empty_db) =
    Inr (map (\<lambda>d. (d, sample_sum up_of d (samples ck batches), sample_sum down_of d (samples ck batches),
                     sample_sum (\<lambda>_. 1) d (samples ck batches)))
           (group_keys (filter (in_days from_day to_day) (map fst (samples ck batches)))))"
proof -
  let ?S = "samples ck batches" and ?db = "record_batches ck batches empty_db"
  let ?tbl = "pd_traffic_by_ip ?db"
  have "table_ok [] empty_db"
    by (simp add: table_ok_def empty_db_def hm_wf_def column_ok_def day_sum_def sample_sum_def)
  then have ok: "table_ok ?S ?db" using table_batches [of "[]" empty_db ck batches] assms by simp
  let ?rows = "filter (\<lambda>((day, _), _). in_days from_day to_day day) ?tbl"
  have group: "sums_of ir_bytes_up ir_bytes_down ir_sessions (map snd (filter (\<lambda>((day, _), _). day = d) ?rows)) =
      Some (sample_sum up_of d ?S, sample_sum down_of d ?S, sample_sum (\<lambda>_. 1) d ?S)" if "in_days from_day to_day d" for d
  proof -
    have "filter (\<lambda>((day, _), _). day = d) ?rows = filter (\<lambda>((day, _), _). day = d) ?tbl"
      using that by (auto intro: filter_cong)
    then show ?thesis
      using ok assms day_group_sum [of ir_bytes_up up_of ?S ?tbl] day_group_sum [of ir_bytes_down down_of ?S ?tbl]
        day_group_sum [of ir_sessions "\<lambda>_. 1" ?S ?tbl]
      by (simp add: table_ok_def Let_def small_samples_def sums_of_def comp_def)
  qed
  have days: "(\<lambda>(k, _). fst k) ` set ?tbl = fst ` set ?S" using ok by (simp add: table_ok_def Let_def)
  have keys: "group_keys (map (\<lambda>((day, _), _). day) ?rows) = group_keys (filter (in_days from_day to_day) (map fst ?S))"
  proof (rule group_keys_set)
    have "set (map (\<lambda>((day, _), _). day) ?rows) = {d \<in> (\<lambda>(k, _). fst k) ` set ?tbl. in_days from_day to_day d}"
      by force
    then show "set (map (\<lambda>((day, _), _). day) ?rows) = set (filter (in_days from_day to_day) (map fst ?S))"
      unfolding days by auto
  qed
  have online: "pd_online ?db" using ok by (simp add: table_ok_def Let_def)
  have groups: "map (\<lambda>d. map_option (Pair d) (sums_of ir_bytes_up ir_bytes_down ir_sessions
        (map snd (filter (\<lambda>((day, _), _). day = d) ?rows))))
      (group_keys (filter (in_days from_day to_day) (map fst ?S)))
    = map (\<lambda>d. Some (d, sample_sum up_of d ?S, sample_sum down_of d ?S, sample_sum (\<lambda>_. 1) d ?S))
      (group_keys (filter (in_days from_day to_day) (map fst ?S)))"
  proof (rule map_cong [OF refl])
    fix d assume "d \<in> set (group_keys (filter (in_days from_day to_day) (map fst ?S)))"
    then have d: "in_days from_day to_day d" by (simp add: group_keys_def)
    show "map_option (Pair d) (sums_of ir_bytes_up ir_bytes_down ir_sessions
        (map snd (filter (\<lambda>((day, _), _). day = d) ?rows)))
      = Some (d, sample_sum up_of d ?S, sample_sum down_of d ?S, sample_sum (\<lambda>_. 1) d ?S)"
      unfolding group [OF d] by simp
  qed
  show ?thesis
    unfolding daily_totals_def Let_def keys groups all_some_map using online by simp
qed

theorem daily_totals_exact_witness:
  "daily_totals ''2026-10-01'' ''2026-10-31''
     (record_batches sample_clock [(0, [(''1.2.3.4'', ''a'', 100, 200), (''5.6.7.8'', ''a'', 1, 2)]),
        (1, [(''1.2.3.4'', ''b'', 50, 10)])] empty_db) = Inr [(''2026-10-07'', 151, 212, 3)]"
  (is "daily_totals _ _ (record_batches _ ?bs _) = _")
proof -
  have S: "samples sample_clock ?bs = [(''2026-10-07'', ''1.2.3.4'', ''a'', 100, 200),
      (''2026-10-07'', ''5.6.7.8'', ''a'', 1, 2), (''2026-10-07'', ''1.2.3.4'', ''b'', 50, 10)]"
    by (simp add: samples_def sample_clock_def)
  have "small_samples (samples sample_clock ?bs)"
    unfolding S by (simp add: small_samples_def small_def sample_total_def)
  from daily_totals_exact [OF this, of "''2026-10-01''" "''2026-10-31''"] show ?thesis
    unfolding S by (simp add: sample_sum_def group_keys_def in_days_def)
qed

end
