(* ===== verification/Relay_Traffic.thy ===== *)
theory Relay_Traffic
  imports Relay_PanelDb
begin

text \<open>
  The traffic aggregator of \<open>src/panel/traffic.rs\<close>: a task that takes the samples of finished
  sessions from a bounded queue (\<open>TrafficAggregator::record\<close> is part of the connection handler),
  buffers them and writes them to the database when 500 have gathered, at every tick and when the
  queue is closed. The lemmas show that while the database works every sample is stored once and in
  order, and that a batch the database refuses is lost.
\<close>

section \<open>The aggregator task\<close>

datatype agg_event = Recv sample_row | Closed | Tick

record aggregator =
  ag_buf :: "sample_row list"
  ag_db :: panel_db
  ag_running :: bool

definition FLUSH_LEN :: nat where
  "FLUSH_LEN = 500"

definition flush_buf :: "clock \<Rightarrow> nat \<Rightarrow> aggregator \<Rightarrow> aggregator" where
  "flush_buf ck now ag =
     (if ag_buf ag = [] then ag
      else ag\<lparr>ag_buf := [], ag_db := fst (apply_traffic_batch ck now (ag_buf ag) (ag_db ag))\<rparr>)"

fun agg_step :: "clock \<Rightarrow> aggregator \<Rightarrow> nat \<times> agg_event \<Rightarrow> aggregator" where
  "agg_step ck ag (now, Recv s) =
     (if \<not> ag_running ag then ag
      else
        (let ag = ag\<lparr>ag_buf := ag_buf ag @ [s]\<rparr>
         in if FLUSH_LEN \<le> length (ag_buf ag) then flush_buf ck now ag else ag))"
| "agg_step ck ag (now, Closed) =
     (if \<not> ag_running ag then ag else (flush_buf ck now ag)\<lparr>ag_running := False\<rparr>)"
| "agg_step ck ag (now, Tick) = (if \<not> ag_running ag then ag else flush_buf ck now ag)"

definition agg_run :: "clock \<Rightarrow> (nat \<times> agg_event) list \<Rightarrow> aggregator \<Rightarrow> aggregator" where
  "agg_run ck es ag = foldl (agg_step ck) ag es"

definition agg_start :: "panel_db \<Rightarrow> aggregator" where
  "agg_start db = \<lparr>ag_buf = [], ag_db = db, ag_running = True\<rparr>"

section \<open>Nothing is lost\<close>

text \<open>The samples received before the queue is closed.\<close>

fun received :: "(nat \<times> agg_event) list \<Rightarrow> sample_row list" where
  "received [] = []"
| "received ((_, Recv s) # es) = s # received es"
| "received ((_, Closed) # es) = []"
| "received ((_, Tick) # es) = received es"

lemma record_batches_append: "record_batches ck (bs @ cs) db = record_batches ck cs (record_batches ck bs db)"
  by (simp add: record_batches_def)

lemma online_batches: "pd_online db \<Longrightarrow> pd_online (record_batches ck bs db)"
proof (induction bs arbitrary: db)
  case (Cons b bs)
  have "pd_online (foldl (\<lambda>db row. upsert_ip_domain d row (upsert_ip d n row db)) db rows) = pd_online db" for d n rows db
    by (induction rows arbitrary: db) (simp_all add: upsert_online)
  with Cons show ?case
    by (cases b) (simp add: record_batches_def apply_traffic_batch_def statement_def)
qed (simp add: record_batches_def)

text \<open>What has been stored so far, as batches, and what is still buffered.\<close>

definition holds :: "clock \<Rightarrow> panel_db \<Rightarrow> sample_row list \<Rightarrow> aggregator \<Rightarrow> bool" where
  "holds ck db0 ss ag \<longleftrightarrow>
     (\<exists>bs. ag_db ag = record_batches ck bs db0 \<and> concat (map snd bs) @ ag_buf ag = ss
        \<and> (\<forall>b \<in> set bs. length (snd b) \<le> FLUSH_LEN))
     \<and> length (ag_buf ag) < FLUSH_LEN \<and> (\<not> ag_running ag \<longrightarrow> ag_buf ag = [])"

lemma holds_flush:
  assumes "\<exists>bs. ag_db ag = record_batches ck bs db0 \<and> concat (map snd bs) @ ag_buf ag = ss
        \<and> (\<forall>b \<in> set bs. length (snd b) \<le> FLUSH_LEN)" and "length (ag_buf ag) \<le> FLUSH_LEN"
  shows "holds ck db0 ss (flush_buf ck now ag)" and "ag_buf (flush_buf ck now ag) = []"
proof -
  obtain bs where bs: "ag_db ag = record_batches ck bs db0" "concat (map snd bs) @ ag_buf ag = ss"
    "\<forall>b \<in> set bs. length (snd b) \<le> FLUSH_LEN"
    using assms(1) by blast
  show empty: "ag_buf (flush_buf ck now ag) = []" by (simp add: flush_buf_def)
  show "holds ck db0 ss (flush_buf ck now ag)"
  proof (cases "ag_buf ag = []")
    case True
    with bs show ?thesis by (auto simp: holds_def flush_buf_def FLUSH_LEN_def)
  next
    case False
    then have "ag_db (flush_buf ck now ag) = record_batches ck (bs @ [(now, ag_buf ag)]) db0"
      by (simp add: flush_buf_def bs(1) record_batches_append) (simp add: record_batches_def)
    then show ?thesis
      using bs(2,3) assms(2) empty unfolding holds_def
      by (intro conjI exI [of _ "bs @ [(now, ag_buf ag)]"]) (auto simp: FLUSH_LEN_def)
  qed
qed

lemma agg_step_holds:
  assumes "holds ck db0 ss ag" and "ag_running ag"
  shows "holds ck db0 (ss @ (case e of Recv s \<Rightarrow> [s] | _ \<Rightarrow> [])) (agg_step ck ag (now, e))"
    and "ag_running (agg_step ck ag (now, e)) \<longleftrightarrow> e \<noteq> Closed"
proof -
  have stored: "\<exists>bs. ag_db ag = record_batches ck bs db0 \<and> concat (map snd bs) @ ag_buf ag = ss
        \<and> (\<forall>b \<in> set bs. length (snd b) \<le> FLUSH_LEN)" and len: "length (ag_buf ag) < FLUSH_LEN"
    using assms(1) by (auto simp: holds_def)
  show "ag_running (agg_step ck ag (now, e)) \<longleftrightarrow> e \<noteq> Closed"
    using assms(2) by (cases e) (simp_all add: flush_buf_def Let_def)
  show "holds ck db0 (ss @ (case e of Recv s \<Rightarrow> [s] | _ \<Rightarrow> [])) (agg_step ck ag (now, e))"
  proof (cases e)
    case (Recv s)
    let ?ag = "ag\<lparr>ag_buf := ag_buf ag @ [s]\<rparr>"
    have st: "\<exists>bs. ag_db ?ag = record_batches ck bs db0 \<and> concat (map snd bs) @ ag_buf ?ag = ss @ [s]
        \<and> (\<forall>b \<in> set bs. length (snd b) \<le> FLUSH_LEN)"
      using stored by auto
    show ?thesis
    proof (cases "FLUSH_LEN \<le> length (ag_buf ?ag)")
      case True
      then show ?thesis using holds_flush(1) [OF st, of now] len assms(2) Recv by (simp add: Let_def)
    next
      case False
      then show ?thesis using st assms(2) Recv by (auto simp: Let_def holds_def)
    qed
  next
    case Closed
    then show ?thesis
      using holds_flush [OF stored, of now] len assms(2) by (simp add: holds_def)
  next
    case Tick
    then show ?thesis
      using holds_flush(1) [OF stored, of now] len assms(2) by simp
  qed
qed

lemma agg_stopped: "\<not> ag_running ag \<Longrightarrow> agg_run ck es ag = ag"
proof (induction es)
  case (Cons e es)
  then show ?case by (cases e; cases "snd e") (auto simp: agg_run_def)
qed (simp add: agg_run_def)

lemma agg_run_holds:
  "holds ck db0 ss ag \<Longrightarrow> ag_running ag \<Longrightarrow> holds ck db0 (ss @ received es) (agg_run ck es ag)
     \<and> (ag_running (agg_run ck es ag) \<longleftrightarrow> Closed \<notin> snd ` set es)"
proof (induction es arbitrary: ss ag)
  case (Cons e es)
  obtain now ev where e: "e = (now, ev)" by (cases e)
  note step = agg_step_holds [OF Cons.prems, where e = ev and now = now]
  show ?case
  proof (cases "ev = Closed")
    case True
    have run: "agg_run ck (e # es) ag = agg_run ck es (agg_step ck ag e)" by (simp add: agg_run_def)
    have "agg_run ck (e # es) ag = agg_step ck ag e"
      unfolding run by (rule agg_stopped) (use step(2) True e in simp)
    then show ?thesis using step True by (simp add: e)
  next
    case False
    then show ?thesis
      using Cons.IH [OF step(1)] step(2) by (cases ev) (auto simp: e agg_run_def)
  qed
qed (simp add: agg_run_def)

text \<open>
  While the aggregator runs, every sample it received is either handed to the
  database or buffered, once and in order, in batches of at most 500, and fewer than 500 are buffered;
  once the queue is closed all of them have been handed over.
\<close>

theorem traffic_aggregation:
  "\<exists>bs. ag_db (agg_run ck es (agg_start db)) = record_batches ck bs db
     \<and> concat (map snd bs) @ ag_buf (agg_run ck es (agg_start db)) = received es
     \<and> (\<forall>b \<in> set bs. length (snd b) \<le> 500) \<and> length (ag_buf (agg_run ck es (agg_start db))) < 500
     \<and> (Closed \<in> snd ` set es \<longrightarrow> concat (map snd bs) = received es)"
proof -
  have "holds ck db [] (agg_start db)"
    by (auto simp: holds_def agg_start_def record_batches_def FLUSH_LEN_def intro: exI [of _ "[]"])
  then have "holds ck db (received es) (agg_run ck es (agg_start db))
      \<and> (ag_running (agg_run ck es (agg_start db)) \<longleftrightarrow> Closed \<notin> snd ` set es)"
    using agg_run_holds [of ck db "[]" "agg_start db" es] by (simp add: agg_start_def)
  then show ?thesis by (auto simp: holds_def FLUSH_LEN_def)
qed

theorem traffic_aggregation_witness:
  "\<exists>bs. ag_db (agg_run sample_clock [(1, Recv (''1.2.3.4'', ''a'', 10, 20)), (2, Closed)] (agg_start empty_db))
       = record_batches sample_clock bs empty_db \<and> concat (map snd bs) = [(''1.2.3.4'', ''a'', 10, 20)]"
  using traffic_aggregation [of sample_clock "[(1, Recv (''1.2.3.4'', ''a'', 10, 20)), (2, Closed)]" empty_db]
  by auto

text \<open>A batch that the database refuses is dropped with the buffer.\<close>

lemma flush_failure_loses_batch:
  "\<not> pd_online (ag_db ag) \<Longrightarrow> ag_buf (flush_buf ck now ag) = [] \<and> ag_db (flush_buf ck now ag) = ag_db ag"
  by (simp add: flush_buf_def apply_traffic_batch_def statement_def)

end
