(* ===== verification/Relay_Acl.thy ===== *)
theory Relay_Acl
  imports Relay_Config
begin

text \<open>
  The client allowlist of \<open>src/client_acl.rs\<close>. The specification is a partial map from
  addresses to user names that admits everybody when it is empty; the refinement lemmas show that
  every operation on the textual \<open>BTreeMap\<close> implements it.
\<close>

section \<open>The list and its operations\<close>

record client_acl =
  acl_entries :: "(string, string) btree_map"
  acl_ufw_sync :: bool

datatype acl_error = InvalidWhitelistIp string | InvalidUsername

definition acl_user :: "whitelist_entry \<Rightarrow> string" where
  "acl_user e = (case wl_username e \<bind> sanitize_whitelist_username of Some u \<Rightarrow> u | None \<Rightarrow> [])"

fun from_config_loop :: "(string, string) btree_map \<Rightarrow> whitelist_entry list \<Rightarrow> (string, string) btree_map" where
  "from_config_loop m [] = m"
| "from_config_loop m (e # es) =
     (case normalize_client_ip (wl_ip e) of
        Some n \<Rightarrow> from_config_loop (bt_insert n (acl_user e) m) es
      | None \<Rightarrow> from_config_loop m es)"

definition from_config :: "app_config \<Rightarrow> client_acl" where
  "from_config cfg = \<lparr>acl_entries = from_config_loop [] (client_whitelist cfg),
     acl_ufw_sync = client_whitelist_ufw cfg\<rparr>"

fun from_parts_loop ::
    "(string, string) btree_map \<Rightarrow> whitelist_entry list \<Rightarrow> acl_error + (string, string) btree_map" where
  "from_parts_loop m [] = Inr m"
| "from_parts_loop m (e # es) =
     (case normalize_client_ip (wl_ip e) of
        Some n \<Rightarrow> from_parts_loop (bt_insert n (acl_user e) m) es
      | None \<Rightarrow> Inl (InvalidWhitelistIp (wl_ip e)))"

definition from_parts :: "whitelist_entry list \<Rightarrow> bool \<Rightarrow> acl_error + client_acl" where
  "from_parts entries ufw_sync =
     (case from_parts_loop [] entries of
        Inl e \<Rightarrow> Inl e
      | Inr m \<Rightarrow> Inr \<lparr>acl_entries = m, acl_ufw_sync = ufw_sync\<rparr>)"

definition acl_len :: "client_acl \<Rightarrow> nat" where
  "acl_len acl = length (acl_entries acl)"

definition is_open :: "client_acl \<Rightarrow> bool" where
  "is_open acl \<longleftrightarrow> acl_entries acl = []"

definition is_allowed :: "client_acl \<Rightarrow> string \<Rightarrow> bool" where
  "is_allowed acl client_ip =
     (if acl_entries acl = [] then True
      else
        (let key = (case normalize_client_ip client_ip of Some n \<Rightarrow> n | None \<Rightarrow> trim client_ip)
         in bt_contains (acl_entries acl) key))"

definition username_for :: "client_acl \<Rightarrow> string \<Rightarrow> string option" where
  "username_for acl ip = do { key \<leftarrow> normalize_client_ip ip; bt_get (acl_entries acl) key }"

definition acl_add :: "client_acl \<Rightarrow> string \<Rightarrow> string \<Rightarrow> acl_error + (client_acl \<times> bool \<times> string)" where
  "acl_add acl ip username =
     (case normalize_client_ip ip of
        None \<Rightarrow> Inl (InvalidWhitelistIp ip)
      | Some n \<Rightarrow>
          (case sanitize_whitelist_username username of
             None \<Rightarrow> Inl InvalidUsername
           | Some user \<Rightarrow>
               Inr (acl\<lparr>acl_entries := bt_insert n user (acl_entries acl)\<rparr>,
                    \<not> bt_contains (acl_entries acl) n, user)))"

definition acl_remove :: "client_acl \<Rightarrow> string \<Rightarrow> acl_error + (client_acl \<times> bool)" where
  "acl_remove acl ip =
     (case normalize_client_ip ip of
        None \<Rightarrow> Inl (InvalidWhitelistIp ip)
      | Some n \<Rightarrow>
          Inr (acl\<lparr>acl_entries := bt_remove n (acl_entries acl)\<rparr>, bt_contains (acl_entries acl) n))"

definition as_vec :: "client_acl \<Rightarrow> string list" where
  "as_vec acl = map fst (acl_entries acl)"

definition as_entries :: "client_acl \<Rightarrow> whitelist_entry list" where
  "as_entries acl =
     map (\<lambda>(ip, user). \<lparr>wl_ip = ip, wl_username = (if user = [] then None else Some user)\<rparr>) (acl_entries acl)"

definition contains_ip :: "client_acl \<Rightarrow> string \<Rightarrow> bool" where
  "contains_ip acl ip =
     (case normalize_client_ip ip of Some n \<Rightarrow> bt_contains (acl_entries acl) n | None \<Rightarrow> False)"

definition require_username :: "string \<Rightarrow> acl_error + string" where
  "require_username raw =
     (case sanitize_whitelist_username raw of Some u \<Rightarrow> Inr u | None \<Rightarrow> Inl InvalidUsername)"

section \<open>Invariant and abstraction\<close>

definition user_ok :: "string \<Rightarrow> bool" where
  "user_ok u \<longleftrightarrow> u = [] \<or> sanitize_whitelist_username u = Some u"

definition acl_ok :: "client_acl \<Rightarrow> bool" where
  "acl_ok acl \<longleftrightarrow>
     bt_wf (acl_entries acl)
     \<and> (\<forall>(ip, user) \<in> set (acl_entries acl). normalize_client_ip ip = Some ip \<and> user_ok user)"

text \<open>The abstract list: who is listed, by address.\<close>

definition acl_abs :: "client_acl \<Rightarrow> ip_addr \<Rightarrow> string option" where
  "acl_abs acl ip = (if ip_wf ip then bt_get (acl_entries acl) (show_ip ip) else None)"

definition client_addr :: "string \<Rightarrow> ip_addr option" where
  "client_addr s = parse_ip_addr (trim s)"

lemma client_addr_wf: "client_addr s = Some ip \<Longrightarrow> ip_wf ip"
  by (auto simp: client_addr_def intro: parse_ip_wf)

lemma normalize_addr: "normalize_client_ip s = map_option show_ip (client_addr s)"
  using normalize_client_ip_Some [of s] unfolding client_addr_def
  by (cases "parse_ip_addr (trim s)"; cases "normalize_client_ip s") auto

lemma set_bt_insert_entries: "set (bt_insert k v m) \<subseteq> insert (k, v) (set m)"
  by (induction k v m rule: bt_insert.induct) auto

lemma user_ok_acl_user: "user_ok (acl_user e)"
  by (cases "wl_username e \<bind> sanitize_whitelist_username")
    (auto simp: acl_user_def user_ok_def bind_eq_Some_conv dest: sanitize_idem)

lemma acl_ok_insert:
  assumes "acl_ok acl" and "normalize_client_ip n = Some n" and "user_ok u"
  shows "acl_ok (acl\<lparr>acl_entries := bt_insert n u (acl_entries acl)\<rparr>)"
  using assms set_bt_insert_entries [of n u "acl_entries acl"]
  by (fastforce simp: acl_ok_def bt.inv_insert)

lemma acl_ok_remove:
  "acl_ok acl \<Longrightarrow> acl_ok (acl\<lparr>acl_entries := bt_remove n (acl_entries acl)\<rparr>)"
  by (auto simp: acl_ok_def bt.inv_remove) (auto simp: bt_remove_def)

lemma acl_abs_insert:
  assumes "acl_ok acl" and "ip_wf ip"
  shows "acl_abs (acl\<lparr>acl_entries := bt_insert (show_ip ip) u (acl_entries acl)\<rparr>) = (acl_abs acl)(ip \<mapsto> u)"
  using assms by (auto simp: acl_abs_def acl_ok_def bt.get_insert show_ip_inj)

lemma acl_abs_remove:
  assumes "acl_ok acl" and "ip_wf ip"
  shows "acl_abs (acl\<lparr>acl_entries := bt_remove (show_ip ip) (acl_entries acl)\<rparr>) = (acl_abs acl)(ip := None)"
  using assms by (auto simp: acl_abs_def acl_ok_def bt.get_remove show_ip_inj)

lemma acl_open_iff:
  assumes "acl_ok acl"
  shows "is_open acl \<longleftrightarrow> acl_abs acl = Map.empty"
proof
  assume "acl_abs acl = Map.empty"
  show "is_open acl"
  proof (rule ccontr)
    assume "\<not> is_open acl"
    then obtain ip user rest where e: "acl_entries acl = (ip, user) # rest"
      by (cases "acl_entries acl") (auto simp: is_open_def)
    with assms obtain a where a: "client_addr ip = Some a" "show_ip a = ip"
      by (auto simp: acl_ok_def normalize_addr)
    then have "acl_abs acl a = Some user"
      by (simp add: acl_abs_def client_addr_wf e bt_get_def)
    with \<open>acl_abs acl = Map.empty\<close> show False by simp
  qed
qed (auto simp: is_open_def acl_abs_def bt_get_def)

lemma contains_text_key:
  assumes "acl_ok acl" and "normalize_client_ip s = None"
  shows "\<not> bt_contains (acl_entries acl) (trim s)"
proof
  assume "bt_contains (acl_entries acl) (trim s)"
  then have "normalize_client_ip (trim s) = Some (trim s)"
    using assms(1) by (auto simp: bt_contains_iff acl_ok_def)
  with assms(2) show False by (simp add: normalize_addr client_addr_def trim_idem)
qed

lemma acl_lookup:
  assumes "client_addr s = Some ip"
  shows "bt_get (acl_entries acl) (show_ip ip) = acl_abs acl ip"
  by (simp add: acl_abs_def client_addr_wf [OF assms])

lemma is_allowed_abs:
  assumes "acl_ok acl"
  shows "is_allowed acl s \<longleftrightarrow>
    acl_abs acl = Map.empty \<or> (\<exists>ip. client_addr s = Some ip \<and> acl_abs acl ip \<noteq> None)"
proof (cases "client_addr s")
  case None
  then have "normalize_client_ip s = None" by (simp add: normalize_addr)
  with None contains_text_key [OF assms] acl_open_iff [OF assms] show ?thesis
    by (auto simp: is_allowed_def is_open_def)
next
  case (Some ip)
  then show ?thesis
    using acl_open_iff [OF assms] acl_lookup [OF Some, of acl]
    by (auto simp: is_allowed_def is_open_def normalize_addr bt_contains_def)
qed

subsection \<open>Construction\<close>

lemma from_config_loop_ok:
  assumes "acl_ok \<lparr>acl_entries = m, acl_ufw_sync = b\<rparr>"
  shows "acl_ok \<lparr>acl_entries = from_config_loop m es, acl_ufw_sync = b\<rparr>"
  using assms
proof (induction m es rule: from_config_loop.induct)
  case (2 m e es)
  show ?case
  proof (cases "normalize_client_ip (wl_ip e)")
    case (Some n)
    have "acl_ok \<lparr>acl_entries = bt_insert n (acl_user e) m, acl_ufw_sync = b\<rparr>"
      using acl_ok_insert [OF 2(3) normalize_client_ip_idem [OF Some] user_ok_acl_user [of e]] by simp
    with 2 Some show ?thesis by simp
  qed (use 2 in simp)
qed simp

lemma from_config_loop_get:
  "bt_wf m \<Longrightarrow> bt_get (from_config_loop m es) k =
     (case find (\<lambda>e. normalize_client_ip (wl_ip e) = Some k) (rev es) of
        Some e \<Rightarrow> Some (acl_user e) | None \<Rightarrow> bt_get m k)"
proof (induction m es rule: from_config_loop.induct)
  case (2 m e es)
  then show ?case
    by (cases "normalize_client_ip (wl_ip e)")
      (auto simp: find_append bt.get_insert bt.inv_insert split: option.splits)
qed simp

lemma from_parts_loop_config:
  "list_all (\<lambda>e. normalize_client_ip (wl_ip e) \<noteq> None) es \<Longrightarrow>
     from_parts_loop m es = Inr (from_config_loop m es)"
  by (induction m es rule: from_parts_loop.induct) auto

lemma from_parts_loop_error:
  "from_parts_loop m es = Inl e \<longleftrightarrow>
     (\<exists>w. find (\<lambda>w. normalize_client_ip (wl_ip w) = None) es = Some w \<and> e = InvalidWhitelistIp (wl_ip w))"
  by (induction m es rule: from_parts_loop.induct) (auto split: option.splits)

lemma acl_ok_empty: "acl_ok \<lparr>acl_entries = [], acl_ufw_sync = b\<rparr>"
  by (simp add: acl_ok_def bt.inv_empty)

lemma acl_ok_from_config: "acl_ok (from_config cfg)"
  unfolding from_config_def by (rule from_config_loop_ok [OF acl_ok_empty])

lemma as_entries_normal:
  assumes "acl_ok acl" and "e \<in> set (as_entries acl)"
  shows "normalize_client_ip (wl_ip e) = Some (wl_ip e)"
    and "(wl_ip e, acl_user e) \<in> set (acl_entries acl)"
proof -
  from assms(2) obtain ip u where iu: "(ip, u) \<in> set (acl_entries acl)" "wl_ip e = ip"
    "wl_username e = (if u = [] then None else Some u)"
    by (auto simp: as_entries_def)
  with assms(1) have "normalize_client_ip ip = Some ip" "user_ok u" by (auto simp: acl_ok_def)
  with iu show "normalize_client_ip (wl_ip e) = Some (wl_ip e)"
    and "(wl_ip e, acl_user e) \<in> set (acl_entries acl)"
    by (auto simp: acl_user_def user_ok_def)
qed

lemma from_parts_as_entries:
  assumes "acl_ok acl"
  shows "from_parts (as_entries acl) (acl_ufw_sync acl) = Inr acl"
proof -
  let ?es = "as_entries acl"
  have n: "list_all (\<lambda>e. normalize_client_ip (wl_ip e) \<noteq> None) ?es"
    using as_entries_normal(1) [OF assms] by (auto simp: list_all_iff)
  have wf: "bt_wf (acl_entries acl)" using assms by (simp add: acl_ok_def)
  have "from_config_loop [] ?es = acl_entries acl"
  proof (rule bt_ext [OF _ wf])
    show "bt_wf (from_config_loop [] ?es)"
      using from_config_loop_ok [OF acl_ok_empty, of ?es] by (simp add: acl_ok_def)
    show "bt_get (from_config_loop [] ?es) = bt_get (acl_entries acl)"
    proof
      fix k
      show "bt_get (from_config_loop [] ?es) k = bt_get (acl_entries acl) k"
      proof (cases "find (\<lambda>e. normalize_client_ip (wl_ip e) = Some k) (rev ?es)")
        case None
        then have "k \<notin> fst ` set (acl_entries acl)"
          using assms by (fastforce simp: find_None_iff as_entries_def acl_ok_def)
        then have "bt_get (acl_entries acl) k = None" by (simp add: bt_get_def map_of_eq_None_iff)
        with None show ?thesis
          by (simp add: from_config_loop_get bt.inv_empty bt.get_empty)
      next
        case (Some e)
        then have "e \<in> set ?es" "normalize_client_ip (wl_ip e) = Some k" by (auto dest: find_SomeD)
        with as_entries_normal [OF assms] have "(k, acl_user e) \<in> set (acl_entries acl)" by auto
        then have "bt_get (acl_entries acl) k = Some (acl_user e)"
          using bt_wf_distinct [OF wf] by (simp add: bt_get_def)
        with Some show ?thesis by (simp add: from_config_loop_get bt.inv_empty)
      qed
    qed
  qed
  then show ?thesis by (simp add: from_parts_def from_parts_loop_config [OF n])
qed

section \<open>Properties\<close>

text \<open>the access decision. A list with no entry admits every client; otherwise a client is
  admitted exactly when its text, spaces aside, denotes an address that is listed.\<close>

theorem acl_decision:
  assumes "acl_ok acl"
  shows "is_allowed acl s \<longleftrightarrow>
    acl_abs acl = Map.empty \<or> (\<exists>ip. client_addr s = Some ip \<and> acl_abs acl ip \<noteq> None)"
  using assms by (rule is_allowed_abs)

definition example_acl :: client_acl where
  "example_acl = \<lparr>acl_entries = [(''10.0.0.1'', ''alice''), (''::1'', '''')], acl_ufw_sync = False\<rparr>"

theorem acl_decision_witness:
  "acl_ok example_acl \<and> is_allowed example_acl '' 0:0::1''"
proof -
  have ok: "acl_ok example_acl" by code_simp
  have "client_addr '' 0:0::1'' = Some (V6 [0, 0, 0, 0, 0, 0, 0, 1])" by code_simp
  moreover have "acl_abs example_acl (V6 [0, 0, 0, 0, 0, 0, 0, 1]) \<noteq> None" by code_simp
  ultimately show ?thesis using acl_decision [OF ok] ok by blast
qed

text \<open>C29: every update implements the abstract one. Adding a valid address and name stores the
  sanitised name under the address and reports whether it was new; removing erases the address and
  reports whether it was there; an invalid address or name changes nothing; the invariant is kept.\<close>

theorem acl_updates_refine:
  assumes "acl_ok acl"
  shows "(case client_addr ip of
      None \<Rightarrow> acl_add acl ip name = Inl (InvalidWhitelistIp ip) \<and> acl_remove acl ip = Inl (InvalidWhitelistIp ip)
    | Some a \<Rightarrow>
        (case sanitize_whitelist_username name of
           None \<Rightarrow> acl_add acl ip name = Inl InvalidUsername
         | Some u \<Rightarrow> (\<exists>acl'. acl_add acl ip name = Inr (acl', acl_abs acl a = None, u)
             \<and> acl_ok acl' \<and> acl_abs acl' = (acl_abs acl)(a \<mapsto> u)))
        \<and> (\<exists>acl'. acl_remove acl ip = Inr (acl', acl_abs acl a \<noteq> None)
             \<and> acl_ok acl' \<and> acl_abs acl' = (acl_abs acl)(a := None)))"
proof (cases "client_addr ip")
  case (Some a)
  note wf = client_addr_wf [OF Some]
  have u: "user_ok u" if "sanitize_whitelist_username name = Some u" for u
    using that by (simp add: user_ok_def sanitize_idem)
  show ?thesis
    using Some acl_lookup [OF Some, of acl] acl_abs_remove [OF assms wf] acl_ok_remove [OF assms]
      acl_abs_insert [OF assms wf] acl_ok_insert [OF assms normalize_show_ip [OF wf] u]
    by (auto simp: acl_add_def acl_remove_def normalize_addr bt_contains_def split: option.split)
qed (simp add: acl_add_def acl_remove_def normalize_addr)

theorem acl_updates_refine_witness:
  "\<exists>acl'. acl_remove example_acl ''0:0::1'' = Inr (acl', True) \<and> acl_ok acl'
     \<and> acl_abs acl' (V6 [0, 0, 0, 0, 0, 0, 0, 1]) = None"
proof -
  have ok: "acl_ok example_acl" by code_simp
  have c: "client_addr ''0:0::1'' = Some (V6 [0, 0, 0, 0, 0, 0, 0, 1])" by code_simp
  have "acl_abs example_acl (V6 [0, 0, 0, 0, 0, 0, 0, 1]) \<noteq> None" by code_simp
  with acl_updates_refine [OF ok, of "''0:0::1''" "''x''"] c show ?thesis by auto
qed

text \<open>saving and restoring. The rows \<open>as_entries\<close> writes rebuild the same list, entry for
  entry; \<open>from_parts\<close> fails exactly on the first row that is no address, with that row.\<close>

theorem acl_entries_roundtrip:
  assumes "acl_ok acl"
  shows "from_parts (as_entries acl) (acl_ufw_sync acl) = Inr acl
    \<and> (from_parts es b = Inl e \<longleftrightarrow>
         (\<exists>w. find (\<lambda>w. normalize_client_ip (wl_ip w) = None) es = Some w \<and> e = InvalidWhitelistIp (wl_ip w)))"
proof -
  have "from_parts es b = Inl e \<longleftrightarrow> from_parts_loop [] es = Inl e"
    by (simp add: from_parts_def split: sum.split)
  then show ?thesis
    unfolding from_parts_loop_error using from_parts_as_entries [OF assms] by blast
qed

theorem acl_entries_roundtrip_witness:
  "from_parts (as_entries example_acl) False = Inr example_acl"
proof -
  have ok: "acl_ok example_acl" by code_simp
  have "acl_ufw_sync example_acl = False" by code_simp
  with acl_entries_roundtrip [OF ok] show ?thesis by simp
qed

end
