(* ===== verification/Relay_SelfLoop.thy ===== *)
theory Relay_SelfLoop
  imports Relay_Config
begin

text \<open>
  The self-loop guard of \<open>src/self_loop.rs\<close>. The addresses \<open>getifaddrs\<close> returns and the answer of
  the resolver are arguments. The theorem gives the guard's decision in terms of the configured
  listeners and the addresses of the host.
\<close>

record self_loop_guard =
  sg_local_ips :: "ip_addr set"
  sg_listen_ports :: "u16 set"

text \<open>\<open>None\<close> stands for a failing \<open>getifaddrs\<close>.\<close>

definition interface_ips :: "ip_addr list option \<Rightarrow> ip_addr set" where
  "interface_ips ifs =
     {V4 [127, 0, 0, 1], V6 [0, 0, 0, 0, 0, 0, 0, 1]}
     \<union> (case ifs of None \<Rightarrow> {} | Some ips \<Rightarrow> set (filter (\<lambda>ip. \<not> is_unspecified ip) ips))"

definition bind_ip :: "listener_config \<Rightarrow> ip_addr option" where
  "bind_ip l =
     (case parse_socket_addr (li_addr l) of
        Some a \<Rightarrow> if is_unspecified (sa_ip a) then None else Some (sa_ip a)
      | None \<Rightarrow> None)"

definition guard_from_config :: "ip_addr list option \<Rightarrow> app_config \<Rightarrow> self_loop_guard" where
  "guard_from_config ifs cfg =
     \<lparr>sg_local_ips = interface_ips ifs \<union> set (List.map_filter bind_ip (listens cfg)),
      sg_listen_ports =
        set (List.map_filter (\<lambda>l. case listen_port l of Inr p \<Rightarrow> Some p | Inl _ \<Rightarrow> None) (listens cfg))\<rparr>"

definition is_local_ip :: "self_loop_guard \<Rightarrow> ip_addr \<Rightarrow> bool" where
  "is_local_ip g ip \<longleftrightarrow> is_loopback ip \<or> is_unspecified ip \<or> ip \<in> sg_local_ips g"

text \<open>\<open>lookup_host\<close> under its timeout of 500 ms.\<close>

datatype dns_answer = Addrs "ip_addr list" | LookupFailed | LookupTimedOut

type_synonym resolver = "string \<Rightarrow> u16 \<Rightarrow> dns_answer"

definition would_loop :: "resolver \<Rightarrow> self_loop_guard \<Rightarrow> string \<Rightarrow> u16 \<Rightarrow> bool" where
  "would_loop lookup_host g host port =
     (if port \<notin> sg_listen_ports g then False
      else case parse_ip_addr host of
             Some ip \<Rightarrow> is_local_ip g ip
           | None \<Rightarrow>
               (case lookup_host host port of
                  Addrs ips \<Rightarrow> list_ex (is_local_ip g) ips
                | LookupFailed \<Rightarrow> False
                | LookupTimedOut \<Rightarrow> False))"

section \<open>What the guard blocks\<close>

text \<open>The addresses a destination names, and those that lead back to a listener.\<close>

definition dest_ips :: "resolver \<Rightarrow> string \<Rightarrow> u16 \<Rightarrow> ip_addr set" where
  "dest_ips lookup_host host port =
     (case parse_ip_addr host of
        Some ip \<Rightarrow> {ip}
      | None \<Rightarrow> (case lookup_host host port of Addrs ips \<Rightarrow> set ips | _ \<Rightarrow> {}))"

definition own_ip :: "ip_addr list option \<Rightarrow> app_config \<Rightarrow> ip_addr \<Rightarrow> bool" where
  "own_ip ifs cfg ip \<longleftrightarrow>
     is_loopback ip \<or> is_unspecified ip \<or> (\<exists>ips. ifs = Some ips \<and> ip \<in> set ips)
     \<or> (\<exists>l a. l \<in> set (listens cfg) \<and> parse_socket_addr (li_addr l) = Some a \<and> sa_ip a = ip)"

lemma is_local_ip_own: "is_local_ip (guard_from_config ifs cfg) ip \<longleftrightarrow> own_ip ifs cfg ip"
proof -
  have "(\<exists>l. l \<in> set (listens cfg) \<and> bind_ip l = Some ip) \<longleftrightarrow> \<not> is_unspecified ip \<and>
    (\<exists>l a. l \<in> set (listens cfg) \<and> parse_socket_addr (li_addr l) = Some a \<and> sa_ip a = ip)"
    by (auto simp: bind_ip_def split: option.splits if_splits)
  then show ?thesis
    by (auto simp: is_local_ip_def own_ip_def guard_from_config_def interface_ips_def
      map_filter_def image_iff split: option.splits)
qed

text \<open>the guard built from a configuration refuses a destination exactly if its port is the port
  of a listener and one of the addresses it names or resolves to is a loopback or unspecified
  address, an interface address of the host, or an address a listener binds.\<close>

theorem self_loop_decision:
  "would_loop lookup_host (guard_from_config ifs cfg) host port \<longleftrightarrow>
     (\<exists>l. l \<in> set (listens cfg) \<and> listen_port l = Inr port)
     \<and> (\<exists>ip. ip \<in> dest_ips lookup_host host port \<and> own_ip ifs cfg ip)"
proof -
  have "port \<in> sg_listen_ports (guard_from_config ifs cfg)
    \<longleftrightarrow> (\<exists>l. l \<in> set (listens cfg) \<and> listen_port l = Inr port)"
    by (force simp: guard_from_config_def map_filter_def split: sum.splits)
  then show ?thesis
    by (auto simp: would_loop_def dest_ips_def list_ex_iff is_local_ip_own
      split: option.splits dns_answer.splits)
qed

end
