(* ===== verification/Relay_Metrics.thy ===== *)
theory Relay_Metrics
  imports Relay_Net
begin

text \<open>
  The counters of \<open>src/metrics.rs\<close>: label sanitising, the labels of a connection and the five events
  that move counters. Gauges are signed and counters are 64-bit words, as in the \<open>prometheus\<close>
  crate. The theorems show that labels are safe and bounded, and that the client label of an
  accepted connection is the canonical text of the peer's address.
\<close>

section \<open>Labels\<close>

definition label_char :: "char \<Rightarrow> bool" where
  "label_char c \<longleftrightarrow> is_ascii_alphanumeric c \<or> c \<in> {CHR ''.'', CHR ''_'', CHR ''-'', CHR '':''}"

text \<open>
  \<open>chars()\<close> yields one character per encoded sequence: its continuation bytes, 128 to 191, do not
  produce an underscore of their own.
\<close>

definition sanitize_chars :: "string \<Rightarrow> string" where
  "sanitize_chars raw =
     map (\<lambda>c. if label_char c then c else CHR ''_'')
       (filter (\<lambda>c. \<not> is_cont (of_char c)) raw)"

definition label_value :: "string \<Rightarrow> string" where
  "label_value raw =
     (let s = sanitize_chars raw
      in if 128 < length s then take 128 s else if s = [] then ''unknown'' else s)"

definition client_ip_from_peer :: "string \<Rightarrow> string" where
  "client_ip_from_peer peer =
     (case parse_socket_addr peer of
        Some addr \<Rightarrow> label_value (show_ip (sa_ip addr))
      | None \<Rightarrow> label_value peer)"

record target_labels =
  tl_client_ip :: string
  tl_domain :: string
  tl_upstream :: string

definition unknown_labels :: target_labels where
  "unknown_labels = \<lparr>tl_client_ip = ''unknown'', tl_domain = ''unknown'', tl_upstream = ''unknown''\<rparr>"

definition set_client_ip_from_peer :: "string \<Rightarrow> target_labels \<Rightarrow> target_labels" where
  "set_client_ip_from_peer peer l = l\<lparr>tl_client_ip := client_ip_from_peer peer\<rparr>"

definition set_domain :: "string \<Rightarrow> target_labels \<Rightarrow> target_labels" where
  "set_domain domain l = l\<lparr>tl_domain := label_value domain\<rparr>"

definition set_upstream :: "string \<Rightarrow> target_labels \<Rightarrow> target_labels" where
  "set_upstream upstream l = l\<lparr>tl_upstream := label_value upstream\<rparr>"

definition as_label_values :: "target_labels \<Rightarrow> string list" where
  "as_label_values l = [tl_client_ip l, tl_domain l, tl_upstream l]"

section \<open>Counters\<close>

record metrics =
  mt_active :: int
  mt_total :: u64
  mt_bytes :: u64
  mt_errors :: u64
  mt_accepted :: "string list \<Rightarrow> u64"
  mt_active_by :: "string list \<Rightarrow> int"
  mt_connections_by :: "string list \<Rightarrow> u64"
  mt_bytes_by :: "string list \<Rightarrow> u64"
  mt_errors_by :: "string list \<Rightarrow> u64"
  mt_rejected_by :: "string list \<Rightarrow> u64"

definition add_at :: "'k \<Rightarrow> 'v :: plus \<Rightarrow> ('k \<Rightarrow> 'v) \<Rightarrow> 'k \<Rightarrow> 'v" where
  "add_at k d f = f(k := f k + d)"

definition no_metrics :: metrics where
  "no_metrics = \<lparr>mt_active = 0, mt_total = 0, mt_bytes = 0, mt_errors = 0,
     mt_accepted = (\<lambda>_. 0), mt_active_by = (\<lambda>_. 0), mt_connections_by = (\<lambda>_. 0),
     mt_bytes_by = (\<lambda>_. 0), mt_errors_by = (\<lambda>_. 0), mt_rejected_by = (\<lambda>_. 0)\<rparr>"

definition connection_accepted :: "string \<Rightarrow> metrics \<Rightarrow> metrics" where
  "connection_accepted peer m =
     m\<lparr>mt_accepted := add_at [client_ip_from_peer peer] 1 (mt_accepted m)\<rparr>"

definition connection_opened :: "target_labels \<Rightarrow> metrics \<Rightarrow> metrics" where
  "connection_opened l m =
     (let lv = as_label_values l
      in m\<lparr>mt_active := mt_active m + 1, mt_total := mt_total m + 1,
           mt_active_by := add_at lv 1 (mt_active_by m),
           mt_connections_by := add_at lv 1 (mt_connections_by m)\<rparr>)"

definition connection_closed :: "target_labels \<Rightarrow> u64 \<Rightarrow> u64 \<Rightarrow> metrics \<Rightarrow> metrics" where
  "connection_closed l c2u u2c m =
     (let lv = as_label_values l;
          m = m\<lparr>mt_active := mt_active m - 1, mt_active_by := add_at lv (- 1) (mt_active_by m)\<rparr>;
          m = m\<lparr>mt_bytes := mt_bytes m + (c2u + u2c)\<rparr>;
          m = (if c2u > 0
               then m\<lparr>mt_bytes_by := add_at (lv @ [''client_to_upstream'']) c2u (mt_bytes_by m)\<rparr> else m)
      in if u2c > 0
         then m\<lparr>mt_bytes_by := add_at (lv @ [''upstream_to_client'']) u2c (mt_bytes_by m)\<rparr> else m)"

definition connection_rejected :: "target_labels \<Rightarrow> string \<Rightarrow> metrics \<Rightarrow> metrics" where
  "connection_rejected l reason m =
     m\<lparr>mt_rejected_by := add_at [tl_domain l, reason] 1 (mt_rejected_by m)\<rparr>"

definition connection_failed :: "target_labels \<Rightarrow> bool \<Rightarrow> metrics \<Rightarrow> metrics" where
  "connection_failed l was_open m =
     (let lv = as_label_values l;
          m = m\<lparr>mt_errors := mt_errors m + 1, mt_errors_by := add_at lv 1 (mt_errors_by m)\<rparr>
      in if was_open
         then m\<lparr>mt_active := mt_active m - 1, mt_active_by := add_at lv (- 1) (mt_active_by m)\<rparr>
         else m)"

section \<open>Labels are safe\<close>

lemma label_char_underscore [simp]: "label_char CHR ''_''"
  by (simp add: label_char_def)

lemma sanitize_chars_safe: "list_all label_char (sanitize_chars raw)"
  by (auto simp: sanitize_chars_def list_all_iff)

lemma label_value_safe:
  "list_all label_char (label_value raw) \<and> 0 < length (label_value raw) \<and> length (label_value raw) \<le> 128"
proof -
  have "list_all label_char (take 128 s)" if "list_all label_char s" for s
    using that by (auto simp: list_all_iff dest: in_set_takeD)
  moreover have "list_all label_char ''unknown''" by code_simp
  ultimately show ?thesis using sanitize_chars_safe [of raw]
    by (auto simp: label_value_def Let_def)
qed

lemma label_char_not_cont: "label_char c \<Longrightarrow> \<not> is_cont (of_char c)"
  by (auto simp: label_char_def is_ascii_alphanumeric_def is_cont_def Let_def)

lemma label_value_id:
  assumes "list_all label_char s" and "s \<noteq> []" and "length s \<le> 128"
  shows "label_value s = s"
proof -
  have "filter (\<lambda>c. \<not> is_cont (of_char c)) s = s"
    using assms(1) label_char_not_cont by (simp add: filter_id_conv list_all_iff)
  moreover have "map (\<lambda>c. if label_char c then c else CHR ''_'') s = s"
    using assms(1) by (simp add: list_all_iff map_idI)
  ultimately show ?thesis using assms by (simp add: label_value_def sanitize_chars_def)
qed

lemma label_value_show_ip:
  assumes "ip_wf ip"
  shows "label_value (show_ip ip) = show_ip ip"
proof (rule label_value_id)
  show "list_all label_char (show_ip ip)"
    by (rule show_ip_chars)
      (simp_all add: label_char_def is_ascii_alphanumeric_def Let_def of_char_digit_char)
qed (use length_show_ip [OF assms] in simp_all)

text \<open>for a peer address as the listener prints it, the client label is the canonical text of the
  address without its port, so the access list, the routing table and the counters see one name per
  address; every label is non-empty, at most 128 bytes, and made of letters, digits and \<open>._-:\<close>.\<close>

theorem client_label_canonical:
  assumes "ip_wf (sa_ip a)" and "sa_scope a = 0 \<or> (\<exists>gs. sa_ip a = V6 gs)"
  shows "client_ip_from_peer (show_socket_addr a) = show_ip (sa_ip a)
    \<and> list_all label_char (label_value raw) \<and> 0 < length (label_value raw)
    \<and> length (label_value raw) \<le> 128"
  using parse_show_socket_addr [OF assms] label_value_safe [of raw] assms(1)
  by (simp add: client_ip_from_peer_def label_value_show_ip)

theorem client_label_canonical_witness:
  "client_ip_from_peer ''[fe80::1%3]:443'' = ''fe80::1''"
proof -
  have "show_socket_addr \<lparr>sa_ip = V6 [0xfe80, 0, 0, 0, 0, 0, 0, 1], sa_port = 443, sa_scope = 3\<rparr>
      = ''[fe80::1%3]:443''" "show_ip (V6 [0xfe80, 0, 0, 0, 0, 0, 0, 1]) = ''fe80::1''"
    by code_simp+
  then show ?thesis
    using client_label_canonical
      [of "\<lparr>sa_ip = V6 [0xfe80, 0, 0, 0, 0, 0, 0, 1], sa_port = 443, sa_scope = 3\<rparr>"] by simp
qed

end
