(* ===== verification/Relay_Sni.thy ===== *)
theory Relay_Sni
  imports Relay_Prelude
begin

unbundle bit_operations_syntax

text \<open>
  The TLS ClientHello parser of \<open>src/sni.rs\<close>. The parser indexes into byte slices, so it is
  modelled in the option monad: \<open>None\<close> is an out-of-range panic. The theorems show that no
  input makes it panic, that its verdict on a stream never changes once it is given, that the
  bytes it marks for replay are exactly the leading change-cipher-spec records and one handshake
  record, and that it returns the host name of every well-formed ClientHello.
\<close>

section \<open>The parser\<close>

datatype peek_result = Tls string | TlsNoSni | PlainHttp | NeedMore | Unknown

definition u16_be :: "bytes \<Rightarrow> u16 option" where
  "u16_be b = do { hi \<leftarrow> idx b 0; lo \<leftarrow> idx b 1; Some (u16_from_be hi lo) }"

definition u24_be :: "bytes \<Rightarrow> u32 option" where
  "u24_be b = do { b0 \<leftarrow> idx b 0; b1 \<leftarrow> idx b 1; b2 \<leftarrow> idx b 2;
     Some (push_bit 16 (ucast b0) OR push_bit 8 (ucast b1) OR ucast b2) }"

text \<open>The methods of the source's \<open>HTTP_METHODS\<close>, each by its first four bytes.\<close>

definition HTTP_METHODS :: "bytes list" where
  "HTTP_METHODS = map as_bytes
     [''GET '', ''POST'', ''HEAD'', ''PUT '', ''DELE'', ''OPTI'', ''PATC'', ''CONN'']"

definition is_plain_http :: "bytes \<Rightarrow> bool" where
  "is_plain_http pre = list_ex (\<lambda>m. starts_with pre m) HTTP_METHODS"

function sni_names_loop :: "bytes \<Rightarrow> nat \<Rightarrow> nat \<Rightarrow> string option option" where
  "sni_names_loop data list_end pos =
     (if pos + 3 \<le> list_end then do {
        name_type \<leftarrow> idx data pos;
        lb \<leftarrow> subslice data (pos + 1) (pos + 3);
        l \<leftarrow> u16_be lb;
        let name_len = unat l;
        let pos = pos + 3;
        if list_end < pos + name_len then Some None
        else if name_type = 0 then do {
          name \<leftarrow> subslice data pos (pos + name_len);
          Some (map_option to_lowercase (from_utf8 name))
        }
        else sni_names_loop data list_end (pos + name_len)
      }
      else Some None)"
  by pat_completeness auto
termination
  by (relation "measure (\<lambda>(data, list_end, pos). list_end - pos)") auto

declare sni_names_loop.simps [simp del]

definition parse_sni_extension :: "bytes \<Rightarrow> string option option" where
  "parse_sni_extension data =
     (if length data < 2 then Some None
      else do {
        lb \<leftarrow> subslice data 0 2;
        l \<leftarrow> u16_be lb;
        let list_len = unat l;
        if length data < 2 + list_len then Some None
        else sni_names_loop data (2 + list_len) 2
      })"

function extensions_loop :: "bytes \<Rightarrow> nat \<Rightarrow> nat \<Rightarrow> peek_result option" where
  "extensions_loop data ext_end pos =
     (if pos + 4 \<le> ext_end then do {
        tb \<leftarrow> subslice data pos (pos + 2);
        ext_type \<leftarrow> u16_be tb;
        lb \<leftarrow> subslice data (pos + 2) (pos + 4);
        l \<leftarrow> u16_be lb;
        let ext_len = unat l;
        let pos = pos + 4;
        if ext_end < pos + ext_len then Some TlsNoSni
        else if ext_type = 0 then do {
          ext \<leftarrow> subslice data pos (pos + ext_len);
          r \<leftarrow> parse_sni_extension ext;
          Some (case r of Some name \<Rightarrow> Tls name | None \<Rightarrow> TlsNoSni)
        }
        else extensions_loop data ext_end (pos + ext_len)
      }
      else Some TlsNoSni)"
  by pat_completeness auto
termination
  by (relation "measure (\<lambda>(data, ext_end, pos). ext_end - pos)") auto

declare extensions_loop.simps [simp del]

text \<open>
  \<open>parse_client_hello\<close> skips the fixed fields with the source's bounds checks; every check
  that fails returns \<open>TlsNoSni\<close>. The handshake length is read and not used.
\<close>

definition parse_client_hello :: "bytes \<Rightarrow> peek_result option" where
  "parse_client_hello data = (let n = length data; pos = 0 in
     if n \<le> pos then Some TlsNoSni else do {
     hs_type \<leftarrow> idx data pos;
     if hs_type \<noteq> 1 then Some TlsNoSni else do {
     let pos = pos + 1;
     if n < pos + 3 then Some TlsNoSni else do {
     hb \<leftarrow> subslice data pos (pos + 3);
     hs_len \<leftarrow> u24_be hb;
     let pos = pos + 3;
     if n < pos + 2 then Some TlsNoSni else do {
     let pos = pos + 2;
     if n < pos + 32 then Some TlsNoSni else do {
     let pos = pos + 32;
     if n \<le> pos then Some TlsNoSni else do {
     sid_len \<leftarrow> idx data pos;
     let pos = pos + (1 + unat sid_len);
     if n < pos + 2 then Some TlsNoSni else do {
     cb \<leftarrow> subslice data pos (pos + 2);
     cs_len \<leftarrow> u16_be cb;
     let pos = pos + (2 + unat cs_len);
     if n \<le> pos then Some TlsNoSni else do {
     cm_len \<leftarrow> idx data pos;
     let pos = pos + (1 + unat cm_len);
     if n < pos + 2 then Some TlsNoSni else do {
     eb \<leftarrow> subslice data pos (pos + 2);
     ext_total \<leftarrow> u16_be eb;
     let pos = pos + 2;
     let ext_end = pos + unat ext_total;
     if n < ext_end then Some TlsNoSni else extensions_loop data ext_end pos
     }}}}}}}}})"

definition parse_tls_handshake_record :: "bytes \<Rightarrow> peek_result option" where
  "parse_tls_handshake_record record =
     (if length record < 5 then Some Unknown
      else do {
        t \<leftarrow> idx record 0;
        v1 \<leftarrow> idx record 1;
        v2 \<leftarrow> idx record 2;
        if t \<noteq> 0x16 then Some Unknown
        else if v1 \<noteq> 3 \<or> 4 < v2 then Some Unknown
        else do {
          handshake \<leftarrow> subslice record 5 (length record);
          parse_client_hello handshake
        }
      })"

function records_loop :: "bytes \<Rightarrow> nat \<Rightarrow> (peek_result \<times> nat) option" where
  "records_loop buf offset =
     (if offset + 5 \<le> length buf then do {
        record_type \<leftarrow> idx buf offset;
        if record_type \<noteq> 0x14 \<and> record_type \<noteq> 0x16 then Some (Unknown, 0)
        else do {
          hi \<leftarrow> idx buf (offset + 3);
          lo \<leftarrow> idx buf (offset + 4);
          let record_len = unat (u16_from_be hi lo);
          let record_end = offset + 5 + record_len;
          if length buf < record_end then Some (NeedMore, 0)
          else if record_type = 0x16 then do {
            record \<leftarrow> subslice buf offset record_end;
            result \<leftarrow> parse_tls_handshake_record record;
            Some (result, record_end)
          }
          else records_loop buf record_end
        }
      }
      else Some (NeedMore, 0))"
  by pat_completeness auto
termination
  by (relation "measure (\<lambda>(buf, offset). length buf - offset)") auto

declare records_loop.simps [simp del]

definition parse_sni_with_replay :: "bytes \<Rightarrow> (peek_result \<times> nat) option" where
  "parse_sni_with_replay buf =
     (if length buf < 5 then Some (NeedMore, 0)
      else if is_plain_http (take (min 8 (length buf)) buf) then Some (PlainHttp, 0)
      else records_loop buf 0)"

definition parse_sni :: "bytes \<Rightarrow> peek_result option" where
  "parse_sni buf = map_option fst (parse_sni_with_replay buf)"

section \<open>Unfolding the loops inside their bounds\<close>

text \<open>
  \<open>be16 d i\<close> is the big-endian number at offset \<open>i\<close>. Inside its bounds every loop body reads
  in range, and its equation loses the panic branches.
\<close>

definition be16 :: "bytes \<Rightarrow> nat \<Rightarrow> nat" where
  "be16 d i = unat (d ! i) * 256 + unat (d ! Suc i)"

lemma u16_be_pair [simp]: "u16_be [a, b] = Some (u16_from_be a b)"
  by (simp add: u16_be_def)

lemma take2_drop: "i + 2 \<le> length d \<Longrightarrow> take 2 (drop i d) = [d ! i, d ! Suc i]"
  by (metis Cons_nth_drop_Suc Suc_1 Suc_le_lessD add_2_eq_Suc' le_SucI Suc_leD take0 take_Suc_Cons
      One_nat_def)

lemma u24_be_bind [simp]: "3 \<le> length d \<Longrightarrow> u24_be (take 3 d) \<bind> (\<lambda>_. f) = f"
  by (simp add: u24_be_def)

lemma u16_be_take2 [simp]:
  "i + 2 \<le> length d \<Longrightarrow> u16_be (take 2 (drop i d)) = Some (u16_from_be (d ! i) (d ! Suc i))"
  by (simp add: take2_drop)

lemma u16_be_take2_0 [simp]:
  "2 \<le> length d \<Longrightarrow> u16_be (take 2 d) = Some (u16_from_be (d ! 0) (d ! 1))"
  using u16_be_take2 [of 0 d] by simp

lemma be16_u16: "unat (u16_from_be (d ! i) (d ! Suc i)) = be16 d i"
  by (simp add: be16_def)

lemma u16_from_be_zero: "u16_from_be a b = 0 \<longleftrightarrow> unat a * 256 + unat b = 0"
  by (metis unat_0_iff unat_u16_from_be)

lemma sni_names_loop_step:
  assumes "pos + 3 \<le> list_end" and "list_end \<le> length data"
  shows "sni_names_loop data list_end pos =
     (if list_end < pos + 3 + be16 data (pos + 1) then Some None
      else if data ! pos = 0
      then Some (map_option to_lowercase (from_utf8 (take (be16 data (pos + 1)) (drop (pos + 3) data))))
      else sni_names_loop data list_end (pos + 3 + be16 data (pos + 1)))"
  using assms by (subst sni_names_loop.simps) (simp add: Let_def be16_def numeral_3_eq_3)

lemma sni_names_loop_stop: "list_end < pos + 3 \<Longrightarrow> sni_names_loop data list_end pos = Some None"
  by (subst sni_names_loop.simps) simp

lemma extensions_loop_step:
  assumes "pos + 4 \<le> ext_end" and "ext_end \<le> length data"
  shows "extensions_loop data ext_end pos =
     (if ext_end < pos + 4 + be16 data (pos + 2) then Some TlsNoSni
      else if be16 data pos = 0
      then map_option (\<lambda>r. case r of Some name \<Rightarrow> Tls name | None \<Rightarrow> TlsNoSni)
             (parse_sni_extension (take (be16 data (pos + 2)) (drop (pos + 4) data)))
      else extensions_loop data ext_end (pos + 4 + be16 data (pos + 2)))"
  using assms
  by (subst extensions_loop.simps)
    (simp add: Let_def be16_def u16_from_be_zero map_conv_bind_option o_def del: add_is_0)

lemma extensions_loop_stop: "ext_end < pos + 4 \<Longrightarrow> extensions_loop data ext_end pos = Some TlsNoSni"
  by (subst extensions_loop.simps) simp

lemma records_loop_step:
  assumes "offset + 5 \<le> length buf"
  shows "records_loop buf offset =
     (if buf ! offset \<noteq> 0x14 \<and> buf ! offset \<noteq> 0x16 then Some (Unknown, 0)
      else if length buf < offset + 5 + be16 buf (offset + 3) then Some (NeedMore, 0)
      else if buf ! offset = 0x16
      then map_option (\<lambda>r. (r, offset + 5 + be16 buf (offset + 3)))
             (parse_tls_handshake_record (take (5 + be16 buf (offset + 3)) (drop offset buf)))
      else records_loop buf (offset + 5 + be16 buf (offset + 3)))"
proof -
  have "be16 buf (offset + 3) = unat (buf ! (offset + 3)) * 256 + unat (buf ! (offset + 4))"
    by (simp add: be16_def add.commute)
  with assms show ?thesis
    by (subst records_loop.simps) (simp add: Let_def map_conv_bind_option o_def)
qed

lemma records_loop_stop: "length buf < offset + 5 \<Longrightarrow> records_loop buf offset = Some (NeedMore, 0)"
  by (subst records_loop.simps) simp

lemmas loop_steps = sni_names_loop_step extensions_loop_step records_loop_step
lemmas loop_stops = sni_names_loop_stop extensions_loop_stop records_loop_stop

section \<open>No input makes the parser panic\<close>

lemma sni_names_loop_total: "list_end \<le> length data \<Longrightarrow> \<exists>r. sni_names_loop data list_end pos = Some r"
proof (induction "list_end - pos" arbitrary: pos rule: less_induct)
  case less
  show ?case
  proof (cases "pos + 3 \<le> list_end")
    case True
    with less show ?thesis by (simp add: sni_names_loop_step)
  qed (simp add: loop_stops)
qed

lemma parse_sni_extension_total: "\<exists>r. parse_sni_extension data = Some r"
  using sni_names_loop_total [of _ data 2]
  by (auto simp: parse_sni_extension_def Let_def)

lemma extensions_loop_total:
  "ext_end \<le> length data \<Longrightarrow> \<exists>r. extensions_loop data ext_end pos = Some r"
proof (induction "ext_end - pos" arbitrary: pos rule: less_induct)
  case less
  show ?case
  proof (cases "pos + 4 \<le> ext_end")
    case True
    with less parse_sni_extension_total show ?thesis by (simp add: extensions_loop_step)
  qed (simp add: loop_stops)
qed

lemma parse_client_hello_total: "\<exists>r. parse_client_hello data = Some r"
  using extensions_loop_total [of _ data]
  by (simp add: parse_client_hello_def Let_def)

lemma parse_tls_handshake_record_total: "\<exists>r. parse_tls_handshake_record record = Some r"
proof (cases "length record < 5")
  case False
  then have "0 < length record" by linarith
  with False parse_client_hello_total show ?thesis
    by (simp add: parse_tls_handshake_record_def)
qed (simp add: parse_tls_handshake_record_def)

lemma records_loop_total:
  "\<exists>r n. records_loop buf offset = Some (r, n) \<and> n \<le> length buf"
proof (induction "length buf - offset" arbitrary: offset rule: less_induct)
  case less
  show ?case
  proof (cases "offset + 5 \<le> length buf")
    case True
    with less parse_tls_handshake_record_total show ?thesis by (simp add: records_loop_step)
  qed (simp add: loop_stops)
qed

lemma parse_sni_with_replay_total:
  "\<exists>r n. parse_sni_with_replay buf = Some (r, n) \<and> n \<le> length buf"
  using records_loop_total [of buf 0] by (simp add: parse_sni_with_replay_def)

section \<open>More bytes never change a verdict\<close>

lemma be16_append [simp]: "i + 2 \<le> length d \<Longrightarrow> be16 (d @ e) i = be16 d i"
  by (simp add: be16_def nth_append)

lemma records_loop_extend:
  assumes "records_loop buf offset = Some (r, n)" and "r \<noteq> NeedMore"
  shows "records_loop (buf @ more) offset = Some (r, n)"
  using assms(1)
proof (induction "length buf - offset" arbitrary: offset rule: less_induct)
  case less
  have in_range: "offset + 5 \<le> length buf"
    using less.prems assms(2) by (cases "offset + 5 \<le> length buf") (auto simp: loop_stops)
  define e where "e = offset + 5 + be16 buf (offset + 3)"
  show ?case
  proof (cases "length buf < e")
    case True
    with less.prems assms(2) in_range show ?thesis
      by (auto simp: records_loop_step e_def nth_append split: if_splits)
  next
    case False
    have "\<lbrakk>buf ! offset = 0x14\<rbrakk> \<Longrightarrow> records_loop (buf @ more) e = Some (r, n)"
      using less.prems False in_range
      by (intro less.hyps) (auto simp: records_loop_step e_def)
    with less.prems False in_range show ?thesis
      by (auto simp: records_loop_step e_def nth_append split: if_splits)
  qed
qed

lemma is_plain_http_take4: "is_plain_http pre \<longleftrightarrow> take 4 pre \<in> set HTTP_METHODS"
proof -
  have "\<forall>m \<in> set HTTP_METHODS. length m = 4"
    by (simp add: HTTP_METHODS_def)
  then have "starts_with pre m \<longleftrightarrow> take 4 pre = m" if "m \<in> set HTTP_METHODS" for m
    unfolding starts_with_def using that by simp
  then show ?thesis
    by (auto simp: is_plain_http_def list_ex_iff)
qed

lemma is_plain_http_prefix:
  "5 \<le> length buf \<Longrightarrow> is_plain_http (take (min 8 (length buf)) buf) \<longleftrightarrow> take 4 buf \<in> set HTTP_METHODS"
  by (simp add: is_plain_http_take4 min_def)

lemma parse_sni_with_replay_alt:
  "parse_sni_with_replay buf =
     (if length buf < 5 then Some (NeedMore, 0)
      else if take 4 buf \<in> set HTTP_METHODS then Some (PlainHttp, 0)
      else records_loop buf 0)"
  by (simp add: parse_sni_with_replay_def is_plain_http_prefix)

lemma parse_sni_with_replay_extend:
  assumes "parse_sni_with_replay buf = Some (r, n)" and "r \<noteq> NeedMore"
  shows "parse_sni_with_replay (buf @ more) = Some (r, n)"
  using assms records_loop_extend [of buf 0 r n more]
  by (auto simp: parse_sni_with_replay_alt split: if_splits)

section \<open>What the replayed bytes are\<close>

text \<open>A complete TLS record of a given content type: five header bytes and the announced body.\<close>

definition tls_record :: "byte \<Rightarrow> bytes \<Rightarrow> bool" where
  "tls_record t r \<longleftrightarrow> 5 \<le> length r \<and> r ! 0 = t \<and> length r = 5 + be16 r 3"

definition tls_flight :: "bytes list \<Rightarrow> bytes \<Rightarrow> bool" where
  "tls_flight ccs hello \<longleftrightarrow> list_all (tls_record 0x14) ccs \<and> tls_record 0x16 hello"

lemma be16_prefix [simp]: "be16 (pre @ d) (length pre + i) = be16 d i"
  by (simp add: be16_def nth_append)

lemma records_loop_flight:
  assumes "tls_flight ccs hello"
  shows "records_loop (pre @ concat ccs @ hello @ rest) (length pre) =
     map_option (\<lambda>r. (r, length pre + length (concat ccs @ hello))) (parse_tls_handshake_record hello)"
  using assms
proof (induction ccs arbitrary: pre)
  case Nil
  then have h: "5 \<le> length hello" "hello ! 0 = 0x16" "length hello = 5 + be16 hello 3"
    by (simp_all add: tls_flight_def tls_record_def)
  then have "be16 (pre @ hello @ rest) (length pre + 3) = be16 hello 3" by simp
  moreover have "(pre @ hello @ rest) ! length pre = 0x16"
    using h(1,2) by (auto simp: nth_append)
  ultimately show ?case
    using h by (simp add: records_loop_step add.assoc)
next
  case (Cons c ccs)
  then have c: "5 \<le> length c" "c ! 0 = 0x14" "length c = 5 + be16 c 3"
    by (simp_all add: tls_flight_def tls_record_def)
  let ?buf = "pre @ c @ concat ccs @ hello @ rest"
  have "be16 ?buf (length pre + 3) = be16 c 3"
    using c(1) by simp
  moreover have "?buf ! length pre = 0x14"
    using c(1,2) by (auto simp: nth_append)
  ultimately have "records_loop ?buf (length pre) = records_loop ((pre @ c) @ concat ccs @ hello @ rest) (length (pre @ c))"
    using c by (simp add: records_loop_step add.assoc)
  also have "\<dots> = map_option (\<lambda>r. (r, length (pre @ c) + length (concat ccs @ hello)))
      (parse_tls_handshake_record hello)"
    using Cons by (intro Cons.IH) (simp add: tls_flight_def)
  finally show ?case by (simp add: add.assoc)
qed

lemma records_loop_flightD:
  assumes "records_loop buf offset = Some (r, n)" and "0 < n"
  shows "\<exists>ccs hello. tls_flight ccs hello \<and> parse_tls_handshake_record hello = Some r
    \<and> take (n - offset) (drop offset buf) = concat ccs @ hello \<and> offset < n \<and> n \<le> length buf"
  using assms(1)
proof (induction "length buf - offset" arbitrary: offset rule: less_induct)
  case less
  have in_range: "offset + 5 \<le> length buf"
    using less.prems assms(2) by (cases "offset + 5 \<le> length buf") (auto simp: loop_stops)
  define e where "e = offset + 5 + be16 buf (offset + 3)"
  define c where "c = take (e - offset) (drop offset buf)"
  from less.prems assms(2) in_range have e: "e \<le> length buf"
    by (auto simp: records_loop_step e_def split: if_splits)
  have be: "be16 c 3 = be16 buf (offset + 3)"
    using in_range e by (simp add: c_def be16_def e_def add.commute)
  have rec: "tls_record (buf ! offset) c"
    using in_range e be by (simp add: tls_record_def) (simp add: c_def e_def)
  show ?case
  proof (cases "buf ! offset = 0x16")
    case True
    with less.prems in_range e have "parse_tls_handshake_record c = Some r" and "n = e"
      by (auto simp: records_loop_step e_def c_def)
    with rec True e show ?thesis
      by (intro exI [of _ "[]"] exI [of _ c]) (auto simp: tls_flight_def c_def e_def)
  next
    case False
    with less.prems assms(2) in_range e
    have t: "buf ! offset = 0x14" and next_rec: "records_loop buf e = Some (r, n)"
      by (auto simp: records_loop_step e_def split: if_splits)
    have lt: "length buf - e < length buf - offset"
      using in_range by (simp add: e_def)
    from less.hyps [OF lt next_rec] obtain ccs hello where
      f: "tls_flight ccs hello" "parse_tls_handshake_record hello = Some r"
      "take (n - e) (drop e buf) = concat ccs @ hello" "e < n" "n \<le> length buf"
      by blast
    have "n - offset = (e - offset) + (n - e)" and "offset \<le> e"
      using f(4) by (simp_all add: e_def)
    then have "take (n - offset) (drop offset buf) = c @ take (n - e) (drop e buf)"
      unfolding c_def by (metis take_add drop_drop le_add_diff_inverse2)
    with f rec t have "tls_flight (c # ccs) hello"
      "take (n - offset) (drop offset buf) = concat (c # ccs) @ hello"
      by (simp_all add: tls_flight_def)
    with f show ?thesis by (intro exI [of _ "c # ccs"] exI [of _ hello]) (auto simp: e_def)
  qed
qed

section \<open>The parser recovers the name from every well-formed ClientHello\<close>

text \<open>
  An abstract ClientHello and its wire format (RFC 8446, 4.1.2 and RFC 6066, 3): a server-name
  extension that carries one host name, other extensions before and after it.
\<close>

definition enc16 :: "nat \<Rightarrow> bytes" where
  "enc16 n = u16_to_be (of_nat n)"

definition encode_ext :: "u16 \<times> bytes \<Rightarrow> bytes" where
  "encode_ext = (\<lambda>(t, b). u16_to_be t @ enc16 (length b) @ b)"

definition encode_server_name :: "string \<Rightarrow> bytes" where
  "encode_server_name host = enc16 (3 + length host) @ [0] @ enc16 (length host) @ as_bytes host"

record client_hello =
  ch_length :: bytes
  ch_version :: bytes
  ch_random :: bytes
  ch_session_id :: bytes
  ch_ciphers :: bytes
  ch_compression :: bytes
  ch_before :: "(u16 \<times> bytes) list"
  ch_host :: string
  ch_after :: "(u16 \<times> bytes) list"

definition hello_extensions :: "client_hello \<Rightarrow> bytes" where
  "hello_extensions ch =
     concat (map encode_ext (ch_before ch @ (0, encode_server_name (ch_host ch)) # ch_after ch))"

definition hello_fixed :: "client_hello \<Rightarrow> bytes" where
  "hello_fixed ch = [1] @ ch_length ch @ ch_version ch @ ch_random ch
     @ [of_nat (length (ch_session_id ch))] @ ch_session_id ch
     @ enc16 (length (ch_ciphers ch)) @ ch_ciphers ch
     @ [of_nat (length (ch_compression ch))] @ ch_compression ch"

definition encode_hello :: "client_hello \<Rightarrow> bytes" where
  "encode_hello ch =
     hello_fixed ch @ enc16 (length (hello_extensions ch)) @ hello_extensions ch"

definition encode_record :: "byte \<Rightarrow> bytes \<Rightarrow> bytes" where
  "encode_record v hs = [0x16, 3, v] @ enc16 (length hs) @ hs"

definition hello_wf :: "client_hello \<Rightarrow> bool" where
  "hello_wf ch \<longleftrightarrow>
     length (ch_length ch) = 3 \<and> length (ch_version ch) = 2 \<and> length (ch_random ch) = 32
   \<and> length (ch_session_id ch) < 256 \<and> length (ch_ciphers ch) < 65536
   \<and> length (ch_compression ch) < 256
   \<and> list_all (\<lambda>(t, b). t \<noteq> 0 \<and> length b < 65536) (ch_before ch)
   \<and> is_ascii (ch_host ch) \<and> length (encode_hello ch) < 65536"

lemma length_enc16 [simp]: "length (enc16 n) = 2"
  by (simp add: enc16_def)

lemma u16_to_be_nth: "u16_to_be w = [u16_to_be w ! 0, u16_to_be w ! 1]"
  by (simp add: u16_to_be_def)

lemma be16_u16_to_be: "be16 (u16_to_be w @ rest) 0 = unat w"
proof -
  have "u16_from_be (u16_to_be w ! 0) (u16_to_be w ! 1) = w"
    by (simp add: u16_to_be_def del: of_nat_div)
  then have "unat (u16_to_be w ! 0) * 256 + unat (u16_to_be w ! 1) = unat w"
    by (metis unat_u16_from_be)
  then show ?thesis by (simp add: be16_def nth_append)
qed

lemma be16_enc [simp]: "n < 65536 \<Longrightarrow> be16 (enc16 n @ rest) 0 = n"
  by (simp add: enc16_def be16_u16_to_be)

lemma be16_enc_only [simp]: "n < 65536 \<Longrightarrow> be16 (enc16 n) 0 = n"
  using be16_enc [of n "[]"] by simp

lemma be16_at:
  assumes "i = length pre"
  shows "be16 (pre @ u16_to_be w @ rest) i = unat w"
    and "n < 65536 \<Longrightarrow> be16 (pre @ enc16 n @ rest) i = n"
proof -
  have "be16 (pre @ d) i = be16 d 0" for d
    using be16_prefix [of pre d 0] assms by simp
  then show "be16 (pre @ u16_to_be w @ rest) i = unat w"
    and "n < 65536 \<Longrightarrow> be16 (pre @ enc16 n @ rest) i = n"
    by (simp_all only: be16_u16_to_be be16_enc)
qed

lemma extensions_loop_skip:
  assumes "list_all (\<lambda>(t, b). t \<noteq> 0 \<and> length b < 65536) exts"
    and "ext_end = length (pre @ concat (map encode_ext exts) @ rest)"
  shows "extensions_loop (pre @ concat (map encode_ext exts) @ rest) ext_end (length pre) =
     extensions_loop (pre @ concat (map encode_ext exts) @ rest) ext_end
       (length (pre @ concat (map encode_ext exts)))"
  using assms
proof (induction exts arbitrary: pre)
  case (Cons e exts)
  obtain t b where e: "e = (t, b)" by fastforce
  let ?post = "concat (map encode_ext exts) @ rest"
  let ?d = "pre @ u16_to_be t @ enc16 (length b) @ b @ ?post"
  from Cons.prems e have tb: "t \<noteq> 0" "length b < 65536" by simp_all
  have "be16 ?d (length pre) = unat t" by (rule be16_at) simp
  moreover have "be16 ((pre @ u16_to_be t) @ enc16 (length b) @ b @ ?post) (length pre + 2) = length b"
    using tb by (intro be16_at) simp_all
  moreover have "unat t \<noteq> 0" using tb by (simp add: unat_eq_0)
  ultimately have "extensions_loop ?d ext_end (length pre) =
      extensions_loop ?d ext_end (length pre + 4 + length b)"
    using Cons.prems(2) by (simp add: extensions_loop_step e encode_ext_def)
  moreover have "?d = (pre @ encode_ext e) @ ?post"
    by (simp add: e encode_ext_def)
  moreover have "length pre + 4 + length b = length (pre @ encode_ext e)"
    by (simp add: e encode_ext_def)
  ultimately have "extensions_loop ((pre @ encode_ext e) @ ?post) ext_end (length pre) =
      extensions_loop ((pre @ encode_ext e) @ ?post) ext_end (length (pre @ encode_ext e))"
    by metis
  with Cons.IH [of "pre @ encode_ext e"] Cons.prems show ?case by simp
qed simp

lemma parse_sni_extension_step:
  assumes "2 \<le> length data"
  shows "parse_sni_extension data =
     (if length data < 2 + be16 data 0 then Some None
      else sni_names_loop data (2 + be16 data 0) 2)"
  using assms by (simp add: parse_sni_extension_def Let_def be16_def)

lemma parse_encoded_server_name:
  assumes "is_ascii host" and "length host < 65533"
  shows "parse_sni_extension (encode_server_name host) = Some (Some (to_lowercase host))"
proof -
  let ?d = "encode_server_name host"
  have len: "length ?d = 5 + length host" by (simp add: encode_server_name_def)
  have "be16 ?d 0 = 3 + length host"
    using assms by (simp add: encode_server_name_def del: append.simps)
  moreover have "be16 ((enc16 (3 + length host) @ [0]) @ enc16 (length host) @ as_bytes host) 3 = length host"
    using assms by (intro be16_at) simp_all
  moreover have "?d ! 2 = 0" by (simp add: encode_server_name_def nth_append)
  moreover have "drop 5 ?d = as_bytes host" by (simp add: encode_server_name_def)
  moreover have "from_utf8 (as_bytes host) = Some host" using assms(1) by (rule from_utf8_ascii)
  ultimately show ?thesis
    using len by (simp add: parse_sni_extension_step sni_names_loop_step encode_server_name_def)
qed

lemma parse_client_hello_fields:
  assumes "length data = 44 + s + c + m + e" and "data ! 0 = 1"
    and "unat (data ! 38) = s" and "be16 data (39 + s) = c"
    and "unat (data ! (41 + s + c)) = m" and "be16 data (42 + s + c + m) = e"
  shows "parse_client_hello data = extensions_loop data (length data) (44 + s + c + m)"
proof -
  have "data \<noteq> []" using assms(1) by auto
  moreover have "unat (data ! (39 + s)) * 256 + unat (data ! (40 + s)) = c"
    using assms(4) by (simp add: be16_def)
  moreover have "unat (data ! (42 + s + c + m)) * 256 + unat (data ! (43 + s + c + m)) = e"
    using assms(6) by (simp add: be16_def add.assoc)
  ultimately show ?thesis
    using assms(1-3,5)
    by (simp add: parse_client_hello_def Let_def add.commute add.left_commute)
qed

lemma hello_fixed_length:
  "hello_wf ch \<Longrightarrow> length (hello_fixed ch) =
     42 + length (ch_session_id ch) + length (ch_ciphers ch) + length (ch_compression ch)"
  by (simp add: hello_wf_def hello_fixed_def)

lemma parse_client_hello_encoded:
  assumes wf: "hello_wf ch"
  shows "parse_client_hello (encode_hello ch) =
    extensions_loop (encode_hello ch) (length (encode_hello ch)) (length (hello_fixed ch) + 2)"
proof -
  let ?s = "length (ch_session_id ch)" and ?c = "length (ch_ciphers ch)"
    and ?m = "length (ch_compression ch)" and ?x = "hello_extensions ch" and ?d = "encode_hello ch"
  let ?sid = "[1] @ ch_length ch @ ch_version ch @ ch_random ch"
  let ?cs = "?sid @ [of_nat ?s] @ ch_session_id ch"
  let ?cm = "?cs @ enc16 ?c @ ch_ciphers ch"
  have l: "length ?sid = 38" "length ?cs = 39 + ?s" "length ?cm = 41 + ?s + ?c"
    and fl: "length (hello_fixed ch) = 42 + ?s + ?c + ?m"
    using wf by (simp_all add: hello_wf_def hello_fixed_def)
  then have len: "length ?d = 44 + ?s + ?c + ?m + length ?x"
    by (simp add: encode_hello_def)
  have "parse_client_hello ?d = extensions_loop ?d (length ?d) (44 + ?s + ?c + ?m)"
  proof (rule parse_client_hello_fields [OF len])
    show "?d ! 0 = 1" by (simp add: encode_hello_def hello_fixed_def)
    have "?d = ?sid @ of_nat ?s # ch_session_id ch @ enc16 ?c @ ch_ciphers ch
        @ [of_nat ?m] @ ch_compression ch @ enc16 (length ?x) @ ?x"
      by (simp add: encode_hello_def hello_fixed_def)
    then have "?d ! 38 = of_nat ?s" using l(1) by (metis nth_append_length)
    then show "unat (?d ! 38) = ?s" using wf by (simp add: hello_wf_def)
    have cs: "?d = ?cs @ enc16 ?c @ ch_ciphers ch @ [of_nat ?m] @ ch_compression ch @ enc16 (length ?x) @ ?x"
      by (simp add: encode_hello_def hello_fixed_def)
    have "?c < 65536" using wf by (simp add: hello_wf_def)
    then show "be16 ?d (39 + ?s) = ?c" unfolding cs by (rule be16_at(2) [OF l(2) [symmetric]])
    have "?d = ?cm @ of_nat ?m # ch_compression ch @ enc16 (length ?x) @ ?x"
      by (simp add: encode_hello_def hello_fixed_def)
    then have "?d ! (41 + ?s + ?c) = of_nat ?m" using l(3) by (metis nth_append_length)
    then show "unat (?d ! (41 + ?s + ?c)) = ?m" using wf by (simp add: hello_wf_def)
    show "be16 ?d (42 + ?s + ?c + ?m) = length ?x"
      unfolding encode_hello_def using fl len wf by (intro be16_at(2)) (simp_all add: hello_wf_def)
  qed
  with fl show ?thesis by (simp add: add.assoc)
qed

lemma parse_encoded_hello:
  assumes wf: "hello_wf ch"
  shows "parse_client_hello (encode_hello ch) = Some (Tls (to_lowercase (ch_host ch)))"
proof -
  define before after sn where "before = concat (map encode_ext (ch_before ch))"
    and "after = concat (map encode_ext (ch_after ch))"
    and "sn = encode_server_name (ch_host ch)"
  define pre where "pre = hello_fixed ch @ enc16 (length (hello_extensions ch))"
  let ?d = "encode_hello ch"
  have d: "?d = pre @ before @ u16_to_be 0 @ enc16 (length sn) @ sn @ after"
    by (simp add: encode_hello_def hello_extensions_def encode_ext_def pre_def before_def after_def sn_def)
  have len: "length ?d = length pre + length before + 4 + length sn + length after"
    by (simp add: d)
  then have small: "length sn < 65536" "length (ch_host ch) < 65533" and ascii: "is_ascii (ch_host ch)"
    using wf by (simp_all add: hello_wf_def sn_def encode_server_name_def)
  have "parse_client_hello ?d = extensions_loop ?d (length ?d) (length pre)"
    using parse_client_hello_encoded [OF wf] by (simp add: pre_def)
  also have "\<dots> = extensions_loop ?d (length ?d) (length (pre @ before))"
    unfolding d before_def using wf by (intro extensions_loop_skip) (simp_all add: hello_wf_def)
  also have "\<dots> = map_option (\<lambda>r. case r of Some name \<Rightarrow> Tls name | None \<Rightarrow> TlsNoSni)
      (parse_sni_extension sn)"
  proof -
    have "be16 ((pre @ before) @ u16_to_be 0 @ enc16 (length sn) @ sn @ after) (length (pre @ before)) = unat (0 :: u16)"
      by (rule be16_at) simp
    moreover have "be16 ((pre @ before @ u16_to_be 0) @ enc16 (length sn) @ sn @ after)
        (length (pre @ before) + 2) = length sn"
      using small by (intro be16_at) simp_all
    moreover have "take (length sn) (drop (length (pre @ before) + 4) ?d) = sn"
      by (simp add: d)
    ultimately show ?thesis
      using len by (subst extensions_loop_step) (simp_all add: d)
  qed
  finally show ?thesis
    using small ascii by (simp add: sn_def parse_encoded_server_name)
qed

lemma tls_record_encoded:
  "length hs < 65536 \<Longrightarrow> tls_record 0x16 (encode_record v hs)"
  using be16_at(2) [of 3 "[0x16, 3, v]" "length hs" hs]
  by (simp add: tls_record_def encode_record_def)

lemma parse_encoded_record:
  assumes "v \<le> 4"
  shows "parse_tls_handshake_record (encode_record v hs) = parse_client_hello hs"
proof -
  have "length (encode_record v hs) = 5 + length hs" and "encode_record v hs \<noteq> []"
    and "encode_record v hs ! 0 = 0x16" "encode_record v hs ! 1 = 3" "encode_record v hs ! 2 = v"
    and "drop 5 (encode_record v hs) = hs"
    by (simp_all add: encode_record_def)
  moreover have "\<not> 4 < v" using assms by (simp add: not_less)
  ultimately show ?thesis
    by (simp add: parse_tls_handshake_record_def)
qed

lemma not_http_flight:
  assumes "tls_flight ccs hello"
  shows "take 4 (concat ccs @ hello @ rest) \<notin> set HTTP_METHODS"
proof -
  have "(concat ccs @ hello @ rest) ! 0 \<in> {0x14, 0x16} \<and> concat ccs @ hello @ rest \<noteq> []"
    using assms
    by (cases ccs) (auto simp: tls_flight_def tls_record_def nth_append)
  then have "hd (take 4 (concat ccs @ hello @ rest)) \<in> {0x14, 0x16}"
    by (metis hd_conv_nth hd_take zero_less_numeral)
  moreover have "\<forall>m \<in> set HTTP_METHODS. hd m \<notin> {0x14, 0x16}"
    by (simp add: HTTP_METHODS_def as_bytes_def byte_of_char_def)
  ultimately show ?thesis by blast
qed

lemma parse_sni_flight:
  assumes "tls_flight ccs hello"
  shows "parse_sni_with_replay (concat ccs @ hello @ rest) =
    map_option (\<lambda>r. (r, length (concat ccs @ hello))) (parse_tls_handshake_record hello)"
proof -
  have "5 \<le> length hello" using assms by (simp add: tls_flight_def tls_record_def)
  with assms not_http_flight [OF assms] records_loop_flight [OF assms, of "[]" rest] show ?thesis
    by (simp add: parse_sni_with_replay_alt)
qed

section \<open>Properties\<close>

text \<open>for every byte string the peeked prefix can be, the parser returns a verdict (no slice or
  index is ever out of range, no loop runs forever), and the number of bytes it marks for replay is
  at most the number it was given.\<close>

theorem parse_sni_never_panics:
  "\<exists>r n. parse_sni_with_replay buf = Some (r, n) \<and> n \<le> length buf \<and> parse_sni buf = Some r"
  using parse_sni_with_replay_total [of buf] by (auto simp: parse_sni_def)

text \<open>a verdict other than \<open>NeedMore\<close> is final. Peeking again with more bytes in the buffer
  gives the same result and the same replay length, so the caller may stop reading at the first
  verdict, however the bytes were split into reads.\<close>

theorem parse_sni_verdict_final:
  assumes "parse_sni_with_replay buf = Some (r, n)" and "r \<noteq> NeedMore"
  shows "parse_sni_with_replay (buf @ later) = Some (r, n)"
  using assms by (rule parse_sni_with_replay_extend)

theorem parse_sni_verdict_final_witness:
  "parse_sni_with_replay (as_bytes ''GET / HTTP/1.1'' @ [0]) = Some (PlainHttp, 0)"
  by (rule parse_sni_verdict_final)
    (simp_all add: parse_sni_with_replay_alt HTTP_METHODS_def as_bytes_def)

text \<open>what is replayed. The parser marks \<open>n > 0\<close> bytes with verdict \<open>r\<close> exactly when the
  buffer starts with complete change-cipher-spec records followed by one complete handshake record
  that parses to \<open>r\<close>, and \<open>n\<close> is their total length: nothing of the flight is dropped and
  nothing behind it is included.\<close>

theorem parse_sni_replay_flight:
  "(parse_sni_with_replay buf = Some (r, n) \<and> 0 < n) \<longleftrightarrow>
    (\<exists>ccs hello rest. buf = concat ccs @ hello @ rest \<and> tls_flight ccs hello
       \<and> parse_tls_handshake_record hello = Some r \<and> n = length (concat ccs @ hello))"
    (is "?L \<longleftrightarrow> ?R")
proof
  assume L: ?L
  then have "records_loop buf 0 = Some (r, n)"
    by (auto simp: parse_sni_with_replay_alt split: if_splits)
  with L records_loop_flightD [of buf 0 r n] obtain ccs hello where
    f: "tls_flight ccs hello" "parse_tls_handshake_record hello = Some r"
    "take n buf = concat ccs @ hello" "n \<le> length buf" by auto
  then have "buf = concat ccs @ hello @ drop n buf"
    by (metis append.assoc append_take_drop_id)
  moreover have "n = length (concat ccs @ hello)"
    using f(3,4) by (metis length_take min.absorb2)
  ultimately show ?R using f by blast
next
  assume ?R
  then obtain ccs hello rest where b: "buf = concat ccs @ hello @ rest" "tls_flight ccs hello"
    "parse_tls_handshake_record hello = Some r" "n = length (concat ccs @ hello)" by blast
  then have "hello \<noteq> []" by (auto simp: tls_flight_def tls_record_def)
  with b show ?L by (simp add: parse_sni_flight)
qed

text \<open>C3: the round trip. Whatever the session id, cipher suites, other extensions and leading
  change-cipher-spec records are, and whatever follows on the stream, a well-formed ClientHello
  that carries the host name \<open>h\<close> is answered with \<open>Tls\<close> of the lower-cased \<open>h\<close>, and the
  replay covers exactly the records up to the end of the hello.\<close>

theorem parse_sni_roundtrip:
  assumes "hello_wf ch" and "v \<le> 4" and "list_all (tls_record 0x14) ccs"
  shows "parse_sni_with_replay (concat ccs @ encode_record v (encode_hello ch) @ rest) =
    Some (Tls (to_lowercase (ch_host ch)), length (concat ccs @ encode_record v (encode_hello ch)))"
proof -
  have "tls_flight ccs (encode_record v (encode_hello ch))"
    using assms by (simp add: tls_flight_def tls_record_encoded hello_wf_def)
  from parse_sni_flight [OF this, of rest] show ?thesis
    using assms by (simp add: parse_encoded_record parse_encoded_hello)
qed

definition example_hello :: client_hello where
  "example_hello = \<lparr>ch_length = [0, 0, 76], ch_version = [3, 3], ch_random = replicate 32 7,
     ch_session_id = [9, 9], ch_ciphers = [0x13, 1], ch_compression = [0],
     ch_before = [(43, [2, 3, 4])], ch_host = ''Example.COM'', ch_after = [(16, [])]\<rparr>"

theorem parse_sni_roundtrip_witness:
  "parse_sni_with_replay (encode_record 1 (encode_hello example_hello) @ [1, 2]) =
    Some (Tls ''example.com'', 85)"
proof -
  note encs = example_hello_def encode_hello_def hello_fixed_def hello_extensions_def
    encode_ext_def encode_server_name_def encode_record_def
  have "hello_wf example_hello" by (simp add: hello_wf_def is_ascii_def encs)
  moreover have "to_lowercase (ch_host example_hello) = ''example.com''" by code_simp
  moreover have "length (encode_record 1 (encode_hello example_hello)) = 85" by (simp add: encs)
  ultimately show ?thesis
    using parse_sni_roundtrip [of example_hello 1 "[]" "[1, 2]"] by simp
qed

end
