(* ===== verification/Relay_Extract.thy ===== *)
theory Relay_Extract
  imports Relay_Sni Relay_Hosts Relay_Stream
begin

text \<open>
  How \<open>src/service.rs\<close> finds out where a client wants to go: reading the TLS flight or the HTTP
  header from the stream, and turning the name into a destination through the hosts table. The
  theorems show that the TLS route does not depend on how the bytes arrive, that nothing a client
  sent before the route was known is lost, and what a destination is.
\<close>

section \<open>Host and port\<close>

definition parse_host_port :: "string \<Rightarrow> u16 \<Rightarrow> string \<times> u16" where
  "parse_host_port s default_port =
     (case (if starts_with s ''['' then split_once CHR '']'' s else None) of
        Some (before, after) \<Rightarrow>
          (drop 1 before,
           case (if after = [] then None else parse_u16 (drop 1 after)) of
             Some p \<Rightarrow> p | None \<Rightarrow> default_port)
      | None \<Rightarrow>
          (case rsplit_once CHR '':'' s of
             Some (host, port) \<Rightarrow> (host, case parse_u16 port of Some p \<Rightarrow> p | None \<Rightarrow> default_port)
           | None \<Rightarrow> (s, default_port)))"

definition extract_host_header :: "string \<Rightarrow> string option" where
  "extract_host_header headers =
     map_option (\<lambda>line. trim (drop 5 line))
       (find (\<lambda>line. starts_with (to_lowercase line) ''host:'') (lines headers))"

section \<open>Peeking\<close>

datatype extract_error =
    TlsPeekTimeout
  | TlsReadError io_error
  | TlsClientClosed
  | ClientHelloTooLarge
  | NoSniExtension
  | NotTls
  | ParserPanic
  | HttpReadTimeout
  | HttpReadError io_error
  | HttpEof
  | NoHostHeader
  | HttpHeadersTooLarge
  | ReplyFailed io_error
  | PeekFailed io_error

fun under_timeout :: "'e \<Rightarrow> (io_error \<Rightarrow> 'e) \<Rightarrow> (io_error, 'a) outcome \<Rightarrow> ('e, 'a) outcome" where
  "under_timeout expired failed r = with_timeout expired (map_err failed r)"

text \<open>The bytes read so far are \<open>buf[..total]\<close>; the buffer holds 16 KiB for TLS and 8 KiB for HTTP.\<close>

definition TLS_BUF :: nat where
  "TLS_BUF = 16 * 1024"

definition HTTP_BUF :: nat where
  "HTTP_BUF = 8192"

type_synonym peeked = "(string \<times> u16 \<times> bytes \<times> bytes) \<times> sock"

function extract_tls_loop :: "u16 \<Rightarrow> bytes \<Rightarrow> sock \<Rightarrow> (extract_error, peeked) outcome" where
  "extract_tls_loop listen_port buf client =
     (case under_timeout TlsPeekTimeout TlsReadError (read (TLS_BUF - length buf) client) of
        Err e \<Rightarrow> Err e
      | Hang \<Rightarrow> Hang
      | Got (b, client') \<Rightarrow>
          if b = [] then Err TlsClientClosed
          else
            (let buf' = buf @ b
             in case parse_sni_with_replay buf' of
                  None \<Rightarrow> Err ParserPanic
                | Some (Tls host, replay_len) \<Rightarrow>
                    Got ((host, listen_port, take replay_len buf', drop replay_len buf'), client')
                | Some (NeedMore, _) \<Rightarrow>
                    if TLS_BUF \<le> length buf' then Err ClientHelloTooLarge
                    else extract_tls_loop listen_port buf' client'
                | Some (TlsNoSni, _) \<Rightarrow> Err NoSniExtension
                | Some (_, _) \<Rightarrow> Err NotTls))"
  by pat_completeness auto
termination
proof (relation "measure (\<lambda>(_, buf, _). TLS_BUF - length buf)", goal_cases)
  case (2 listen_port buf client x b client' buf')
  then show ?case by (cases b) auto
qed simp

declare extract_tls_loop.simps [simp del]

definition extract_tls_info :: "sock \<Rightarrow> u16 \<Rightarrow> (extract_error, peeked) outcome" where
  "extract_tls_info client listen_port = extract_tls_loop listen_port [] client"

definition CONNECT_REPLY :: bytes where
  "CONNECT_REPLY = as_bytes (''HTTP/1.1 200 Connection Established'' @ [CHR 0x0D, CHR 0x0A, CHR 0x0D, CHR 0x0A])"

definition header_end :: "string \<Rightarrow> bool" where
  "header_end s \<longleftrightarrow>
     contains_sub s [CHR 0x0D, CHR 0x0A, CHR 0x0D, CHR 0x0A] \<or> contains_sub s [CHR 0x0A, CHR 0x0A]"

definition connect_target :: "string \<Rightarrow> string" where
  "connect_target headers_str =
     (let line = (case lines headers_str of l # _ \<Rightarrow> l | [] \<Rightarrow> [])
      in case split_whitespace line of _ # target # _ \<Rightarrow> target | _ \<Rightarrow> [])"

definition headers_of :: "bytes \<Rightarrow> string" where
  "headers_of buf = (case from_utf8 buf of Some s \<Rightarrow> s | None \<Rightarrow> [])"

function extract_http_loop ::
    "u16 \<Rightarrow> bytes \<Rightarrow> sock \<Rightarrow> (extract_error, (string \<times> u16 \<times> bytes) \<times> sock) outcome" where
  "extract_http_loop listen_port buf client =
     (case under_timeout HttpReadTimeout HttpReadError (read (HTTP_BUF - length buf) client) of
        Err e \<Rightarrow> Err e
      | Hang \<Rightarrow> Hang
      | Got (b, client') \<Rightarrow>
          if b = [] then Err HttpEof
          else
            (let buf' = buf @ b; headers_str = headers_of buf'
             in if starts_with headers_str ''CONNECT '' then
                  (case parse_host_port (connect_target headers_str) listen_port of (host, port) \<Rightarrow>
                     and_then (map_err ReplyFailed (write_all CONNECT_REPLY client'))
                       (\<lambda>client'. Got ((host, port, []), client')))
                else if header_end headers_str then
                  (case extract_host_header headers_str of
                     Some h \<Rightarrow>
                       (case parse_host_port h listen_port of (host, port) \<Rightarrow>
                          Got ((host, port, buf'), client'))
                   | None \<Rightarrow> Err NoHostHeader)
                else if HTTP_BUF \<le> length buf' then Err HttpHeadersTooLarge
                else extract_http_loop listen_port buf' client'))"
  by pat_completeness auto
termination
proof (relation "measure (\<lambda>(_, buf, _). HTTP_BUF - length buf)", goal_cases)
  case (2 listen_port buf client x b client' buf' headers_str)
  then show ?case by (cases b) auto
qed simp

declare extract_http_loop.simps [simp del]

definition extract_http_info ::
    "sock \<Rightarrow> u16 \<Rightarrow> (extract_error, (string \<times> u16 \<times> bytes) \<times> sock) outcome" where
  "extract_http_info client listen_port = extract_http_loop listen_port [] client"

text \<open>\<open>TcpStream::peek\<close> with a buffer of eight bytes; no timeout bounds it.\<close>

definition peek8 :: "sock \<Rightarrow> (io_error, bytes) outcome" where
  "peek8 s =
     (case sk_in s of
        c # _ \<Rightarrow> Got (take 8 c)
      | [] \<Rightarrow> (case sk_end s of Closed \<Rightarrow> Got [] | Broken \<Rightarrow> Err ReadError | Silent \<Rightarrow> Hang))"

definition no_overflow :: "(string \<times> u16 \<times> bytes) \<times> sock \<Rightarrow> peeked" where
  "no_overflow = (\<lambda>((h, p, b), s). ((h, p, b, []), s))"

definition extract_auto :: "sock \<Rightarrow> u16 \<Rightarrow> (extract_error, peeked) outcome" where
  "extract_auto client listen_port =
     and_then (map_err PeekFailed (peek8 client)) (\<lambda>pre.
       if 3 \<le> length pre \<and> pre ! 0 = 0x16 \<and> pre ! 1 = 3 then extract_tls_info client listen_port
       else and_then (extract_http_info client listen_port) (\<lambda>r. Got (no_overflow r)))"

text \<open>The dispatch on the listener's protocol in \<open>handle_connection\<close>.\<close>

definition extract_peeked :: "string \<Rightarrow> sock \<Rightarrow> u16 \<Rightarrow> (extract_error, peeked) outcome" where
  "extract_peeked proto client listen_port =
     (if proto = ''tls'' then extract_tls_info client listen_port
      else if proto = ''http''
      then and_then (extract_http_info client listen_port) (\<lambda>r. Got (no_overflow r))
      else extract_auto client listen_port)"

section \<open>Destinations\<close>

datatype destination_outcome = DestOk string u16 bool | Unlisted

fun apply_host_resolve :: "string \<Rightarrow> u16 \<Rightarrow> u16 \<Rightarrow> host_resolve \<Rightarrow> string \<times> u16" where
  "apply_host_resolve sni_hostname port listen_port Passthrough = (sni_hostname, port)"
| "apply_host_resolve sni_hostname port listen_port (Ip ip) = (show_ip ip, port)"
| "apply_host_resolve sni_hostname port listen_port (Hostname backend) =
     (if CHR '':'' \<in> set backend then parse_host_port backend listen_port else (backend, port))"

definition resolve_destination ::
    "regex_crate \<Rightarrow> string \<Rightarrow> u16 \<Rightarrow> u16 \<Rightarrow> hosts_table option \<Rightarrow> destination_outcome" where
  "resolve_destination rx hostname port listen_port table =
     (case table of
        None \<Rightarrow> DestOk hostname port False
      | Some t \<Rightarrow>
          (let allowed = (has_open_catchall t \<or> resolve rx t hostname \<noteq> None)
           in if \<not> allowed then Unlisted
              else case resolve rx t hostname of
                     Some resolved \<Rightarrow>
                       (case apply_host_resolve hostname port listen_port resolved of
                          (host, dest_port) \<Rightarrow> DestOk host dest_port True)
                   | None \<Rightarrow> DestOk hostname port False))"

section \<open>The TLS flight\<close>

fun undecided :: "(peek_result \<times> nat) option \<Rightarrow> bool" where
  "undecided (Some (NeedMore, _)) = True"
| "undecided _ = False"

interpretation tls: incremental_parser parse_sni_with_replay undecided
proof
  fix b c
  assume u: "\<not> undecided (parse_sni_with_replay b)"
  obtain r n where rn: "parse_sni_with_replay b = Some (r, n)"
    using parse_sni_with_replay_total by blast
  with u have "r \<noteq> NeedMore" by auto
  with rn show "parse_sni_with_replay (b @ c) = parse_sni_with_replay b"
    by (simp add: parse_sni_with_replay_extend)
qed

lemma take_common:
  assumes "xs @ ys = us @ vs" and "n \<le> length xs" and "n \<le> length us"
  shows "take n us = take n xs"
proof -
  have "take n (us @ vs) = take n (xs @ ys)" using assms(1) by simp
  with assms(2,3) show ?thesis by simp
qed

lemma extract_tls_loop_chunks:
  assumes "buf @ incoming s = w @ rest" and "parse_sni_with_replay w = Some (Tls host, n)"
    and "length w \<le> TLS_BUF" and "length buf < length w" and "[] \<notin> set (sk_in s)"
  shows "\<exists>flight overflow s'.
    extract_tls_loop listen_port buf s = Got ((host, listen_port, flight, overflow), s')
    \<and> flight = take n w \<and> flight @ overflow @ incoming s' = w @ rest
    \<and> sk_out s' = sk_out s \<and> sk_end s' = sk_end s \<and> [] \<notin> set (sk_in s')"
  using assms(1,4,5)
proof (induction "length w - length buf" arbitrary: buf s rule: less_induct)
  case less
  have "length (buf @ incoming s) = length (w @ rest)" using less(2) by simp
  then have "incoming s \<noteq> []" using less(3) by auto
  moreover have "0 < TLS_BUF - length buf" using less(3) assms(3) by simp
  ultimately obtain b s1 where
    r: "read (TLS_BUF - length buf) s = Got (b, s1)" "b \<noteq> []" "[] \<notin> set (sk_in s1)"
    using read_nonempty less(4) by metis
  note p = read_progress [OF r(1)]
  have eq: "w @ rest = (buf @ b) @ incoming s1" using less(2) p(1) by simp
  have nl: "n \<le> length w" using assms(2) parse_sni_with_replay_total [of w] by auto
  show ?case
  proof (cases "undecided (parse_sni_with_replay (buf @ b))")
    case True
    then obtain k where k: "parse_sni_with_replay (buf @ b) = Some (NeedMore, k)"
      by (cases "parse_sni_with_replay (buf @ b)" rule: undecided.cases) auto
    have short: "length (buf @ b) < length w"
      by (rule tls.short_if_undecided [OF _ eq True]) (simp add: assms(2))
    then have "length w - length (buf @ b) < length w - length buf" using r(2) by (cases b) auto
    from less(1) [OF this _ short r(3)] eq obtain flight overflow s' where
      "extract_tls_loop listen_port (buf @ b) s1 = Got ((host, listen_port, flight, overflow), s')"
      "flight = take n w" "flight @ overflow @ incoming s' = w @ rest" "sk_out s' = sk_out s1"
      "sk_end s' = sk_end s1" "[] \<notin> set (sk_in s')" by auto
    moreover have "length (buf @ b) < TLS_BUF"
      using short assms(3) by linarith
    ultimately show ?thesis using r k p
      by (subst extract_tls_loop.simps) (simp add: Let_def)
  next
    case False
    have "parse_sni_with_replay (buf @ b) = Some (Tls host, n)"
      using tls.same_decision [OF _ eq False] assms(2) by simp
    moreover from this have "n \<le> length (buf @ b)" using parse_sni_with_replay_total [of "buf @ b"] by auto
    then have t: "take n (buf @ b) = take n w"
      using eq nl by (metis take_common)
    moreover have "take n w @ drop n (buf @ b) @ incoming s1 = w @ rest"
      unfolding t [symmetric] eq by (metis append.assoc append_take_drop_id)
    ultimately show ?thesis using r p
      by (subst extract_tls_loop.simps) (simp add: Let_def del: take_append drop_append)
  qed
qed

text \<open>C6: however the client's bytes are split into reads, as soon as a prefix of at most 16 KiB
  decides on a server name the extraction returns that name, hands out the decided flight for
  replay, and loses no byte: the flight, the overflow and what is left in the stream are the bytes
  the client sent, in order.\<close>

theorem tls_extraction_chunking:
  assumes "incoming s = w @ rest" and "parse_sni_with_replay w = Some (Tls host, n)"
    and "length w \<le> TLS_BUF" and "[] \<notin> set (sk_in s)"
  shows "\<exists>overflow s'. extract_tls_info s listen_port = Got ((host, listen_port, take n w, overflow), s')
    \<and> take n w @ overflow @ incoming s' = incoming s"
proof -
  have "w \<noteq> []" using assms(2) by (auto simp: parse_sni_with_replay_def)
  then show ?thesis
    using extract_tls_loop_chunks [of "[]" s w rest host n listen_port] assms
    by (auto simp: extract_tls_info_def)
qed

theorem tls_extraction_chunking_witness:
  "\<exists>overflow s'. extract_tls_info
      \<lparr>sk_in = [take 3 (encode_record 1 (encode_hello example_hello)),
                drop 3 (encode_record 1 (encode_hello example_hello)) @ [9], [8]],
       sk_end = Closed, sk_out = [], sk_room = None\<rparr> 443
     = Got ((''example.com'', 443, encode_record 1 (encode_hello example_hello), overflow), s')
     \<and> overflow @ incoming s' = [9, 8]"
proof -
  let ?w = "encode_record 1 (encode_hello example_hello)"
  let ?s = "\<lparr>sk_in = [take 3 ?w, drop 3 ?w @ [9], [8]], sk_end = Closed, sk_out = [], sk_room = None\<rparr>"
  have p: "parse_sni_with_replay ?w = Some (Tls ''example.com'', 85)" by code_simp
  have l: "length ?w = 85" by code_simp
  then have c: "[] \<notin> set (sk_in ?s)" by auto
  have i: "incoming ?s = ?w @ [9, 8]" by (simp add: incoming_def)
  from tls_extraction_chunking [OF i p _ c, of 443] show ?thesis
    unfolding i by (auto simp: TLS_BUF_def l)
qed

section \<open>Termination and losses\<close>

lemma under_timeout_returns [simp]: "under_timeout e f r \<noteq> Hang"
  by (simp add: with_timeout_returns)

lemma under_timeout_Got [simp]: "under_timeout e f r = Got x \<longleftrightarrow> r = Got x"
  by (cases r) simp_all

lemma under_timeout_of_Got [simp]: "under_timeout e f (Got x) = Got x"
  by simp

declare under_timeout.simps [simp del]

lemma extract_tls_loop_safe:
  "case extract_tls_loop listen_port buf s of
     Got ((host, port, flight, overflow), s') \<Rightarrow>
       port = listen_port \<and> flight @ overflow @ incoming s' = buf @ incoming s \<and> sk_out s' = sk_out s
   | Err e \<Rightarrow> e \<noteq> ParserPanic
   | Hang \<Rightarrow> False"
proof (induction listen_port buf s rule: extract_tls_loop.induct)
  case (1 listen_port buf s)
  show ?case
  proof (cases "under_timeout TlsPeekTimeout TlsReadError (read (TLS_BUF - length buf) s)")
    case (Got r)
    obtain b s' where r: "r = (b, s')" by (cases r)
    with Got have rd: "read (TLS_BUF - length buf) s = Got (b, s')" by simp
    obtain v n where v: "parse_sni_with_replay (buf @ b) = Some (v, n)"
      using parse_sni_with_replay_total by blast
    show ?thesis
    proof (cases "v = NeedMore \<and> b \<noteq> [] \<and> length (buf @ b) < TLS_BUF")
      case True
      then have "extract_tls_loop listen_port buf s = extract_tls_loop listen_port (buf @ b) s'"
        using rd v by (subst extract_tls_loop.simps) (simp add: Let_def)
      moreover note 1 [OF Got r [symmetric] _ refl v refl]
      ultimately show ?thesis using True read_progress [OF rd]
        by (simp split: outcome.splits prod.splits)
    next
      case False
      have "take n (buf @ b) @ drop n (buf @ b) @ incoming s' = buf @ incoming s"
        using read_progress(1) [OF rd] by (metis append.assoc append_take_drop_id)
      with False Got r v read_progress(4) [OF rd] show ?thesis
        by (subst extract_tls_loop.simps)
          (auto simp: Let_def simp del: take_append drop_append split: peek_result.split)
    qed
  next
    case (Err e)
    then show ?thesis
      by (subst extract_tls_loop.simps)
        (cases "read (TLS_BUF - length buf) s"; auto simp: under_timeout.simps)
  qed simp
qed

lemma extract_http_loop_safe:
  "case extract_http_loop listen_port buf s of
     Got ((host, port, peeked), s') \<Rightarrow>
       sk_out s' = sk_out s \<and> peeked @ incoming s' = buf @ incoming s
       \<or> peeked = [] \<and> sk_out s' = sk_out s @ [CONNECT_REPLY]
   | Err e \<Rightarrow> e \<noteq> ParserPanic
   | Hang \<Rightarrow> False"
proof (induction listen_port buf s rule: extract_http_loop.induct)
  case (1 listen_port buf s)
  show ?case
  proof (cases "under_timeout HttpReadTimeout HttpReadError (read (HTTP_BUF - length buf) s)")
    case (Got r)
    obtain b s' where r: "r = (b, s')" by (cases r)
    with Got have rd: "read (HTTP_BUF - length buf) s = Got (b, s')" by simp
    let ?h = "headers_of (buf @ b)"
    show ?thesis
    proof (cases "b \<noteq> [] \<and> \<not> starts_with ?h ''CONNECT '' \<and> \<not> header_end ?h \<and> length (buf @ b) < HTTP_BUF")
      case True
      then have "extract_http_loop listen_port buf s = extract_http_loop listen_port (buf @ b) s'"
        using rd by (subst extract_http_loop.simps) (simp add: Let_def)
      moreover note 1 [OF Got r [symmetric] _ refl refl]
      ultimately show ?thesis using True read_progress [OF rd]
        by (simp split: outcome.splits prod.splits)
    next
      case False
      with Got r read_progress [OF rd] show ?thesis
        by (subst extract_http_loop.simps)
          (auto simp: Let_def write_all_def split: option.split prod.split)
    qed
  next
    case (Err e)
    then show ?thesis
      by (subst extract_http_loop.simps)
        (cases "read (HTTP_BUF - length buf) s"; auto simp: under_timeout.simps)
  qed simp
qed

text \<open>C27: peeking at a client on a TLS or HTTP listener always ends, with a route or an error, because
  every read is bounded by a timeout and the buffer is finite; the parser never panics. A route on a
  TLS listener replays all bytes read; on an HTTP listener the same holds unless the request is a
  \<open>CONNECT\<close>, which is answered instead and whose bytes read so far, pipelined ones included, are
  dropped.\<close>

theorem extraction_returns:
  "(case extract_peeked ''tls'' s listen_port of
      Got ((host, port, flight, overflow), s') \<Rightarrow>
        port = listen_port \<and> flight @ overflow @ incoming s' = incoming s \<and> sk_out s' = sk_out s
    | Err e \<Rightarrow> e \<noteq> ParserPanic
    | Hang \<Rightarrow> False)
   \<and> (case extract_peeked ''http'' s listen_port of
      Got ((host, port, flight, overflow), s') \<Rightarrow> overflow = []
        \<and> (sk_out s' = sk_out s \<and> flight @ incoming s' = incoming s
           \<or> flight = [] \<and> sk_out s' = sk_out s @ [CONNECT_REPLY])
    | Err e \<Rightarrow> e \<noteq> ParserPanic
    | Hang \<Rightarrow> False)"
  using extract_tls_loop_safe [where buf = "[]" and s = s and listen_port = listen_port]
    extract_http_loop_safe [where buf = "[]" and s = s and listen_port = listen_port]
  by (auto simp: extract_peeked_def extract_tls_info_def extract_http_info_def no_overflow_def
    split: outcome.splits prod.splits)

section \<open>Host and port round trip\<close>

lemma colon_show_nat: "CHR '':'' \<notin> set (show_nat n)"
  using list_all_show_radix [of 10 "\<lambda>c. c \<noteq> CHR '':''" n] digit_char_neq(2)
  by (auto simp: list_all_iff)

lemma show_ip_no_bracket: "CHR '']'' \<notin> set (show_ip ip)" "CHR ''['' \<notin> set (show_ip ip)"
proof -
  have n: "digit_char d \<noteq> CHR '']''" "digit_char d \<noteq> CHR ''[''" if "d < 16" for d
    using that of_char_digit_char [of d] by (auto split: if_splits)
  show "CHR '']'' \<notin> set (show_ip ip)" "CHR ''['' \<notin> set (show_ip ip)"
    using show_ip_chars [of "\<lambda>c. c \<noteq> CHR '']''" ip] show_ip_chars [of "\<lambda>c. c \<noteq> CHR ''[''" ip] n
    by (auto simp: list_all_iff)
qed

lemma parse_host_port_name:
  assumes "\<not> starts_with h ''[''" and "h \<noteq> []"
  shows "parse_host_port (h @ '':'' @ show_nat (unat p)) d = (h, p)"
proof -
  have "\<not> starts_with (h @ '':'' @ show_nat (unat p)) ''[''"
    using assms by (cases h) (auto simp: starts_with_def)
  then show ?thesis
    using rsplit_once_append [OF colon_show_nat, of h "unat p"] by (simp add: parse_host_port_def)
qed

lemma parse_host_port_v6:
  "parse_host_port (''['' @ show_ip ip @ '']:'' @ show_nat (unat p)) d = (show_ip ip, p)"
proof -
  have "split_once CHR '']'' (''['' @ show_ip ip @ '']:'' @ show_nat (unat p))
      = Some (''['' @ show_ip ip, '':'' @ show_nat (unat p))"
    using split_once_append [of "CHR '']''" "''['' @ show_ip ip"] show_ip_no_bracket by simp
  then show ?thesis by (simp add: parse_host_port_def starts_with_def)
qed

text \<open>an authority is read as it is written: a host name or an IPv4 address with a port, a
  bracketed IPv6 address with a port, and a name alone, which gets the port of the listener. An
  unbracketed IPv6 address is cut at its last colon.\<close>

theorem host_port_roundtrip:
  assumes "h \<noteq> []" and "\<not> starts_with h ''[''"
  shows "parse_host_port (h @ '':'' @ show_nat (unat p)) d = (h, p)
    \<and> parse_host_port (''['' @ show_ip ip @ '']:'' @ show_nat (unat p)) d = (show_ip ip, p)
    \<and> (CHR '':'' \<notin> set h \<longrightarrow> parse_host_port h d = (h, d))"
proof -
  have "parse_host_port h d = (h, d)" if "CHR '':'' \<notin> set h"
    using assms that by (simp add: parse_host_port_def rsplit_once_def split_once_def)
  then show ?thesis using assms parse_host_port_name parse_host_port_v6 by blast
qed

theorem host_port_roundtrip_witness:
  "parse_host_port ''a.io:8443'' 443 = (''a.io'', 8443)"
proof -
  have "''a.io'' @ '':'' @ show_nat (unat (8443 :: u16)) = ''a.io:8443''" by code_simp
  then show ?thesis using host_port_roundtrip [of "''a.io''" 8443 443] by (simp add: starts_with_def)
qed

section \<open>Destinations and the configured rows\<close>

definition catchall_row :: "hosts_entry \<Rightarrow> bool" where
  "catchall_row e \<longleftrightarrow> trim (he_pattern e) = ''.*'' \<and> trim (he_address e) = ''*''"

lemma has_open_catchall_rows:
  "compile rx entries = Inr t \<Longrightarrow> has_open_catchall t \<longleftrightarrow> (\<exists>e \<in> set entries. catchall_row e)"
  by (auto simp: compile_def Let_def has_open_catchall_def catchall_row_def list_ex_iff split: sum.splits)

text \<open>with a hosts table, a client reaches exactly what the configured rows say: the backend of
  the row that decides its name, on the port the client asked for unless the row gives another;
  its own name if no row lists it but a catch-all row is configured; nothing otherwise. Without a
  table every client reaches the name it asked for.\<close>

theorem destination_follows_rows:
  assumes "compile rx entries = Inr t"
  shows "resolve_destination rx hostname port listen_port (Some t) =
      (case rows_resolve rx entries hostname of
         Some r \<Rightarrow> (case apply_host_resolve hostname port listen_port r of (h, p) \<Rightarrow> DestOk h p True)
       | None \<Rightarrow> if \<exists>e \<in> set entries. catchall_row e then DestOk hostname port False else Unlisted)
    \<and> resolve_destination rx hostname port listen_port None = DestOk hostname port False"
  using has_open_catchall_rows [OF assms] compile_refines_rows [OF assms]
  by (auto simp: resolve_destination_def Let_def split: option.split)

theorem destination_follows_rows_witness:
  "\<exists>t. compile any_rx [\<lparr>he_pattern = ''a.example'', he_address = ''b.example:8443''\<rparr>] = Inr t
     \<and> resolve_destination any_rx ''A.example'' 443 443 (Some t) = DestOk ''b.example'' 8443 True
     \<and> resolve_destination any_rx ''c.example'' 443 443 (Some t) = Unlisted"
proof -
  let ?rows = "[\<lparr>he_pattern = ''a.example'', he_address = ''b.example:8443''\<rparr>]"
  have "rows_ok any_rx ?rows" by code_simp
  then obtain t where t: "compile any_rx ?rows = Inr t" using compile_ok_iff by blast
  have "rows_resolve any_rx ?rows ''A.example'' = Some (Hostname ''b.example:8443'')"
    "rows_resolve any_rx ?rows ''c.example'' = None"
    "apply_host_resolve ''A.example'' 443 443 (Hostname ''b.example:8443'') = (''b.example'', 8443)"
    "\<not> (\<exists>e \<in> set ?rows. catchall_row e)"
    by code_simp+
  with t destination_follows_rows [OF t] show ?thesis by auto
qed

end
