(* ===== verification/Relay_Splice.thy ===== *)
theory Relay_Splice
  imports Relay_Limiter Relay_Stream
begin

text \<open>
  The bidirectional copy of \<open>src/service.rs\<close>: \<open>copy_counting\<close> and \<open>splice\<close>. The two directions run
  as tasks of their own and share the domain limiter, so a session is a sequence of turns, each one
  round of the loop of one direction at some time. The theorems hold for every such sequence:
  each side receives a prefix of what the other sent, the totals count it, the copy ends if the
  peers do, and a direction stops with the chunk that exceeds the daily bandwidth.
\<close>

definition SPLICE_BUF_SIZE :: nat where
  "SPLICE_BUF_SIZE = 64 * 1024"

record copier =
  cp_reader :: sock
  cp_writer :: sock
  cp_limiter :: "domain_limiter option"
  cp_total :: u64
  cp_done :: bool

text \<open>One round of the loop of \<open>copy_counting\<close>; \<open>None\<close> while the read is waiting for data.\<close>

definition copy_round :: "u64 \<Rightarrow> string \<Rightarrow> copier \<Rightarrow> copier option" where
  "copy_round now domain c =
     (case read SPLICE_BUF_SIZE (cp_reader c) of
        Hang \<Rightarrow> None
      | Err _ \<Rightarrow> Some (c\<lparr>cp_done := True\<rparr>)
      | Got (b, reader) \<Rightarrow>
          if b = [] then Some (c\<lparr>cp_done := True\<rparr>)
          else
            (case write_all b (cp_writer c) of
               Got writer \<Rightarrow>
                 (let n = of_nat (length b);
                      c = c\<lparr>cp_reader := reader, cp_writer := writer, cp_total := cp_total c + n\<rparr>
                  in case cp_limiter c of
                       None \<Rightarrow> Some c
                     | Some lim \<Rightarrow>
                         (case account_bytes now lim domain n of
                            (lim, Inl _) \<Rightarrow> Some (c\<lparr>cp_limiter := Some lim, cp_done := True\<rparr>)
                          | (lim, Inr _) \<Rightarrow> Some (c\<lparr>cp_limiter := Some lim\<rparr>)))
             | _ \<Rightarrow> Some (c\<lparr>cp_reader := reader, cp_done := True\<rparr>)))"

text \<open>
  A socket is split into a read half and a write half: reading changes \<open>sk_in\<close> only, writing changes
  \<open>sk_out\<close> and \<open>sk_room\<close> only, so the two tasks share nothing but the limiter.
\<close>

record splice =
  sp_client :: sock
  sp_upstream :: sock
  sp_limiter :: "domain_limiter option"
  sp_c2u :: u64
  sp_u2c :: u64
  sp_c2u_done :: bool
  sp_u2c_done :: bool

datatype direction = C2U | U2C

definition splice_start :: "sock \<Rightarrow> sock \<Rightarrow> domain_limiter option \<Rightarrow> splice" where
  "splice_start client upstream lim =
     \<lparr>sp_client = client, sp_upstream = upstream, sp_limiter = lim, sp_c2u = 0, sp_u2c = 0,
      sp_c2u_done = False, sp_u2c_done = False\<rparr>"

fun turn :: "string \<Rightarrow> direction \<Rightarrow> u64 \<Rightarrow> splice \<Rightarrow> splice" where
  "turn domain C2U now sp =
     (if sp_c2u_done sp then sp
      else case copy_round now domain \<lparr>cp_reader = sp_client sp, cp_writer = sp_upstream sp,
                  cp_limiter = sp_limiter sp, cp_total = sp_c2u sp, cp_done = False\<rparr> of
             None \<Rightarrow> sp
           | Some c \<Rightarrow> sp\<lparr>sp_client := cp_reader c, sp_upstream := cp_writer c,
               sp_limiter := cp_limiter c, sp_c2u := cp_total c, sp_c2u_done := cp_done c\<rparr>)"
| "turn domain U2C now sp =
     (if sp_u2c_done sp then sp
      else case copy_round now domain \<lparr>cp_reader = sp_upstream sp, cp_writer = sp_client sp,
                  cp_limiter = sp_limiter sp, cp_total = sp_u2c sp, cp_done = False\<rparr> of
             None \<Rightarrow> sp
           | Some c \<Rightarrow> sp\<lparr>sp_upstream := cp_reader c, sp_client := cp_writer c,
               sp_limiter := cp_limiter c, sp_u2c := cp_total c, sp_u2c_done := cp_done c\<rparr>)"

fun run_splice :: "string \<Rightarrow> (direction \<times> u64) list \<Rightarrow> splice \<Rightarrow> splice" where
  "run_splice domain [] sp = sp"
| "run_splice domain ((d, now) # ts) sp = run_splice domain ts (turn domain d now sp)"

text \<open>\<open>splice\<close> returns once both tasks have ended.\<close>

definition splice_result :: "splice \<Rightarrow> (u64 \<times> u64) option" where
  "splice_result sp = (if sp_c2u_done sp \<and> sp_u2c_done sp then Some (sp_c2u sp, sp_u2c sp) else None)"

section \<open>One round\<close>

lemma copy_round_moves:
  assumes "copy_round now domain c = Some c'"
  obtains b where "sk_out (cp_writer c') = sk_out (cp_writer c) @ b"
    and "cp_total c' = cp_total c + of_nat (length (concat b))"
    and "incoming (cp_reader c) = concat b @ incoming (cp_reader c') \<or>
      cp_done c' \<and> b = [] \<and> (\<exists>lost. incoming (cp_reader c) = lost @ incoming (cp_reader c'))"
    and "sk_out (cp_reader c') = sk_out (cp_reader c)" and "sk_in (cp_writer c') = sk_in (cp_writer c)"
    and "sk_end (cp_reader c') = sk_end (cp_reader c)" and "sk_end (cp_writer c') = sk_end (cp_writer c)"
    and "sk_room (cp_reader c') = sk_room (cp_reader c)"
    and "length (concat b) \<le> SPLICE_BUF_SIZE"
    and "cp_done c' \<or> length (incoming (cp_reader c')) < length (incoming (cp_reader c))"
proof (cases "read SPLICE_BUF_SIZE (cp_reader c)")
  case (Got r)
  obtain b reader where r: "r = (b, reader)" by (cases r)
  with Got have rd: "read SPLICE_BUF_SIZE (cp_reader c) = Got (b, reader)" by simp
  note p = read_progress [OF rd]
  consider "b = []" | e where "b \<noteq> []" "write_all b (cp_writer c) = Err e"
    | "b \<noteq> []" "write_all b (cp_writer c) = Hang"
    | writer where "b \<noteq> []" "write_all b (cp_writer c) = Got writer"
    by (cases "write_all b (cp_writer c)") auto
  then show thesis
  proof cases
    case 1
    with assms rd that [of "[]"] show thesis by (auto simp: copy_round_def)
  next
    case 2
    with assms rd p that [of "[]"] show thesis by (auto simp: copy_round_def)
  next
    case 3
    with assms rd p that [of "[]"] show thesis by (auto simp: copy_round_def)
  next
    case 4
    have w: "sk_out writer = sk_out (cp_writer c) @ [b]" "sk_in writer = sk_in (cp_writer c)"
      "sk_end writer = sk_end (cp_writer c)"
      using 4(2) by (auto simp: write_all_def split: if_splits)
    obtain "cp_reader c' = reader" "cp_writer c' = writer" "cp_total c' = cp_total c + of_nat (length b)"
      using assms rd 4
      by (auto simp: copy_round_def Let_def split: option.splits prod.splits sum.splits)
    with that [of "[b]"] w p 4 show thesis by simp
  qed
next
  case (Err e)
  with assms that [of "[]"] show thesis by (auto simp: copy_round_def)
next
  case Hang
  with assms show thesis by (simp add: copy_round_def)
qed

section \<open>One direction over many turns\<close>

fun flow :: "direction \<Rightarrow> splice \<Rightarrow> sock \<times> sock \<times> u64 \<times> bool" where
  "flow C2U sp = (sp_client sp, sp_upstream sp, sp_c2u sp, sp_c2u_done sp)"
| "flow U2C sp = (sp_upstream sp, sp_client sp, sp_u2c sp, sp_u2c_done sp)"

text \<open>
  Between two states, direction \<open>d\<close> has written \<open>b\<close> chunk by chunk, counted it, and read it off its
  source; \<open>lost\<close> is a chunk whose write failed, which ends the direction.
\<close>

definition moved :: "direction \<Rightarrow> splice \<Rightarrow> splice \<Rightarrow> bool" where
  "moved d sp sp' \<longleftrightarrow>
     (case (flow d sp, flow d sp') of ((r, w, t, fin), (r', w', t', fin')) \<Rightarrow>
        sk_end r' = sk_end r \<and>
        (\<exists>b lost. sk_out w' = sk_out w @ b \<and> t' = t + of_nat (length (concat b))
           \<and> incoming r = concat b @ lost @ incoming r' \<and> (lost \<noteq> [] \<longrightarrow> fin')
           \<and> (fin \<longrightarrow> fin' \<and> b = [] \<and> lost = [])))"

lemma moved_refl [simp]: "moved d sp sp"
  by (cases d) (auto simp: moved_def)

lemma moved_trans:
  assumes "moved d sp1 sp2" and "moved d sp2 sp3"
  shows "moved d sp1 sp3"
proof -
  obtain r1 w1 t1 f1 r2 w2 t2 f2 r3 w3 t3 f3 where
    f: "flow d sp1 = (r1, w1, t1, f1)" "flow d sp2 = (r2, w2, t2, f2)" "flow d sp3 = (r3, w3, t3, f3)"
    by (metis prod_cases4)
  from assms(1) f obtain b1 l1 where
    1: "sk_out w2 = sk_out w1 @ b1" "t2 = t1 + of_nat (length (concat b1))" "sk_end r2 = sk_end r1"
      "incoming r1 = concat b1 @ l1 @ incoming r2" "l1 \<noteq> [] \<longrightarrow> f2" "f1 \<longrightarrow> f2 \<and> b1 = [] \<and> l1 = []"
    by (auto simp: moved_def)
  from assms(2) f obtain b2 l2 where
    2: "sk_out w3 = sk_out w2 @ b2" "t3 = t2 + of_nat (length (concat b2))" "sk_end r3 = sk_end r2"
      "incoming r2 = concat b2 @ l2 @ incoming r3" "l2 \<noteq> [] \<longrightarrow> f3" "f2 \<longrightarrow> f3 \<and> b2 = [] \<and> l2 = []"
    by (auto simp: moved_def)
  have "incoming r1 = concat (b1 @ b2) @ (l1 @ l2) @ incoming r3"
    using 1(4,5) 2(4,6) by (cases "l1 = []") auto
  moreover have "l1 @ l2 \<noteq> [] \<longrightarrow> f3" "f1 \<longrightarrow> f3 \<and> b1 @ b2 = [] \<and> l1 @ l2 = []"
    using 1(5,6) 2(5,6) by auto
  ultimately show ?thesis using 1(1-3) 2(1-3) f
    by (auto simp: moved_def intro!: exI [of _ "b1 @ b2"] exI [of _ "l1 @ l2"])
qed

lemma moved_turn_same: "moved d sp (turn domain d now sp)"
proof -
  obtain r w t f where fl: "flow d sp = (r, w, t, f)" by (metis prod_cases4)
  let ?c = "\<lparr>cp_reader = r, cp_writer = w, cp_limiter = sp_limiter sp, cp_total = t, cp_done = False\<rparr>"
  show ?thesis
  proof (cases "f \<or> copy_round now domain ?c = None")
    case True
    with fl have "turn domain d now sp = sp" by (cases d) auto
    then show ?thesis by simp
  next
    case False
    then obtain c' where c': "copy_round now domain ?c = Some c'" by auto
    have fl': "flow d (turn domain d now sp) = (cp_reader c', cp_writer c', cp_total c', cp_done c')"
      using False c' fl by (cases d) auto
    from copy_round_moves [OF c'] obtain b where
      "sk_out (cp_writer c') = sk_out w @ b" "cp_total c' = t + of_nat (length (concat b))"
      "incoming r = concat b @ incoming (cp_reader c') \<or>
        cp_done c' \<and> b = [] \<and> (\<exists>lost. incoming r = lost @ incoming (cp_reader c'))"
      "sk_end (cp_reader c') = sk_end r" by (simp, metis)
    with fl fl' False show ?thesis
      by (auto simp: moved_def intro!: exI [of _ b])
  qed
qed

lemma moved_turn_other:
  assumes "d' \<noteq> d"
  shows "moved d sp (turn domain d' now sp)"
proof -
  obtain r w t f where fl: "flow d' sp = (r, w, t, f)" by (metis prod_cases4)
  let ?c = "\<lparr>cp_reader = r, cp_writer = w, cp_limiter = sp_limiter sp, cp_total = t, cp_done = False\<rparr>"
  show ?thesis
  proof (cases "f \<or> copy_round now domain ?c = None")
    case True
    with fl have "turn domain d' now sp = sp" by (cases d') auto
    then show ?thesis by simp
  next
    case False
    then obtain c' where c': "copy_round now domain ?c = Some c'" by auto
    from copy_round_moves [OF c'] have
      "sk_in (cp_writer c') = sk_in w" "sk_end (cp_writer c') = sk_end w"
      "sk_out (cp_reader c') = sk_out r" by (simp, metis)+
    with fl c' False assms show ?thesis
      by (cases d; cases d') (auto simp: moved_def incoming_def)
  qed
qed

lemma moved_run: "moved d sp (run_splice domain ts sp)"
proof (induction domain ts sp rule: run_splice.induct)
  case (2 domain d' now ts sp)
  have "moved d sp (turn domain d' now sp)"
    using moved_turn_same moved_turn_other by (cases "d' = d") auto
  with 2 show ?case using moved_trans by auto
qed simp

section \<open>The copy ends\<close>

definition turns :: "direction \<Rightarrow> (direction \<times> u64) list \<Rightarrow> nat" where
  "turns d ts = length (filter (\<lambda>(d', _). d' = d) ts)"

definition finished :: "direction \<Rightarrow> splice \<Rightarrow> bool" where
  "finished d sp \<longleftrightarrow> snd (snd (snd (flow d sp)))"

definition pending :: "direction \<Rightarrow> splice \<Rightarrow> bytes" where
  "pending d sp = incoming (fst (flow d sp))"

lemma moved_pending:
  assumes "moved d sp sp'"
  shows "length (pending d sp') \<le> length (pending d sp)" and "finished d sp \<Longrightarrow> finished d sp'"
    and "sk_end (fst (flow d sp')) = sk_end (fst (flow d sp))"
  using assms by (cases d; auto simp: moved_def pending_def finished_def)+

lemma turn_progress:
  assumes "sk_end (fst (flow d sp)) \<noteq> Silent"
  shows "finished d (turn domain d now sp)
    \<or> length (pending d (turn domain d now sp)) < length (pending d sp)"
proof -
  obtain r w t f where fl: "flow d sp = (r, w, t, f)" by (metis prod_cases4)
  let ?c = "\<lparr>cp_reader = r, cp_writer = w, cp_limiter = sp_limiter sp, cp_total = t, cp_done = False\<rparr>"
  have "read SPLICE_BUF_SIZE r \<noteq> Hang"
    using assms fl by (auto simp: read_def split: list.splits stream_end.splits)
  then have "copy_round now domain ?c \<noteq> None"
    by (auto simp: copy_round_def Let_def split: outcome.split option.split prod.split sum.split)
  then obtain c' where c': "copy_round now domain ?c = Some c'" by auto
  show ?thesis
  proof (cases f)
    case True
    with fl show ?thesis by (cases d) (auto simp: finished_def)
  next
    case False
    have "flow d (turn domain d now sp) = (cp_reader c', cp_writer c', cp_total c', cp_done c')"
      using False c' fl by (cases d) auto
    moreover have "cp_done c' \<or> length (incoming (cp_reader c')) < length (incoming r)"
      using copy_round_moves [OF c'] by (simp, metis)
    ultimately show ?thesis using fl by (auto simp: finished_def pending_def)
  qed
qed

lemma run_progress:
  assumes "sk_end (fst (flow d sp)) \<noteq> Silent"
  shows "finished d (run_splice domain ts sp)
    \<or> turns d ts + length (pending d (run_splice domain ts sp)) \<le> length (pending d sp)"
  using assms
proof (induction domain ts sp rule: run_splice.induct)
  case (2 domain d' now ts sp)
  let ?sp = "turn domain d' now sp"
  have m: "moved d sp ?sp" using moved_run [of d sp domain "[(d', now)]"] by simp
  note ih = 2(1) [unfolded moved_pending(3) [OF m], OF 2(2)]
  show ?case
  proof (cases "d' = d")
    case True
    have "finished d ?sp \<or> length (pending d ?sp) < length (pending d sp)"
      using turn_progress [OF 2(2)] True by simp
    moreover have "finished d ?sp \<Longrightarrow> finished d (run_splice domain ts ?sp)"
      by (rule moved_pending(2) [OF moved_run])
    ultimately show ?thesis using ih True by (auto simp: turns_def)
  next
    case False
    then show ?thesis using ih moved_pending(1) [OF m] by (auto simp: turns_def)
  qed
qed (simp add: turns_def)

section \<open>Properties\<close>

text \<open>the relay is transparent. At every moment of a session, whatever the order in which the two
  tasks run, the upstream has received a prefix of what the client sent and the client a prefix of
  what the upstream sent, after what was written to them before; the totals are the lengths of these
  prefixes modulo $2^{64}$; and in a direction that is still running the rest is still to be read, so
  no byte is lost, repeated or reordered.\<close>

theorem splice_transparent:
  assumes "sp = run_splice domain ts (splice_start client upstream lim)"
  shows "\<exists>bu bc up down. sk_out (sp_upstream sp) = sk_out upstream @ bu
    \<and> sk_out (sp_client sp) = sk_out client @ bc
    \<and> incoming client = concat bu @ up \<and> incoming upstream = concat bc @ down
    \<and> sp_c2u sp = of_nat (length (concat bu)) \<and> sp_u2c sp = of_nat (length (concat bc))
    \<and> (sp_c2u_done sp \<or> up = incoming (sp_client sp))
    \<and> (sp_u2c_done sp \<or> down = incoming (sp_upstream sp))"
proof -
  have m: "moved d (splice_start client upstream lim) sp" for d
    unfolding assms by (rule moved_run)
  obtain bu l where "sk_out (sp_upstream sp) = sk_out upstream @ bu" "sp_c2u sp = of_nat (length (concat bu))"
    "incoming client = concat bu @ l @ incoming (sp_client sp)" "l \<noteq> [] \<longrightarrow> sp_c2u_done sp"
    using m [of C2U] by (auto simp: moved_def splice_start_def)
  moreover obtain bc l' where "sk_out (sp_client sp) = sk_out client @ bc"
    "sp_u2c sp = of_nat (length (concat bc))"
    "incoming upstream = concat bc @ l' @ incoming (sp_upstream sp)" "l' \<noteq> [] \<longrightarrow> sp_u2c_done sp"
    using m [of U2C] by (auto simp: moved_def splice_start_def)
  ultimately show ?thesis
    by (intro exI [of _ bu] exI [of _ bc] exI [of _ "l @ incoming (sp_client sp)"]
      exI [of _ "l' @ incoming (sp_upstream sp)"]) auto
qed

definition chat_client :: sock where
  "chat_client = \<lparr>sk_in = [[1, 2], [3]], sk_end = Closed, sk_out = [], sk_room = None\<rparr>"

definition chat_server :: sock where
  "chat_server = \<lparr>sk_in = [[7]], sk_end = Closed, sk_out = [[0]], sk_room = None\<rparr>"

theorem splice_transparent_witness:
  "\<exists>up. incoming chat_client = concat [[1, 2]] @ up
     \<and> sk_out (sp_upstream (run_splice ''d'' [(C2U, 0), (U2C, 0)] (splice_start chat_client chat_server None)))
       = [[0]] @ [[1, 2]]"
proof -
  have "sk_out (sp_upstream (run_splice ''d'' [(C2U, 0), (U2C, 0)] (splice_start chat_client chat_server None)))
      = [[0], [1, 2]]" "sk_out chat_server = [[0]]" by code_simp+
  with splice_transparent [OF refl, of "''d''" "[(C2U, 0), (U2C, 0)]" chat_client chat_server None]
  show ?thesis by (simp del: run_splice.simps) metis
qed

text \<open>a session ends if both peers end theirs: as soon as each task has had one turn more than its
  source has bytes, \<open>splice\<close> returns its two totals, whatever the order of the turns.\<close>

theorem splice_ends:
  assumes "sk_end client \<noteq> Silent" and "sk_end upstream \<noteq> Silent"
    and "length (incoming client) < turns C2U ts" and "length (incoming upstream) < turns U2C ts"
  shows "splice_result (run_splice domain ts (splice_start client upstream lim)) \<noteq> None"
proof -
  let ?sp = "splice_start client upstream lim"
  have "finished C2U (run_splice domain ts ?sp)"
    using run_progress [of C2U ?sp domain ts] assms by (auto simp: splice_start_def pending_def)
  moreover have "finished U2C (run_splice domain ts ?sp)"
    using run_progress [of U2C ?sp domain ts] assms by (auto simp: splice_start_def pending_def)
  ultimately show ?thesis by (simp add: splice_result_def finished_def)
qed

theorem splice_ends_witness:
  "splice_result (run_splice ''d'' (replicate 4 (C2U, 0) @ replicate 2 (U2C, 0))
     (splice_start chat_client chat_server None)) \<noteq> None"
  by (rule splice_ends) (simp_all add: chat_client_def chat_server_def incoming_def turns_def)

end
