(* ===== verification/Relay_Service.thy ===== *)
theory Relay_Service
  imports Relay_Acl Relay_Registry Relay_Connector Relay_SelfLoop Relay_Metrics Relay_Extract Relay_Splice
begin

text \<open>
  The connection handler of \<open>src/service.rs\<close>: start-up of the service state, the guards a connection
  passes in the order of the code, the choice of an upstream with failover, the replay of the peeked
  bytes and the session. The result records every connection attempt, so that the theorems can say
  what is never dialled. Here the handler runs alone; \<open>Relay_Steps\<close> cuts it into the steps between which
  other tasks run, \<open>Relay_Interleave\<close> lets them run, and the atomic steps inside the limiter are the
  subject of \<open>Relay_Limiter_Steps\<close>.
\<close>

section \<open>State\<close>

record service_state =
  sv_acl :: client_acl
  sv_registry :: upstream_registry
  sv_hosts :: "hosts_table option"
  sv_limiter :: "domain_limiter option"
  sv_metrics :: metrics
  sv_traffic :: "(string \<times> string \<times> u64 \<times> u64) list option"

record surroundings =
  env_rx :: regex_crate
  env_lookup :: resolver
  env_dial :: network
  env_now :: u64
  env_turns :: "(direction \<times> u64) list"

text \<open>
  \<open>SniProxyService::new\<close>: the limiter of the new service. A state file that cannot be read leaves the
  service without limits.
\<close>

definition new_limiter ::
    "json_crate \<Rightarrow> io_faults \<Rightarrow> u64 \<Rightarrow> file_system \<Rightarrow> os \<Rightarrow> app_config \<Rightarrow> domain_limiter option" where
  "new_limiter js io now fs os cfg =
     (if domain_limits cfg = [] then None
      else case limiter_load js io now fs (domain_limits cfg) (domain_limits_state_path os cfg) of
             Inr limiter \<Rightarrow> Some limiter
           | Inl _ \<Rightarrow> None)"

definition TRAFFIC_QUEUE :: nat where
  "TRAFFIC_QUEUE = 8192"

text \<open>\<open>TrafficAggregator::record\<close>: a full queue drops the sample.\<close>

definition record_traffic ::
    "string \<Rightarrow> string \<Rightarrow> u64 \<Rightarrow> u64 \<Rightarrow> (string \<times> string \<times> u64 \<times> u64) list option
     \<Rightarrow> (string \<times> string \<times> u64 \<times> u64) list option" where
  "record_traffic client_ip domain up down =
     map_option (\<lambda>q. if length q < TRAFFIC_QUEUE then q @ [(client_ip, domain, up, down)] else q)"

section \<open>The handler\<close>

datatype service_error =
    ExtractFailed extract_error
  | RegistryFailed registry_error
  | UpstreamFailed "conn_error option"
  | ReplayFailed io_error

datatype handler_end = Rejected string | Failed service_error | Completed u64 u64 | Waiting

type_synonym dial_attempt = "string \<times> string \<times> u16"

record handler_result =
  hr_state :: service_state
  hr_dials :: "dial_attempt list"
  hr_session :: "splice option"
  hr_end :: handler_end

definition on_metrics :: "(metrics \<Rightarrow> metrics) \<Rightarrow> service_state \<Rightarrow> service_state" where
  "on_metrics f st = st\<lparr>sv_metrics := f (sv_metrics st)\<rparr>"

definition reject :: "target_labels \<Rightarrow> string \<Rightarrow> service_state \<Rightarrow> handler_result" where
  "reject labels reason st =
     \<lparr>hr_state = on_metrics (connection_rejected labels reason) st, hr_dials = [],
      hr_session = None, hr_end = Rejected reason\<rparr>"

definition fail :: "target_labels \<Rightarrow> bool \<Rightarrow> dial_attempt list \<Rightarrow> service_error \<Rightarrow> service_state \<Rightarrow> handler_result" where
  "fail labels was_open dials e st =
     \<lparr>hr_state = on_metrics (connection_failed labels was_open) st, hr_dials = dials,
      hr_session = None, hr_end = Failed e\<rparr>"

definition waiting :: "dial_attempt list \<Rightarrow> service_state \<Rightarrow> handler_result" where
  "waiting dials st = \<lparr>hr_state = st, hr_dials = dials, hr_session = None, hr_end = Waiting\<rparr>"

fun try_candidates ::
    "network \<Rightarrow> string \<Rightarrow> u16 \<Rightarrow> conn_error option \<Rightarrow> (string \<times> upstream_proxy) list
     \<Rightarrow> dial_attempt list \<times> (conn_error option, string \<times> upstream_proxy \<times> sock) outcome" where
  "try_candidates dial host port last_err [] = ([], Err last_err)"
| "try_candidates dial host port last_err ((name, proxy) # cs) =
     (case connect dial proxy host port of
        Got s \<Rightarrow> ([(name, host, port)], Got (name, proxy, s))
      | Hang \<Rightarrow> ([(name, host, port)], Hang)
      | Err e \<Rightarrow>
          (case try_candidates dial host port (Some e) cs of
             (dials, r) \<Rightarrow> ((name, host, port) # dials, r)))"

definition replay :: "bytes \<Rightarrow> bytes \<Rightarrow> sock \<Rightarrow> (io_error, sock) outcome" where
  "replay peeked overflow upstream =
     and_then (if peeked = [] then Got upstream else write_all peeked upstream) (\<lambda>upstream.
       if overflow = [] then Got upstream else write_all overflow upstream)"

definition relay_session ::
    "surroundings \<Rightarrow> target_labels \<Rightarrow> string \<Rightarrow> bytes \<Rightarrow> bytes \<Rightarrow> sock \<Rightarrow> sock \<Rightarrow> dial_attempt list
     \<Rightarrow> service_state \<Rightarrow> handler_result" where
  "relay_session env labels hostname peeked overflow client upstream dials st =
     (let st = on_metrics (connection_opened labels) st
      in case replay peeked overflow upstream of
           Err e \<Rightarrow> fail labels True dials (ReplayFailed e) st
         | Hang \<Rightarrow> waiting dials st
         | Got upstream \<Rightarrow>
             (let sp = run_splice hostname (env_turns env)
                    (splice_start client upstream (sv_limiter st));
                  st = st\<lparr>sv_limiter := sp_limiter sp\<rparr>
              in case splice_result sp of
                   None \<Rightarrow> (waiting dials st)\<lparr>hr_session := Some sp\<rparr>
                 | Some (c2u, u2c) \<Rightarrow>
                     (let st = on_metrics (connection_closed labels c2u u2c) st;
                          st = st\<lparr>sv_traffic := record_traffic (tl_client_ip labels) (tl_domain labels)
                            c2u u2c (sv_traffic st)\<rparr>
                      in \<lparr>hr_state = st, hr_dials = dials, hr_session = Some sp,
                          hr_end = Completed c2u u2c\<rparr>)))"

definition route_connection ::
    "surroundings \<Rightarrow> self_loop_guard \<Rightarrow> u16 \<Rightarrow> string \<Rightarrow> target_labels \<Rightarrow> string \<Rightarrow> u16 \<Rightarrow> bytes \<Rightarrow> bytes
     \<Rightarrow> sock \<Rightarrow> service_state \<Rightarrow> handler_result" where
  "route_connection env guard lport client_ip labels hostname port peeked overflow client st =
     (case resolve_destination (env_rx env) hostname port lport (sv_hosts st) of
        Unlisted \<Rightarrow> reject labels ''unlisted_host'' st
      | DestOk final_host final_port _ \<Rightarrow>
          if would_loop (env_lookup env) guard final_host final_port
          then reject labels ''self_loop'' st
          else
            (let labels = set_upstream final_host labels
             in case connect_candidates (sv_registry st) client_ip of
                  Inl e \<Rightarrow> fail labels False [] (RegistryFailed e) st
                | Inr candidates \<Rightarrow>
                    (case try_candidates (env_dial env) final_host final_port None candidates of
                       (dials, Err last_err) \<Rightarrow> fail labels False dials (UpstreamFailed last_err) st
                     | (dials, Hang) \<Rightarrow> waiting dials st
                     | (dials, Got (_, _, upstream)) \<Rightarrow>
                         relay_session env labels hostname peeked overflow client upstream dials st)))"

definition limiter_gate ::
    "u64 \<Rightarrow> string \<Rightarrow> domain_limiter option \<Rightarrow> domain_limiter option \<times> (limit_reason + unit)" where
  "limiter_gate now hostname limiter =
     (case limiter of
        None \<Rightarrow> (None, Inr ())
      | Some lm \<Rightarrow> (case check_connection now lm hostname of (lm, r) \<Rightarrow> (Some lm, r)))"

definition handle_connection ::
    "surroundings \<Rightarrow> self_loop_guard \<Rightarrow> string \<Rightarrow> u16 \<Rightarrow> string \<Rightarrow> sock \<Rightarrow> service_state \<Rightarrow> handler_result" where
  "handle_connection env guard proto lport peer client st =
     (let labels = set_client_ip_from_peer peer unknown_labels;
          client_ip = tl_client_ip labels
      in if \<not> is_allowed (sv_acl st) client_ip then reject labels ''acl_deny'' st
         else case extract_peeked proto client lport of
                Err e \<Rightarrow> fail labels False [] (ExtractFailed e) st
              | Hang \<Rightarrow> waiting [] st
              | Got ((hostname, port, peeked, overflow), client) \<Rightarrow>
                  (let labels = set_domain hostname labels
                   in case limiter_gate (env_now env) hostname (sv_limiter st) of
                        (limiter, Inl reason) \<Rightarrow>
                          reject labels (show_limit_reason reason) (st\<lparr>sv_limiter := limiter\<rparr>)
                      | (limiter, Inr _) \<Rightarrow>
                          route_connection env guard lport client_ip labels hostname port
                            peeked overflow client (st\<lparr>sv_limiter := limiter\<rparr>)))"

section \<open>Failover\<close>

definition attempt :: "string \<Rightarrow> u16 \<Rightarrow> string \<times> upstream_proxy \<Rightarrow> dial_attempt" where
  "attempt host port c = (fst c, host, port)"

definition refused :: "network \<Rightarrow> string \<Rightarrow> u16 \<Rightarrow> string \<times> upstream_proxy \<Rightarrow> bool" where
  "refused dial host port c \<longleftrightarrow> (\<exists>e. connect dial (snd c) host port = Err e)"

lemma try_candidates_spec:
  assumes "try_candidates dial host port last_err cs = (dials, r)"
  shows "case r of
      Err _ \<Rightarrow> dials = map (attempt host port) cs \<and> list_all (refused dial host port) cs
    | Got (name, proxy, s) \<Rightarrow> \<exists>before after. cs = before @ (name, proxy) # after
        \<and> list_all (refused dial host port) before \<and> connect dial proxy host port = Got s
        \<and> dials = map (attempt host port) (before @ [(name, proxy)])
    | Hang \<Rightarrow> \<exists>before c after. cs = before @ c # after \<and> list_all (refused dial host port) before
        \<and> connect dial (snd c) host port = Hang \<and> dials = map (attempt host port) (before @ [c])"
  using assms
proof (induction dial host port last_err cs arbitrary: dials r rule: try_candidates.induct)
  case (2 dial host port last_err name proxy cs)
  show ?case
  proof (cases "connect dial proxy host port")
    case (Got s)
    with 2(2) show ?thesis by (auto simp: attempt_def intro: exI [of _ "[]"])
  next
    case Hang
    with 2(2) show ?thesis
      by (simp, intro exI [of _ "[]"] exI [of _ name] exI [of _ proxy]) (auto simp: attempt_def)
  next
    case (Err e)
    obtain dials' where t: "try_candidates dial host port (Some e) cs = (dials', r)"
      and d: "dials = attempt host port (name, proxy) # dials'"
      using 2(2) Err by (auto simp: attempt_def split: prod.splits)
    have rf: "refused dial host port (name, proxy)" using Err by (simp add: refused_def)
    show ?thesis
    proof (cases r)
      case (Got x)
      obtain n p s where x: "x = (n, p, s)" by (cases x)
      with 2(1) [OF Err t] Got obtain before after where
        "cs = before @ (n, p) # after" "list_all (refused dial host port) before"
        "connect dial p host port = Got s" "dials' = map (attempt host port) (before @ [(n, p)])" by auto
      with d rf Got x show ?thesis
        by (simp, intro exI [of _ "(name, proxy) # before"] exI [of _ after]) simp
    next
      case (Err e')
      with 2(1) [OF \<open>connect dial proxy host port = Err e\<close> t] d rf show ?thesis by simp
    next
      case Hang
      with 2(1) [OF Err t] obtain before c after where
        "cs = before @ c # after" "list_all (refused dial host port) before"
        "connect dial (snd c) host port = Hang" "dials' = map (attempt host port) (before @ [c])" by auto
      moreover obtain n p where "c = (n, p)" by (cases c)
      ultimately show ?thesis using d rf Hang
        by (simp, intro exI [of _ "(name, proxy) # before"] exI [of _ n] exI [of _ p]) simp
    qed
  qed
qed auto

lemma try_candidates_prefix:
  "\<exists>k. fst (try_candidates dial host port last_err cs) = map (attempt host port) (take k cs)"
proof (induction dial host port last_err cs rule: try_candidates.induct)
  case (2 dial host port last_err name proxy cs)
  show ?case
  proof (cases "connect dial proxy host port")
    case (Err e)
    with 2 obtain k where "fst (try_candidates dial host port (Some e) cs) = map (attempt host port) (take k cs)"
      by blast
    with Err show ?thesis
      by (auto simp: attempt_def split: prod.split intro: exI [of _ "Suc k"])
  qed (auto simp: attempt_def intro: exI [of _ 1])
qed simp

section \<open>What a handler does to the outside\<close>

lemma handler_result_simps [simp]:
  "hr_dials (reject l r st) = []" "hr_end (reject l r st) = Rejected r" "hr_session (reject l r st) = None"
  "hr_dials (fail l w ds e st) = ds" "hr_end (fail l w ds e st) = Failed e" "hr_session (fail l w ds e st) = None"
  "hr_dials (waiting ds st) = ds" "hr_end (waiting ds st) = Waiting" "hr_session (waiting ds st) = None"
  "hr_state (reject l r st) = on_metrics (connection_rejected l r) st"
  "hr_state (fail l w ds e st) = on_metrics (connection_failed l w) st"
  "hr_state (waiting ds st) = st"
  by (simp_all add: reject_def fail_def waiting_def)

lemma on_metrics_simps [simp]:
  "sv_acl (on_metrics f st) = sv_acl st" "sv_registry (on_metrics f st) = sv_registry st"
  "sv_hosts (on_metrics f st) = sv_hosts st" "sv_limiter (on_metrics f st) = sv_limiter st"
  "sv_traffic (on_metrics f st) = sv_traffic st" "sv_metrics (on_metrics f st) = f (sv_metrics st)"
  by (simp_all add: on_metrics_def)

lemma relay_session_dials [simp]:
  "hr_dials (relay_session env labels hostname peeked overflow client upstream dials st) = dials"
  by (simp add: relay_session_def Let_def split: outcome.split option.split prod.split)

lemma route_connection_dials:
  assumes "hr_dials (route_connection env guard lport client_ip labels hostname port peeked overflow client st) = ds"
    and "ds \<noteq> []"
  shows "\<exists>host dport mapped candidates k.
      resolve_destination (env_rx env) hostname port lport (sv_hosts st) = DestOk host dport mapped
    \<and> \<not> would_loop (env_lookup env) guard host dport
    \<and> connect_candidates (sv_registry st) client_ip = Inr candidates
    \<and> ds = map (attempt host dport) (take k candidates)"
proof (cases "resolve_destination (env_rx env) hostname port lport (sv_hosts st)")
  case (DestOk host dport mapped)
  from assms DestOk have l: "\<not> would_loop (env_lookup env) guard host dport"
    by (auto simp: route_connection_def)
  from assms DestOk l obtain cs where c: "connect_candidates (sv_registry st) client_ip = Inr cs"
    by (auto simp: route_connection_def Let_def split: sum.splits)
  have "ds = fst (try_candidates (env_dial env) host dport None cs)"
    using assms(1) DestOk l c
    by (auto simp: route_connection_def Let_def split: prod.splits outcome.splits)
  with DestOk l c try_candidates_prefix show ?thesis by metis
qed (use assms in \<open>simp add: route_connection_def\<close>)

lemma client_ip_label [simp]:
  "tl_client_ip (set_client_ip_from_peer peer unknown_labels) = client_ip_from_peer peer"
  by (simp add: set_client_ip_from_peer_def)

definition admits :: "u64 \<Rightarrow> string \<Rightarrow> domain_limiter option \<Rightarrow> bool" where
  "admits now hostname limiter \<longleftrightarrow>
     (case limiter of None \<Rightarrow> True | Some lm \<Rightarrow> snd (check_connection now lm hostname) = Inr ())"

lemma limiter_gate_admits: "snd (limiter_gate now hostname limiter) = Inr () \<longleftrightarrow> admits now hostname limiter"
  by (simp add: limiter_gate_def admits_def split: option.split prod.split)

lemma handle_connection_dials:
  assumes "hr_dials (handle_connection env guard proto lport peer client st) = ds" and "ds \<noteq> []"
  shows "is_allowed (sv_acl st) (client_ip_from_peer peer)
    \<and> (\<exists>hostname port flight overflow client' host dport mapped candidates k.
        extract_peeked proto client lport = Got ((hostname, port, flight, overflow), client')
      \<and> admits (env_now env) hostname (sv_limiter st)
      \<and> resolve_destination (env_rx env) hostname port lport (sv_hosts st) = DestOk host dport mapped
      \<and> \<not> would_loop (env_lookup env) guard host dport
      \<and> connect_candidates (sv_registry st) (client_ip_from_peer peer) = Inr candidates
      \<and> ds = map (attempt host dport) (take k candidates))"
proof -
  from assms have a: "is_allowed (sv_acl st) (client_ip_from_peer peer)"
    by (auto simp: handle_connection_def Let_def split: if_splits)
  with assms obtain hostname port flight overflow client' where
    x: "extract_peeked proto client lport = Got ((hostname, port, flight, overflow), client')"
    by (auto simp: handle_connection_def Let_def split: outcome.splits)
  obtain lm r where g: "limiter_gate (env_now env) hostname (sv_limiter st) = (lm, r)" by fastforce
  with assms a x have "r = Inr ()"
    by (auto simp: handle_connection_def Let_def split: sum.splits)
  with g have ad: "admits (env_now env) hostname (sv_limiter st)"
    using limiter_gate_admits by (metis snd_conv)
  have "hr_dials (route_connection env guard lport (client_ip_from_peer peer)
      (set_domain hostname (set_client_ip_from_peer peer unknown_labels)) hostname port flight overflow
      client' (st\<lparr>sv_limiter := lm\<rparr>)) = ds"
    using assms(1) a x g \<open>r = Inr ()\<close> by (simp add: handle_connection_def Let_def)
  from route_connection_dials [OF this assms(2)] a x ad show ?thesis by auto
qed


definition demo_client :: sock where
  "demo_client = \<lparr>sk_in = [take 7 (encode_record 1 (encode_hello example_hello)),
       drop 7 (encode_record 1 (encode_hello example_hello)) @ [9], [8]],
     sk_end = Closed, sk_out = [], sk_room = None\<rparr>"

definition demo_env :: surroundings where
  "demo_env = \<lparr>env_rx = any_rx, env_lookup = (\<lambda>_ _. Addrs [V4 [93, 184, 216, 34]]),
     env_dial = (\<lambda>a. if a = ''example.com:443'' then Up chat_server else Refused), env_now = 0,
     env_turns = [(C2U, 0), (U2C, 0)]\<rparr>"

definition demo_guard :: self_loop_guard where
  "demo_guard = \<lparr>sg_local_ips = {V4 [10, 0, 0, 1]}, sg_listen_ports = {443}\<rparr>"

definition demo_state :: service_state where
  "demo_state = \<lparr>sv_acl = \<lparr>acl_entries = [(''10.0.0.7'', ''bob'')], acl_ufw_sync = False\<rparr>,
     sv_registry = example_registry, sv_hosts = None, sv_limiter = None, sv_metrics = no_metrics,
     sv_traffic = None\<rparr>"


section \<open>Counters\<close>

text \<open>What a handler may do to the counters it started from, given how it ended.\<close>

definition accounts :: "metrics \<Rightarrow> handler_result \<Rightarrow> bool" where
  "accounts m r \<longleftrightarrow>
     (let m' = sv_metrics (hr_state r)
      in mt_active m' = mt_active m + (if hr_end r = Waiting \<and> hr_session r \<noteq> None then 1 else 0)
         \<and> (hr_end r \<noteq> Waiting \<longrightarrow> mt_active_by m' = mt_active_by m)
         \<and> mt_errors m' = mt_errors m + (case hr_end r of Failed _ \<Rightarrow> 1 | _ \<Rightarrow> 0)
         \<and> mt_bytes m' = mt_bytes m + (case hr_end r of Completed c2u u2c \<Rightarrow> c2u + u2c | _ \<Rightarrow> 0))"

lemma add_at_undo [simp]: "add_at k (- 1) (add_at k 1 f) = (f :: 'k \<Rightarrow> int)"
  by (simp add: add_at_def)

lemma accounts_stops [simp]:
  "accounts (sv_metrics st) (reject l reason st)"
  "accounts (sv_metrics st) (fail l False ds e st)"
  "accounts (sv_metrics st) (waiting ds st)"
  by (simp_all add: accounts_def connection_rejected_def connection_failed_def Let_def)

lemma replay_returns: "replay peeked overflow upstream \<noteq> Hang"
  by (auto simp: replay_def write_all_def and_then_Hang split: if_splits)

lemma accounts_relay:
  "accounts (sv_metrics st) (relay_session env labels hostname peeked overflow client upstream dials st)"
proof (cases "replay peeked overflow upstream")
  case (Got up)
  let ?sp = "run_splice hostname (env_turns env) (splice_start client up (sv_limiter st))"
  show ?thesis
  proof (cases "splice_result ?sp")
    case None
    with Got show ?thesis
      by (simp add: relay_session_def accounts_def connection_opened_def waiting_def Let_def)
  next
    case (Some t)
    with Got show ?thesis
      by (cases t)
        (simp add: relay_session_def accounts_def connection_opened_def connection_closed_def Let_def)
  qed
next
  case (Err e)
  then show ?thesis
    by (simp add: relay_session_def accounts_def connection_opened_def connection_failed_def Let_def)
qed (simp add: replay_returns)

lemma accounts_route:
  "accounts (sv_metrics st)
     (route_connection env guard lport client_ip labels hostname port peeked overflow client st)"
  by (simp add: route_connection_def Let_def accounts_relay
    split: destination_outcome.split sum.split prod.split outcome.split)

text \<open>the counters balance. Whatever a connection does, the gauge of active sessions is raised only
  while its session is open and is back at its old value when the handler returns, in total and for
  every label; a failed handler counts one error; a completed one adds the bytes of both directions.\<close>

theorem handler_counters_balance:
  "accounts (sv_metrics st) (handle_connection env guard proto lport peer client st)"
proof -
  have "accounts (sv_metrics (st\<lparr>sv_limiter := lm\<rparr>)) r \<Longrightarrow> accounts (sv_metrics st) r" for lm r
    by simp
  note a = this [OF accounts_route] this [OF accounts_stops(1)]
  show ?thesis
    by (simp add: handle_connection_def Let_def a split: outcome.split prod.split sum.split)
qed

section \<open>Transparency of a whole connection\<close>

lemma replay_writes:
  assumes "replay peeked overflow upstream = Got up"
  shows "\<exists>w. sk_out up = sk_out upstream @ w \<and> concat w = peeked @ overflow"
  using assms by (auto simp: replay_def write_all_def and_then_Got split: if_splits)

lemma relay_session_transparent:
  assumes "hr_session (relay_session env labels hostname peeked overflow client upstream dials st) = Some sp"
  shows "\<exists>w up. sk_out (sp_upstream sp) = sk_out upstream @ w
    \<and> peeked @ overflow @ incoming client = concat w @ up"
proof -
  obtain u where u: "replay peeked overflow upstream = Got u"
    and sp: "sp = run_splice hostname (env_turns env) (splice_start client u (sv_limiter st))"
    using assms
    by (auto simp: relay_session_def Let_def split: outcome.splits option.splits)
  from replay_writes [OF u] obtain w1 where
    1: "sk_out u = sk_out upstream @ w1" "concat w1 = peeked @ overflow" by blast
  have "moved C2U (splice_start client u (sv_limiter st)) sp" unfolding sp by (rule moved_run)
  then obtain b l where "sk_out (sp_upstream sp) = sk_out u @ b"
    "incoming client = concat b @ l @ incoming (sp_client sp)"
    by (auto simp: moved_def splice_start_def)
  with 1 show ?thesis
    by (intro exI [of _ "w1 @ b"] exI [of _ "l @ incoming (sp_client sp)"]) simp
qed

text \<open>C24: on a TLS listener the upstream sees exactly the client's byte stream. Once a session is open,
  what has been written to the upstream after the proxy handshake is a prefix of the bytes the client
  has sent since it connected, the ClientHello first.\<close>

theorem tls_session_transparent:
  assumes "hr_session (handle_connection env guard ''tls'' lport peer client st) = Some sp"
  shows "\<exists>name proxy host dport upstream w rest.
      connect (env_dial env) proxy host dport = Got upstream
    \<and> hr_dials (handle_connection env guard ''tls'' lport peer client st) \<noteq> []
    \<and> last (hr_dials (handle_connection env guard ''tls'' lport peer client st)) = (name, host, dport)
    \<and> sk_out (sp_upstream sp) = sk_out upstream @ w \<and> incoming client = concat w @ rest"
proof -
  from assms have "is_allowed (sv_acl st) (client_ip_from_peer peer)"
    by (auto simp: handle_connection_def Let_def split: if_splits)
  moreover from this assms obtain hostname port flight overflow client' where
    x: "extract_peeked ''tls'' client lport = Got ((hostname, port, flight, overflow), client')"
    by (auto simp: handle_connection_def Let_def split: outcome.splits)
  ultimately obtain labels st' where
    h: "handle_connection env guard ''tls'' lport peer client st =
      route_connection env guard lport (client_ip_from_peer peer) labels hostname port flight overflow client' st'"
    using assms by (auto simp: handle_connection_def Let_def split: prod.splits sum.splits)
  from assms [unfolded h] obtain host dport mapped labels' cs dials name proxy upstream where
    t: "try_candidates (env_dial env) host dport None cs = (dials, Got (name, proxy, upstream))"
    and r: "route_connection env guard lport (client_ip_from_peer peer) labels hostname port flight overflow client' st'
      = relay_session env labels' hostname flight overflow client' upstream dials st'"
    by (auto simp: route_connection_def Let_def
      split: destination_outcome.splits if_splits sum.splits prod.splits outcome.splits)
  from relay_session_transparent [OF assms [unfolded h r]] obtain w up where
    "sk_out (sp_upstream sp) = sk_out upstream @ w" "flight @ overflow @ incoming client' = concat w @ up"
    by blast
  moreover have "flight @ overflow @ incoming client' = incoming client"
    using extract_tls_loop_safe [where buf = "[]" and s = client and listen_port = lport] x
    by (simp add: extract_peeked_def extract_tls_info_def)
  moreover have "connect (env_dial env) proxy host dport = Got upstream"
    "dials \<noteq> [] \<and> last dials = (name, host, dport)"
    using try_candidates_spec [OF t] by (auto simp: attempt_def)
  ultimately show ?thesis unfolding h r by auto
qed

theorem tls_session_transparent_witness:
  "\<exists>w rest. incoming demo_client = concat w @ rest
     \<and> hr_session (handle_connection demo_env demo_guard ''tls'' 443 ''10.0.0.7:5000'' demo_client demo_state) \<noteq> None"
proof -
  let ?h = "handle_connection demo_env demo_guard ''tls'' 443 ''10.0.0.7:5000'' demo_client demo_state"
  have "hr_session ?h \<noteq> None" by code_simp
  then obtain sp where sp: "hr_session ?h = Some sp" by blast
  from tls_session_transparent [OF sp] sp show ?thesis by auto
qed

text \<open>C25: failover. The candidates are tried in order; the session uses the first whose connection
  succeeds and every earlier one had failed; an error means that all of them failed; and the handler
  waits for ever exactly when a candidate does not answer, because later ones are then not tried.\<close>

theorem upstream_failover:
  "case try_candidates dial host port None cs of (dials, r) \<Rightarrow>
     (case r of
        Err _ \<Rightarrow> dials = map (attempt host port) cs \<and> list_all (refused dial host port) cs
      | Got (name, proxy, s) \<Rightarrow> \<exists>before after. cs = before @ (name, proxy) # after
          \<and> list_all (refused dial host port) before \<and> connect dial proxy host port = Got s
          \<and> dials = map (attempt host port) (before @ [(name, proxy)])
      | Hang \<Rightarrow> \<exists>before c after. cs = before @ c # after \<and> list_all (refused dial host port) before
          \<and> connect dial (snd c) host port = Hang \<and> dials = map (attempt host port) (before @ [c]))"
proof -
  obtain dials r where t: "try_candidates dial host port None cs = (dials, r)" by fastforce
  then show ?thesis using try_candidates_spec [OF t] by (simp only: prod.case)
qed

text \<open>an unreadable state file removes the limits. If the saved counters cannot be loaded, the
  service starts without a limiter, so every name is admitted although limits are configured.\<close>

theorem unreadable_state_disables_limits:
  assumes "limiter_load js io now fs (domain_limits cfg) (domain_limits_state_path os cfg) = Inl e"
  shows "new_limiter js io now fs os cfg = None
    \<and> limiter_gate now' hostname (new_limiter js io now fs os cfg) = (None, Inr ())"
  using assms by (simp add: new_limiter_def limiter_gate_def)

theorem unreadable_state_disables_limits_witness:
  "new_limiter (one_json\<lparr>from_json := \<lambda>_. None\<rparr>) no_faults 0 ((\<lambda>_. None)(''/d/l.json'' \<mapsto> ''x''))
     example_os (example_config\<lparr>domain_limits := lm_limits quota_limiter,
        domain_limits_state_file := Some ''/d/l.json''\<rparr>) = None"
proof -
  have "limiter_load (one_json\<lparr>from_json := \<lambda>_. None\<rparr>) no_faults 0 ((\<lambda>_. None)(''/d/l.json'' \<mapsto> ''x''))
     (domain_limits (example_config\<lparr>domain_limits := lm_limits quota_limiter,
        domain_limits_state_file := Some ''/d/l.json''\<rparr>))
     (domain_limits_state_path example_os (example_config\<lparr>domain_limits := lm_limits quota_limiter,
        domain_limits_state_file := Some ''/d/l.json''\<rparr>)) = Inl ParseStateFailed"
    by code_simp
  from unreadable_state_disables_limits [OF this] show ?thesis by simp
qed

end
