(* ===== verification/Relay_Steps.thy ===== *)
theory Relay_Steps
  imports Relay_Service
begin

text \<open>
  The connection handler of \<open>src/service.rs\<close> in steps. The handler is cut at every access to a table, a
  counter or a peer, so that other tasks may run in between; a view is what one step meets, the surroundings
  and the shared state of that moment. The lemmas follow one connection through any sequence of views: the
  guards it passes, the bytes it carries, the progress of its session. The theorem says that a connection
  that runs alone does what \<open>handle_connection\<close> does.
\<close>

section \<open>A connection in steps\<close>

text \<open>What has been read off the client: the name, the port, the bytes to replay and the client itself.\<close>

record peek =
  pk_host :: string
  pk_port :: u16
  pk_flight :: bytes
  pk_overflow :: bytes
  pk_client :: sock

text \<open>
  One constructor per point at which other tasks may run; each names what the handler does next.
  \<open>Ended Waiting\<close> is a handler that waits for a silent peer for ever.
\<close>

datatype phase =
    Checking sock
  | Peeking sock
  | Limiting peek
  | Resolving peek
  | Guarding peek string u16
  | Selecting peek string u16
  | Dialling peek string u16 "conn_error option" "(string \<times> upstream_proxy) list"
  | Opening peek sock
  | Replaying peek sock
  | Copying string splice
  | Ended handler_end "splice option"

record conn =
  cn_proto :: string
  cn_lport :: u16
  cn_labels :: target_labels
  cn_dials :: "dial_attempt list"
  cn_phase :: phase

definition new_conn :: "string \<Rightarrow> u16 \<Rightarrow> string \<Rightarrow> sock \<Rightarrow> conn" where
  "new_conn proto lport peer client =
     \<lparr>cn_proto = proto, cn_lport = lport, cn_labels = set_client_ip_from_peer peer unknown_labels,
      cn_dials = [], cn_phase = Checking client\<rparr>"

definition to_phase :: "phase \<Rightarrow> conn \<Rightarrow> conn" where
  "to_phase p c = c\<lparr>cn_phase := p\<rparr>"

definition stop_rejected :: "string \<Rightarrow> conn \<Rightarrow> service_state \<Rightarrow> conn \<times> service_state" where
  "stop_rejected reason c st =
     (to_phase (Ended (Rejected reason) None) c, on_metrics (connection_rejected (cn_labels c) reason) st)"

definition stop_failed :: "bool \<Rightarrow> service_error \<Rightarrow> conn \<Rightarrow> service_state \<Rightarrow> conn \<times> service_state" where
  "stop_failed opened e c st =
     (to_phase (Ended (Failed e) None) c, on_metrics (connection_failed (cn_labels c) opened) st)"

definition peek_client :: "conn \<Rightarrow> sock \<Rightarrow> service_state \<Rightarrow> conn \<times> service_state" where
  "peek_client c client st =
     (case extract_peeked (cn_proto c) client (cn_lport c) of
        Err e \<Rightarrow> stop_failed False (ExtractFailed e) c st
      | Hang \<Rightarrow> (to_phase (Ended Waiting None) c, st)
      | Got ((hostname, port, flight, overflow), client) \<Rightarrow>
          (c\<lparr>cn_labels := set_domain hostname (cn_labels c),
             cn_phase := Limiting \<lparr>pk_host = hostname, pk_port = port, pk_flight = flight,
               pk_overflow = overflow, pk_client = client\<rparr>\<rparr>, st))"

definition dial_next ::
    "network \<Rightarrow> peek \<Rightarrow> string \<Rightarrow> u16 \<Rightarrow> conn_error option \<Rightarrow> (string \<times> upstream_proxy) list
     \<Rightarrow> conn \<Rightarrow> service_state \<Rightarrow> conn \<times> service_state" where
  "dial_next dial pk host port last_err cs c st =
     (case cs of
        [] \<Rightarrow> stop_failed False (UpstreamFailed last_err) c st
      | (name, proxy) # cs \<Rightarrow>
          (let c = c\<lparr>cn_dials := cn_dials c @ [(name, host, port)]\<rparr>
           in case connect dial proxy host port of
                Got upstream \<Rightarrow> (to_phase (Opening pk upstream) c, st)
              | Err e \<Rightarrow> (to_phase (Dialling pk host port (Some e) cs) c, st)
              | Hang \<Rightarrow> (to_phase (Ended Waiting None) c, st)))"

definition copy_turn :: "string \<Rightarrow> direction \<Rightarrow> u64 \<Rightarrow> splice \<Rightarrow> conn \<Rightarrow> service_state \<Rightarrow> conn \<times> service_state" where
  "copy_turn hostname d now sp c st =
     (case splice_result sp of
        None \<Rightarrow>
          (let sp = turn hostname d now (sp\<lparr>sp_limiter := sv_limiter st\<rparr>)
           in (to_phase (Copying hostname sp) c, st\<lparr>sv_limiter := sp_limiter sp\<rparr>))
      | Some (c2u, u2c) \<Rightarrow>
          (let st = on_metrics (connection_closed (cn_labels c) c2u u2c) st
           in (to_phase (Ended (Completed c2u u2c) (Some sp)) c,
               st\<lparr>sv_traffic := record_traffic (tl_client_ip (cn_labels c)) (tl_domain (cn_labels c))
                 c2u u2c (sv_traffic st)\<rparr>)))"

text \<open>The next move of a connection; \<open>d\<close> says which copying task runs once there are two.\<close>

definition conn_step ::
    "surroundings \<Rightarrow> self_loop_guard \<Rightarrow> direction \<Rightarrow> conn \<Rightarrow> service_state \<Rightarrow> conn \<times> service_state" where
  "conn_step env guard d c st =
     (case cn_phase c of
        Checking client \<Rightarrow>
          if \<not> is_allowed (sv_acl st) (tl_client_ip (cn_labels c)) then stop_rejected ''acl_deny'' c st
          else (to_phase (Peeking client) c, st)
      | Peeking client \<Rightarrow> peek_client c client st
      | Limiting pk \<Rightarrow>
          (case limiter_gate (env_now env) (pk_host pk) (sv_limiter st) of
             (limiter, Inl reason) \<Rightarrow> stop_rejected (show_limit_reason reason) c (st\<lparr>sv_limiter := limiter\<rparr>)
           | (limiter, Inr _) \<Rightarrow> (to_phase (Resolving pk) c, st\<lparr>sv_limiter := limiter\<rparr>))
      | Resolving pk \<Rightarrow>
          (case resolve_destination (env_rx env) (pk_host pk) (pk_port pk) (cn_lport c) (sv_hosts st) of
             Unlisted \<Rightarrow> stop_rejected ''unlisted_host'' c st
           | DestOk host port _ \<Rightarrow> (to_phase (Guarding pk host port) c, st))
      | Guarding pk host port \<Rightarrow>
          if would_loop (env_lookup env) guard host port then stop_rejected ''self_loop'' c st
          else (c\<lparr>cn_labels := set_upstream host (cn_labels c), cn_phase := Selecting pk host port\<rparr>, st)
      | Selecting pk host port \<Rightarrow>
          (case connect_candidates (sv_registry st) (tl_client_ip (cn_labels c)) of
             Inl e \<Rightarrow> stop_failed False (RegistryFailed e) c st
           | Inr candidates \<Rightarrow> (to_phase (Dialling pk host port None candidates) c, st))
      | Dialling pk host port last_err cs \<Rightarrow> dial_next (env_dial env) pk host port last_err cs c st
      | Opening pk upstream \<Rightarrow>
          (to_phase (Replaying pk upstream) c, on_metrics (connection_opened (cn_labels c)) st)
      | Replaying pk upstream \<Rightarrow>
          (case replay (pk_flight pk) (pk_overflow pk) upstream of
             Err e \<Rightarrow> stop_failed True (ReplayFailed e) c st
           | Hang \<Rightarrow> (c, st)
           | Got upstream \<Rightarrow>
               (to_phase (Copying (pk_host pk) (splice_start (pk_client pk) upstream (sv_limiter st))) c, st))
      | Copying hostname sp \<Rightarrow> copy_turn hostname d (env_now env) sp c st
      | Ended _ _ \<Rightarrow> (c, st))"

section \<open>A connection through its views\<close>

type_synonym view = "surroundings \<times> direction \<times> service_state"

definition conn_after :: "self_loop_guard \<Rightarrow> conn \<Rightarrow> view list \<Rightarrow> conn" where
  "conn_after guard c vs = foldl (\<lambda>c (env, d, st). fst (conn_step env guard d c st)) c vs"

lemma conn_after_simps [simp]:
  "conn_after guard c [] = c"
  "conn_after guard c ((env, d, st) # vs) = conn_after guard (fst (conn_step env guard d c st)) vs"
  "conn_after guard c (vs @ ws) = conn_after guard (conn_after guard c vs) ws"
  by (simp_all add: conn_after_def)

lemma conn_phase_simps [simp]:
  "cn_phase (to_phase p c) = p" "cn_dials (to_phase p c) = cn_dials c" "cn_labels (to_phase p c) = cn_labels c"
  "cn_lport (to_phase p c) = cn_lport c" "cn_proto (to_phase p c) = cn_proto c"
  by (simp_all add: to_phase_def)

lemma new_conn_simps [simp]:
  "cn_phase (new_conn proto lport peer client) = Checking client" "cn_dials (new_conn proto lport peer client) = []"
  "cn_labels (new_conn proto lport peer client) = set_client_ip_from_peer peer unknown_labels"
  "cn_lport (new_conn proto lport peer client) = lport" "cn_proto (new_conn proto lport peer client) = proto"
  by (simp_all add: new_conn_def)

lemma stop_simps [simp]:
  "fst (stop_rejected r c st) = to_phase (Ended (Rejected r) None) c"
  "fst (stop_failed b e c st) = to_phase (Ended (Failed e) None) c"
  "snd (stop_rejected r c st) = on_metrics (connection_rejected (cn_labels c) r) st"
  "snd (stop_failed b e c st) = on_metrics (connection_failed (cn_labels c) b) st"
  by (simp_all add: stop_rejected_def stop_failed_def)

lemmas move_splits = outcome.splits option.splits prod.splits sum.splits list.splits destination_outcome.splits

lemmas conn_defs = conn_step_def peek_client_def dial_next_def copy_turn_def

fun ended :: "phase \<Rightarrow> bool" where
  "ended (Ended _ _) = True"
| "ended _ = False"

lemma conn_step_ended: "ended (cn_phase c) \<Longrightarrow> conn_step env guard d c st = (c, st)"
  by (cases "cn_phase c") (simp_all add: conn_step_def)

lemma conn_after_ended: "ended (cn_phase c) \<Longrightarrow> conn_after guard c vs = c"
  by (induction vs) (auto simp: conn_step_ended)

text \<open>After the choice of an upstream no more connection attempts are made.\<close>

fun dialled :: "phase \<Rightarrow> bool" where
  "dialled (Opening _ _) = True"
| "dialled (Replaying _ _) = True"
| "dialled (Copying _ _) = True"
| "dialled (Ended _ _) = True"
| "dialled _ = False"

lemma dialled_step:
  assumes "dialled (cn_phase c)"
  shows "dialled (cn_phase (fst (conn_step env guard d c st))) \<and> cn_dials (fst (conn_step env guard d c st)) = cn_dials c"
  using assms by (cases "cn_phase c") (auto simp: conn_step_def copy_turn_def Let_def split: outcome.split option.split)

lemma dialled_after: "dialled (cn_phase c) \<Longrightarrow> cn_dials (conn_after guard c vs) = cn_dials c"
proof (induction vs arbitrary: c)
  case (Cons v vs)
  then show ?case using dialled_step by (cases v) simp
qed simp

lemma dialling_after:
  assumes "cn_phase c = Dialling pk host port last_err cs"
  shows "\<exists>k. cn_dials (conn_after guard c vs) = cn_dials c @ map (attempt host port) (take k cs)"
  using assms
proof (induction vs arbitrary: c cs last_err)
  case (Cons v vs)
  obtain env d st where v: "v = (env, d, st)" by (metis prod_cases3)
  let ?c = "fst (conn_step env guard d c st)"
  show ?case
  proof (cases cs)
    case Nil
    with Cons.prems have "dialled (cn_phase ?c)" "cn_dials ?c = cn_dials c" by (simp_all add: conn_step_def dial_next_def)
    with Nil v show ?thesis using dialled_after [of ?c guard vs] by simp
  next
    case (Cons x xs)
    obtain name proxy where x: "x = (name, proxy)" by (cases x)
    have dials: "cn_dials ?c = cn_dials c @ [attempt host port x]"
      using Cons.prems Cons x by (simp add: conn_step_def dial_next_def Let_def attempt_def split: outcome.split)
    show ?thesis
    proof (cases "connect (env_dial env) proxy host port")
      case (Err e)
      then have "cn_phase ?c = Dialling pk host port (Some e) xs"
        using Cons.prems Cons x by (simp add: conn_step_def dial_next_def Let_def)
      from Cons.IH [OF this] obtain k where
        "cn_dials (conn_after guard ?c vs) = cn_dials ?c @ map (attempt host port) (take k xs)" by blast
      then show ?thesis using v dials Cons by (auto intro: exI [of _ "Suc k"])
    next
      case (Got u)
      then have "dialled (cn_phase ?c)" using Cons.prems Cons x by (simp add: conn_step_def dial_next_def Let_def)
      then show ?thesis using v dials Cons dialled_after [of ?c guard vs] by (auto intro: exI [of _ 1])
    next
      case Hang
      then have "dialled (cn_phase ?c)" using Cons.prems Cons x by (simp add: conn_step_def dial_next_def Let_def)
      then show ?thesis using v dials Cons dialled_after [of ?c guard vs] by (auto intro: exI [of _ 1])
    qed
  qed
qed (auto intro: exI [of _ 0])

section \<open>Every guard is decided when it is consulted\<close>

definition around :: "view list \<Rightarrow> nat \<Rightarrow> surroundings" where
  "around vs n = fst (vs ! n)"

definition seen :: "view list \<Rightarrow> nat \<Rightarrow> service_state" where
  "seen vs n = snd (snd (vs ! n))"

lemma view_simps [simp]:
  "around (v # vs) 0 = fst v" "around (v # vs) (Suc n) = around vs n"
  "seen (v # vs) 0 = snd (snd v)" "seen (v # vs) (Suc n) = seen vs n"
  by (simp_all add: around_def seen_def)

text \<open>A connection without attempts that makes one later has another move, and that move does not end it.\<close>

lemma undialled_view:
  assumes "cn_dials (conn_after guard c vs) \<noteq> []" and "cn_dials c = []"
  obtains env d st ws where "vs = (env, d, st) # ws"
    and "cn_dials (conn_after guard (fst (conn_step env guard d c st)) ws) \<noteq> []"
    and "ended (cn_phase (fst (conn_step env guard d c st))) \<longrightarrow> cn_dials (fst (conn_step env guard d c st)) \<noteq> []"
proof (cases vs)
  case (Cons v ws)
  obtain env d st where v: "v = (env, d, st)" by (metis prod_cases3)
  with Cons assms(1) have ws: "cn_dials (conn_after guard (fst (conn_step env guard d c st)) ws) \<noteq> []" by simp
  then have "ended (cn_phase (fst (conn_step env guard d c st))) \<longrightarrow> cn_dials (fst (conn_step env guard d c st)) \<noteq> []"
    using conn_after_ended [of "fst (conn_step env guard d c st)" guard ws] by auto
  with Cons v ws that show thesis by simp
qed (use assms in simp)

lemma selecting_dials:
  assumes "cn_dials (conn_after guard c vs) \<noteq> []" and "cn_dials c = []" and "cn_phase c = Selecting pk host port"
  shows "1 < length vs \<and> (\<exists>cs k. connect_candidates (sv_registry (seen vs 0)) (tl_client_ip (cn_labels c)) = Inr cs
    \<and> cn_dials (conn_after guard c vs) = map (attempt host port) (take k cs))"
proof -
  obtain env d st ws where v: "vs = (env, d, st) # ws"
    and ws: "cn_dials (conn_after guard (fst (conn_step env guard d c st)) ws) \<noteq> []"
    and live: "ended (cn_phase (fst (conn_step env guard d c st))) \<longrightarrow> cn_dials (fst (conn_step env guard d c st)) \<noteq> []"
    using undialled_view [OF assms(1,2)] by metis
  obtain cs where cs: "connect_candidates (sv_registry st) (tl_client_ip (cn_labels c)) = Inr cs"
    using live assms(2,3) by (auto simp: conn_step_def split: sum.splits)
  then have step: "fst (conn_step env guard d c st) = to_phase (Dialling pk host port None cs) c"
    using assms(3) by (simp add: conn_step_def)
  from dialling_after [of "to_phase (Dialling pk host port None cs) c" pk host port None cs guard ws]
  obtain k where k: "cn_dials (conn_after guard (fst (conn_step env guard d c st)) ws) = map (attempt host port) (take k cs)"
    using assms(2) step by auto
  moreover have "ws \<noteq> []" using ws step assms(2) by auto
  ultimately show ?thesis using v cs by auto
qed

lemma limiting_dials:
  assumes "cn_dials (conn_after guard c vs) \<noteq> []" and "cn_dials c = []" and "cn_phase c = Limiting pk"
  shows "4 < length vs \<and> admits (env_now (around vs 0)) (pk_host pk) (sv_limiter (seen vs 0))
    \<and> (\<exists>host port mapped cs k.
        resolve_destination (env_rx (around vs 1)) (pk_host pk) (pk_port pk) (cn_lport c) (sv_hosts (seen vs 1)) = DestOk host port mapped
      \<and> \<not> would_loop (env_lookup (around vs 2)) guard host port
      \<and> connect_candidates (sv_registry (seen vs 3)) (tl_client_ip (cn_labels c)) = Inr cs
      \<and> cn_dials (conn_after guard c vs) = map (attempt host port) (take k cs))"
proof -
  obtain env d st ws where v: "vs = (env, d, st) # ws"
    and ws: "cn_dials (conn_after guard (fst (conn_step env guard d c st)) ws) \<noteq> []"
    and live: "ended (cn_phase (fst (conn_step env guard d c st))) \<longrightarrow> cn_dials (fst (conn_step env guard d c st)) \<noteq> []"
    using undialled_view [OF assms(1,2)] by metis
  obtain lm where gate: "limiter_gate (env_now env) (pk_host pk) (sv_limiter st) = (lm, Inr ())"
    using live assms(2,3) by (auto simp: conn_step_def split: sum.splits prod.splits)
  then have adm: "admits (env_now env) (pk_host pk) (sv_limiter st)" using limiter_gate_admits by (metis snd_conv)
  have step: "fst (conn_step env guard d c st) = to_phase (Resolving pk) c"
    using gate assms(3) by (simp add: conn_step_def)
  let ?c = "to_phase (Resolving pk) c"
  obtain env1 d1 st1 ws1 where v1: "ws = (env1, d1, st1) # ws1"
    and ws1: "cn_dials (conn_after guard (fst (conn_step env1 guard d1 ?c st1)) ws1) \<noteq> []"
    and live1: "ended (cn_phase (fst (conn_step env1 guard d1 ?c st1))) \<longrightarrow> cn_dials (fst (conn_step env1 guard d1 ?c st1)) \<noteq> []"
    using undialled_view [OF ws [unfolded step]] assms(2) by (metis conn_phase_simps(2))
  obtain host port mapped where dest:
    "resolve_destination (env_rx env1) (pk_host pk) (pk_port pk) (cn_lport c) (sv_hosts st1) = DestOk host port mapped"
    using live1 assms(2) by (auto simp: conn_step_def split: destination_outcome.splits)
  then have step1: "fst (conn_step env1 guard d1 ?c st1) = to_phase (Guarding pk host port) c"
    by (simp add: conn_step_def to_phase_def)
  let ?c1 = "to_phase (Guarding pk host port) c"
  obtain env2 d2 st2 ws2 where v2: "ws1 = (env2, d2, st2) # ws2"
    and ws2: "cn_dials (conn_after guard (fst (conn_step env2 guard d2 ?c1 st2)) ws2) \<noteq> []"
    and live2: "ended (cn_phase (fst (conn_step env2 guard d2 ?c1 st2))) \<longrightarrow> cn_dials (fst (conn_step env2 guard d2 ?c1 st2)) \<noteq> []"
    using undialled_view [OF ws1 [unfolded step1]] assms(2) by (metis conn_phase_simps(2))
  have loop: "\<not> would_loop (env_lookup env2) guard host port"
    using live2 assms(2) by (auto simp: conn_step_def split: if_splits)
  let ?c2 = "fst (conn_step env2 guard d2 ?c1 st2)"
  have "cn_dials ?c2 = []" "cn_phase ?c2 = Selecting pk host port" "tl_client_ip (cn_labels ?c2) = tl_client_ip (cn_labels c)"
    using loop assms(2) by (simp_all add: conn_step_def set_upstream_def)
  with selecting_dials [OF ws2] show ?thesis
    unfolding v v1 v2 using adm dest loop step step1 by (auto simp: numeral_eq_Suc)
qed

lemma new_conn_dials:
  assumes "ds = cn_dials (conn_after guard (new_conn proto lport peer client) vs)" and "ds \<noteq> []"
  shows "6 < length vs \<and> is_allowed (sv_acl (seen vs 0)) (client_ip_from_peer peer)
    \<and> (\<exists>hostname port flight overflow client' host dport mapped candidates k.
        extract_peeked proto client lport = Got ((hostname, port, flight, overflow), client')
      \<and> admits (env_now (around vs 2)) hostname (sv_limiter (seen vs 2))
      \<and> resolve_destination (env_rx (around vs 3)) hostname port lport (sv_hosts (seen vs 3)) = DestOk host dport mapped
      \<and> \<not> would_loop (env_lookup (around vs 4)) guard host dport
      \<and> connect_candidates (sv_registry (seen vs 5)) (client_ip_from_peer peer) = Inr candidates
      \<and> ds = map (attempt host dport) (take k candidates))"
proof -
  let ?g = guard
  let ?c = "new_conn proto lport peer client"
  note ds = assms(1)
  have "cn_dials (conn_after ?g ?c vs) \<noteq> []" using assms by simp
  then obtain env d st ws where v: "vs = (env, d, st) # ws"
    and ws: "cn_dials (conn_after ?g (fst (conn_step env ?g d ?c st)) ws) \<noteq> []"
    and live: "ended (cn_phase (fst (conn_step env ?g d ?c st))) \<longrightarrow> cn_dials (fst (conn_step env ?g d ?c st)) \<noteq> []"
    using undialled_view by (metis new_conn_simps(2))
  have ok: "is_allowed (sv_acl st) (client_ip_from_peer peer)"
    using live by (auto simp: conn_step_def split: if_splits)
  then have step: "fst (conn_step env ?g d ?c st) = to_phase (Peeking client) ?c" by (simp add: conn_step_def)
  let ?c1 = "to_phase (Peeking client) ?c"
  obtain env1 d1 st1 ws1 where v1: "ws = (env1, d1, st1) # ws1"
    and ws1: "cn_dials (conn_after ?g (fst (conn_step env1 ?g d1 ?c1 st1)) ws1) \<noteq> []"
    and live1: "ended (cn_phase (fst (conn_step env1 ?g d1 ?c1 st1))) \<longrightarrow> cn_dials (fst (conn_step env1 ?g d1 ?c1 st1)) \<noteq> []"
    using undialled_view [OF ws [unfolded step]] by (metis conn_phase_simps(2) new_conn_simps(2))
  obtain hostname port flight overflow client' where
    x: "extract_peeked proto client lport = Got ((hostname, port, flight, overflow), client')"
    using live1 by (auto simp: conn_step_def peek_client_def split: outcome.splits)
  let ?pk = "\<lparr>pk_host = hostname, pk_port = port, pk_flight = flight, pk_overflow = overflow, pk_client = client'\<rparr>"
  let ?c2 = "fst (conn_step env1 ?g d1 ?c1 st1)"
  have "cn_dials ?c2 = []" "cn_phase ?c2 = Limiting ?pk" "tl_client_ip (cn_labels ?c2) = client_ip_from_peer peer"
    "cn_lport ?c2 = lport"
    using x by (simp_all add: conn_step_def peek_client_def set_domain_def)
  with limiting_dials [OF ws1] show ?thesis
    unfolding ds v v1 using ok x step by (auto simp: numeral_eq_Suc)
qed

text \<open>Once past the client list a connection is not turned away by it any more.\<close>

fun past_acl :: "phase \<Rightarrow> bool" where
  "past_acl (Checking _) = False"
| "past_acl (Ended (Rejected r) _) = (r \<noteq> ''acl_deny'')"
| "past_acl _ = True"

lemma past_acl_step:
  assumes "past_acl (cn_phase c)"
  shows "past_acl (cn_phase (fst (conn_step env guard d c st)))"
proof -
  have "show_limit_reason r \<noteq> ''acl_deny''" for r by (cases r) simp_all
  with assms show ?thesis
    by (cases "cn_phase c")
      (auto simp: conn_defs Let_def split: move_splits)
qed

lemma past_acl_after: "past_acl (cn_phase c) \<Longrightarrow> past_acl (cn_phase (conn_after guard c vs))"
proof (induction vs arbitrary: c)
  case (Cons v vs)
  then show ?case using past_acl_step by (cases v) simp
qed simp

lemma new_conn_acl:
  assumes "vs \<noteq> []"
  shows "cn_phase (conn_after guard (new_conn proto lport peer client) vs) = Ended (Rejected ''acl_deny'') None
    \<longleftrightarrow> \<not> is_allowed (sv_acl (seen vs 0)) (client_ip_from_peer peer)"
proof -
  obtain env d st ws where vs: "vs = (env, d, st) # ws" using assms by (metis list.exhaust prod_cases3)
  let ?c = "new_conn proto lport peer client"
  let ?d = "fst (conn_step env guard d ?c st)"
  show ?thesis
  proof (cases "is_allowed (sv_acl st) (client_ip_from_peer peer)")
    case True
    then have "past_acl (cn_phase ?d)" by (simp add: conn_step_def)
    from past_acl_after [OF this, of guard ws] True vs show ?thesis by auto
  next
    case False
    then have "cn_phase ?d = Ended (Rejected ''acl_deny'') None" by (simp add: conn_step_def)
    then show ?thesis using conn_after_ended [of ?d guard ws] False vs by simp
  qed
qed

section \<open>Bytes\<close>

text \<open>The session of a connection, open or over.\<close>

fun session_of :: "phase \<Rightarrow> splice option" where
  "session_of (Copying _ sp) = Some sp"
| "session_of (Ended _ sp) = sp"
| "session_of _ = None"

text \<open>
  What a phase keeps of the client's byte stream \<open>b\<close>: before a session the peeked bytes and what is still to be
  read make up all of it; in a session the chunks written to the upstream are a prefix of it. \<open>U\<close> holds the
  upstream sockets that connection attempts returned.
\<close>

definition whole :: "bytes \<Rightarrow> peek \<Rightarrow> bool" where
  "whole b pk \<longleftrightarrow> pk_flight pk @ pk_overflow pk @ incoming (pk_client pk) = b"

definition forwarded :: "sock set \<Rightarrow> bytes \<Rightarrow> splice \<Rightarrow> bool" where
  "forwarded U b sp \<longleftrightarrow> (\<exists>u \<in> U. \<exists>w lost. sk_out (sp_upstream sp) = sk_out u @ w
     \<and> b = concat w @ lost @ incoming (sp_client sp) \<and> (lost \<noteq> [] \<longrightarrow> sp_c2u_done sp))"

fun carries :: "sock set \<Rightarrow> bytes \<Rightarrow> phase \<Rightarrow> bool" where
  "carries U b (Checking client) = (incoming client = b)"
| "carries U b (Peeking client) = (incoming client = b)"
| "carries U b (Limiting pk) = whole b pk"
| "carries U b (Resolving pk) = whole b pk"
| "carries U b (Guarding pk _ _) = whole b pk"
| "carries U b (Selecting pk _ _) = whole b pk"
| "carries U b (Dialling pk _ _ _ _) = whole b pk"
| "carries U b (Opening pk u) = (whole b pk \<and> u \<in> U)"
| "carries U b (Replaying pk u) = (whole b pk \<and> u \<in> U)"
| "carries U b (Copying _ sp) = forwarded U b sp"
| "carries U b (Ended _ sp) = (case sp of None \<Rightarrow> True | Some sp \<Rightarrow> forwarded U b sp)"

definition reached :: "surroundings \<Rightarrow> sock set" where
  "reached env = {u. \<exists>proxy host port. connect (env_dial env) proxy host port = Got u}"

lemma moved_turn: "moved d' sp (turn h d now sp)"
  using moved_turn_same moved_turn_other by (cases "d = d'") metis+

lemma forwarded_turn: "forwarded U b sp \<Longrightarrow> forwarded U b (turn h d now (sp\<lparr>sp_limiter := lm\<rparr>))"
proof -
  assume "forwarded U b sp"
  then obtain u w lost where u: "u \<in> U" "sk_out (sp_upstream sp) = sk_out u @ w"
    "b = concat w @ lost @ incoming (sp_client sp)" "lost \<noteq> [] \<longrightarrow> sp_c2u_done sp"
    by (auto simp: forwarded_def)
  have "moved C2U (sp\<lparr>sp_limiter := lm\<rparr>) (turn h d now (sp\<lparr>sp_limiter := lm\<rparr>))"
    by (rule moved_turn)
  then obtain bu l where m: "sk_out (sp_upstream (turn h d now (sp\<lparr>sp_limiter := lm\<rparr>))) = sk_out (sp_upstream sp) @ bu"
    "incoming (sp_client sp) = concat bu @ l @ incoming (sp_client (turn h d now (sp\<lparr>sp_limiter := lm\<rparr>)))"
    "l \<noteq> [] \<longrightarrow> sp_c2u_done (turn h d now (sp\<lparr>sp_limiter := lm\<rparr>))"
    "sp_c2u_done sp \<longrightarrow> sp_c2u_done (turn h d now (sp\<lparr>sp_limiter := lm\<rparr>)) \<and> bu = [] \<and> l = []"
    by (auto simp: moved_def)
  have "b = concat (w @ bu) @ (lost @ l) @ incoming (sp_client (turn h d now (sp\<lparr>sp_limiter := lm\<rparr>)))"
    using u(3,4) m(2,4) by (cases "lost = []") auto
  moreover have "lost @ l \<noteq> [] \<longrightarrow> sp_c2u_done (turn h d now (sp\<lparr>sp_limiter := lm\<rparr>))" using u(4) m(3,4) by auto
  ultimately show ?thesis
    unfolding forwarded_def using u(1,2) m(1) by (intro bexI [of _ u] exI [of _ "w @ bu"] exI [of _ "lost @ l"]) simp_all
qed

lemma forwarded_start:
  assumes "whole b pk" and "u \<in> U" and "replay (pk_flight pk) (pk_overflow pk) u = Got up"
  shows "forwarded U b (splice_start (pk_client pk) up lm)"
proof -
  from replay_writes [OF assms(3)] obtain w where "sk_out up = sk_out u @ w" "concat w = pk_flight pk @ pk_overflow pk"
    by blast
  with assms(1,2) show ?thesis
    unfolding forwarded_def by (intro bexI [of _ u] exI [of _ w] exI [of _ "[]"]) (auto simp: whole_def splice_start_def)
qed

lemma carries_step:
  assumes "cn_proto c = ''tls''" and "carries U b (cn_phase c)" and "reached env \<subseteq> U"
  shows "carries U b (cn_phase (fst (conn_step env guard d c st))) \<and> cn_proto (fst (conn_step env guard d c st)) = ''tls''"
proof (cases "cn_phase c")
  case (Peeking client)
  then show ?thesis
    using assms(1,2) extract_tls_loop_safe [where buf = "[]" and s = client and listen_port = "cn_lport c"]
    by (auto simp: conn_step_def peek_client_def extract_peeked_def extract_tls_info_def whole_def split: outcome.splits)
next
  case (Replaying pk u)
  then show ?thesis
    using assms(1,2) forwarded_start by (auto simp: conn_step_def split: outcome.splits)
next
  case (Copying h sp)
  then show ?thesis
    using assms(1,2) forwarded_turn by (auto simp: conn_step_def copy_turn_def Let_def split: option.splits)
next
  case (Dialling pk host port le cs)
  then show ?thesis
    using assms by (auto simp: conn_step_def dial_next_def reached_def Let_def split: outcome.splits list.splits)
qed (use assms in \<open>auto simp: conn_step_def split: prod.splits sum.splits destination_outcome.splits\<close>)

lemma carries_after:
  assumes "cn_proto c = ''tls''" and "carries U b (cn_phase c)" and "list_all (\<lambda>v. reached (fst v) \<subseteq> U) vs"
  shows "carries U b (cn_phase (conn_after guard c vs))"
  using assms
proof (induction vs arbitrary: c)
  case (Cons v vs)
  obtain env d st where v: "v = (env, d, st)" by (metis prod_cases3)
  then show ?case using carries_step [OF Cons.prems(1,2), of env guard d st] Cons by simp
qed simp

section \<open>A session ends\<close>

definition moves :: "direction \<Rightarrow> view list \<Rightarrow> nat" where
  "moves d vs = length (filter (\<lambda>(_, d', _). d' = d) vs)"

lemma flow_limiter [simp]: "flow d (sp\<lparr>sp_limiter := lm\<rparr>) = flow d sp"
  by (cases d) simp_all

lemma splice_result_finished: "splice_result sp \<noteq> None \<longleftrightarrow> finished C2U sp \<and> finished U2C sp"
  by (simp add: splice_result_def finished_def)

fun completed :: "phase \<Rightarrow> bool" where
  "completed (Ended (Completed _ _) (Some _)) = True"
| "completed _ = False"

text \<open>Either the session is over, or every move of a direction has consumed some of its pending bytes or ended it.\<close>

lemma copying_progress:
  assumes "cn_phase c = Copying h sp" and "\<And>d. sk_end (fst (flow d sp)) \<noteq> Silent"
  shows "completed (cn_phase (conn_after guard c vs)) \<or>
    (\<exists>sp'. cn_phase (conn_after guard c vs) = Copying h sp' \<and> (\<forall>d. finished d sp \<longrightarrow> finished d sp')
       \<and> (\<forall>d. finished d sp' \<or> moves d vs + length (pending d sp') \<le> length (pending d sp)))"
  using assms
proof (induction vs arbitrary: c sp)
  case (Cons v vs)
  obtain env d st where v: "v = (env, d, st)" by (metis prod_cases3)
  let ?c = "fst (conn_step env guard d c st)"
  show ?case
  proof (cases "splice_result sp")
    case None
    let ?sp0 = "sp\<lparr>sp_limiter := sv_limiter st\<rparr>"
    define sp1 where "sp1 = turn h d (env_now env) ?sp0"
    have c: "cn_phase ?c = Copying h sp1" using None Cons.prems by (simp add: conn_step_def copy_turn_def Let_def sp1_def)
    have m: "moved d' ?sp0 sp1" for d' unfolding sp1_def by (rule moved_turn)
    note mp = moved_pending [OF m, unfolded pending_def finished_def flow_limiter, folded pending_def finished_def]
    have ends: "sk_end (fst (flow d' sp1)) \<noteq> Silent" for d' using mp(3) [of d'] Cons.prems(2) by simp
    have pr: "finished d sp1 \<or> length (pending d sp1) < length (pending d sp)"
      using turn_progress [of d ?sp0 h "env_now env"] Cons.prems(2) [of d] by (simp add: sp1_def pending_def)
    have "finished d' sp' \<or> moves d' (v # vs) + length (pending d' sp') \<le> length (pending d' sp)"
      if "\<forall>d. finished d sp1 \<longrightarrow> finished d sp'"
        "\<forall>d. finished d sp' \<or> moves d vs + length (pending d sp') \<le> length (pending d sp1)" for d' sp'
      using that(1) [rule_format, of d'] that(2) [rule_format, of d'] pr mp(1) [of d']
      by (cases "d' = d") (auto simp: moves_def v)
    then show ?thesis using Cons.IH [OF c ends] mp(2) by (simp add: v) blast
  next
    case (Some t)
    then have "completed (cn_phase ?c)" "ended (cn_phase ?c)"
      using Cons.prems by (cases t; simp add: conn_step_def copy_turn_def Let_def)+
    then show ?thesis using v conn_after_ended by simp
  qed
qed (auto simp: moves_def)

section \<open>A connection that runs alone\<close>

text \<open>Moves of one connection without any other event; time passes between them.\<close>

inductive alone :: "surroundings \<Rightarrow> self_loop_guard \<Rightarrow> conn \<times> service_state \<Rightarrow> conn \<times> service_state \<Rightarrow> bool"
  for env guard where
  alone_refl: "alone env guard x x"
| alone_move: "alone env guard x (c, st) \<Longrightarrow> alone env guard x (conn_step (env\<lparr>env_now := now\<rparr>) guard d c st)"

text \<open>The outcome of a connection in the terms of \<open>handle_connection\<close>.\<close>

definition outcome_of :: "conn \<times> service_state \<Rightarrow> handler_result" where
  "outcome_of x = (case x of (c, st) \<Rightarrow>
     \<lparr>hr_state = st, hr_dials = cn_dials c, hr_session = session_of (cn_phase c),
      hr_end = (case cn_phase c of Ended e _ \<Rightarrow> e | _ \<Rightarrow> Waiting)\<rparr>)"

definition comes_to :: "surroundings \<Rightarrow> self_loop_guard \<Rightarrow> conn \<Rightarrow> service_state \<Rightarrow> handler_result \<Rightarrow> bool" where
  "comes_to env guard c st r \<longleftrightarrow> (\<exists>y. alone env guard (c, st) y \<and> outcome_of y = r)"

lemma alone_trans: "alone env guard y z \<Longrightarrow> alone env guard x y \<Longrightarrow> alone env guard x z"
  by (induction rule: alone.induct) (auto intro: alone.intros)

lemma comes_to_now: "outcome_of (c, st) = r \<Longrightarrow> comes_to env guard c st r"
  unfolding comes_to_def by (auto intro: alone_refl)

lemma comes_to_move:
  assumes "conn_step (env\<lparr>env_now := now\<rparr>) guard d c st = (c', st')" and "comes_to env guard c' st' r"
  shows "comes_to env guard c st r"
proof -
  obtain y where y: "alone env guard (c', st') y" "outcome_of y = r" using assms(2) by (auto simp: comes_to_def)
  have "alone env guard (c, st) (c', st')" unfolding assms(1) [symmetric] by (intro alone_move alone_refl)
  then have "alone env guard (c, st) y" by (rule alone_trans [OF y(1)])
  with y(2) show ?thesis unfolding comes_to_def by blast
qed

lemma comes_to_step:
  assumes "conn_step env guard C2U c st = (c', st')" and "comes_to env guard c' st' r"
  shows "comes_to env guard c st r"
  by (rule comes_to_move [where now = "env_now env" and d = C2U]) (use assms in simp_all)

lemma comes_to_last: "outcome_of (conn_step env guard C2U c st) = r \<Longrightarrow> comes_to env guard c st r"
  using comes_to_step [OF _ comes_to_now] by (metis surj_pair)

lemma turn_done: "splice_result sp \<noteq> None \<Longrightarrow> turn h d now sp = sp"
  by (cases d) (auto simp: splice_result_def split: if_splits)

definition session_outcome :: "conn \<Rightarrow> splice \<Rightarrow> service_state \<Rightarrow> handler_result" where
  "session_outcome c sp st =
     (let st = st\<lparr>sv_limiter := sp_limiter sp\<rparr>
      in case splice_result sp of
           None \<Rightarrow> (waiting (cn_dials c) st)\<lparr>hr_session := Some sp\<rparr>
         | Some (c2u, u2c) \<Rightarrow>
             (let st = on_metrics (connection_closed (cn_labels c) c2u u2c) st;
                  st = st\<lparr>sv_traffic := record_traffic (tl_client_ip (cn_labels c)) (tl_domain (cn_labels c))
                    c2u u2c (sv_traffic st)\<rparr>
              in \<lparr>hr_state = st, hr_dials = cn_dials c, hr_session = Some sp, hr_end = Completed c2u u2c\<rparr>))"

lemma session_outcome_frame [simp]:
  "session_outcome (to_phase p c) sp (st\<lparr>sv_limiter := l\<rparr>) = session_outcome c sp st"
  by (simp add: session_outcome_def Let_def split: option.split)

lemma copying_alone:
  assumes "cn_phase c = Copying h sp" and "sp_limiter sp = sv_limiter st"
  shows "comes_to env guard c st (session_outcome c (run_splice h ts sp) st)"
  using assms
proof (induction ts arbitrary: c sp st)
  case Nil
  have st: "st\<lparr>sv_limiter := sp_limiter sp\<rparr> = st" using Nil by simp
  show ?case
  proof (cases "splice_result sp")
    case None
    then show ?thesis using Nil st
      by (intro comes_to_now) (simp add: outcome_of_def session_outcome_def waiting_def)
  next
    case (Some t)
    obtain a b where t: "t = (a, b)" by (cases t)
    show ?thesis
      by (rule comes_to_last)
        (use Nil Some st t in \<open>simp_all add: conn_step_def copy_turn_def Let_def outcome_of_def session_outcome_def\<close>)
  qed
next
  case (Cons t ts)
  obtain d now where t: "t = (d, now)" by (cases t)
  show ?case
  proof (cases "splice_result sp")
    case None
    let ?sp = "turn h d now sp"
    let ?c = "to_phase (Copying h ?sp) c"
    let ?st = "st\<lparr>sv_limiter := sp_limiter ?sp\<rparr>"
    have "sp\<lparr>sp_limiter := sv_limiter st\<rparr> = sp" using Cons.prems(2) [symmetric] by simp
    then have "conn_step (env\<lparr>env_now := now\<rparr>) guard d c st = (?c, ?st)"
      using None Cons.prems(1) by (simp add: conn_step_def copy_turn_def Let_def del: turn.simps)
    then show ?thesis
      by (rule comes_to_move)
        (use Cons.IH [of ?c ?sp ?st] in \<open>simp add: t del: turn.simps\<close>)
  next
    case (Some x)
    then show ?thesis using Cons.IH [OF Cons.prems] turn_done [of sp h d now] by (simp add: t del: turn.simps)
  qed
qed

lemma opening_alone:
  assumes "cn_phase c = Opening pk upstream"
  shows "comes_to env guard c st
    (relay_session env (cn_labels c) (pk_host pk) (pk_flight pk) (pk_overflow pk) (pk_client pk) upstream (cn_dials c) st)"
proof -
  let ?st = "on_metrics (connection_opened (cn_labels c)) st"
  let ?c = "to_phase (Replaying pk upstream) c"
  have opened: "conn_step env guard C2U c st = (?c, ?st)" using assms by (simp add: conn_step_def)
  show ?thesis
  proof (rule comes_to_step [OF opened], cases "replay (pk_flight pk) (pk_overflow pk) upstream")
    case (Got up)
    let ?sp = "splice_start (pk_client pk) up (sv_limiter ?st)"
    let ?c2 = "to_phase (Copying (pk_host pk) ?sp) ?c"
    have "conn_step env guard C2U ?c ?st = (?c2, ?st)" using Got by (simp add: conn_step_def)
    moreover have "comes_to env guard ?c2 ?st (session_outcome ?c2 (run_splice (pk_host pk) (env_turns env) ?sp) ?st)"
      by (rule copying_alone) (simp_all add: splice_start_def)
    moreover have "session_outcome ?c2 (run_splice (pk_host pk) (env_turns env) ?sp) ?st =
        relay_session env (cn_labels c) (pk_host pk) (pk_flight pk) (pk_overflow pk) (pk_client pk) upstream (cn_dials c) st"
      using Got by (simp add: relay_session_def session_outcome_def Let_def split: option.split)
    ultimately show "comes_to env guard ?c ?st (relay_session env (cn_labels c) (pk_host pk) (pk_flight pk)
        (pk_overflow pk) (pk_client pk) upstream (cn_dials c) st)"
      using comes_to_step by metis
  next
    case (Err e)
    then show "comes_to env guard ?c ?st (relay_session env (cn_labels c) (pk_host pk) (pk_flight pk)
        (pk_overflow pk) (pk_client pk) upstream (cn_dials c) st)"
      by (intro comes_to_last)
        (simp_all add: conn_step_def stop_failed_def outcome_of_def relay_session_def fail_def Let_def)
  qed (simp add: replay_returns)
qed

definition dial_outcome ::
    "surroundings \<Rightarrow> peek \<Rightarrow> conn \<Rightarrow> service_state
     \<Rightarrow> dial_attempt list \<times> (conn_error option, string \<times> upstream_proxy \<times> sock) outcome \<Rightarrow> handler_result" where
  "dial_outcome env pk c st r =
     (case r of
        (dials, Err last_err) \<Rightarrow> fail (cn_labels c) False (cn_dials c @ dials) (UpstreamFailed last_err) st
      | (dials, Hang) \<Rightarrow> waiting (cn_dials c @ dials) st
      | (dials, Got (_, _, upstream)) \<Rightarrow>
          relay_session env (cn_labels c) (pk_host pk) (pk_flight pk) (pk_overflow pk) (pk_client pk) upstream
            (cn_dials c @ dials) st)"

lemma dialling_alone:
  assumes "cn_phase c = Dialling pk host port last_err cs"
  shows "comes_to env guard c st (dial_outcome env pk c st (try_candidates (env_dial env) host port last_err cs))"
  using assms
proof (induction cs arbitrary: c last_err)
  case Nil
  then show ?case
    by (intro comes_to_last)
      (simp_all add: conn_step_def dial_next_def stop_failed_def outcome_of_def dial_outcome_def fail_def)
next
  case (Cons x cs)
  obtain name proxy where x: "x = (name, proxy)" by (cases x)
  let ?c = "c\<lparr>cn_dials := cn_dials c @ [(name, host, port)]\<rparr>"
  show ?case
  proof (cases "connect (env_dial env) proxy host port")
    case (Got u)
    have "conn_step env guard C2U c st = (to_phase (Opening pk u) ?c, st)"
      using Got Cons.prems x by (simp add: conn_step_def dial_next_def Let_def)
    then show ?thesis
      by (rule comes_to_step) (use opening_alone [of "to_phase (Opening pk u) ?c" pk u] Got x in \<open>simp add: dial_outcome_def\<close>)
  next
    case (Err e)
    have "conn_step env guard C2U c st = (to_phase (Dialling pk host port (Some e) cs) ?c, st)"
      using Err Cons.prems x by (simp add: conn_step_def dial_next_def Let_def)
    then show ?thesis
      by (rule comes_to_step)
        (use Cons.IH [of "to_phase (Dialling pk host port (Some e) cs) ?c" "Some e"] Err x
          in \<open>simp add: dial_outcome_def split: prod.splits outcome.splits\<close>)
  next
    case Hang
    then show ?thesis
      using Cons.prems x by (intro comes_to_last)
        (simp_all add: conn_step_def dial_next_def outcome_of_def dial_outcome_def waiting_def Let_def)
  qed
qed

lemma resolving_alone:
  assumes "cn_phase c = Resolving pk" and "cn_dials c = []"
  shows "comes_to env guard c st (route_connection env guard (cn_lport c) (tl_client_ip (cn_labels c)) (cn_labels c)
    (pk_host pk) (pk_port pk) (pk_flight pk) (pk_overflow pk) (pk_client pk) st)" (is "comes_to _ _ _ _ ?r")
proof (cases "resolve_destination (env_rx env) (pk_host pk) (pk_port pk) (cn_lport c) (sv_hosts st)")
  case Unlisted
  then show ?thesis
    using assms by (intro comes_to_last) (simp add: conn_step_def stop_rejected_def outcome_of_def route_connection_def reject_def)
next
  case (DestOk host port mapped)
  let ?c = "to_phase (Guarding pk host port) c"
  have g: "conn_step env guard C2U c st = (?c, st)" using DestOk assms by (simp add: conn_step_def)
  show ?thesis
  proof (rule comes_to_step [OF g], cases "would_loop (env_lookup env) guard host port")
    case True
    then show "comes_to env guard ?c st ?r"
      using assms DestOk by (intro comes_to_last)
        (simp add: conn_step_def stop_rejected_def outcome_of_def route_connection_def reject_def)
  next
    case False
    define c2 where "c2 = ?c\<lparr>cn_labels := set_upstream host (cn_labels c), cn_phase := Selecting pk host port\<rparr>"
    have c2: "cn_phase c2 = Selecting pk host port" "cn_dials c2 = []" "cn_labels c2 = set_upstream host (cn_labels c)"
      using assms(2) by (simp_all add: c2_def)
    have ip: "tl_client_ip (set_upstream host (cn_labels c)) = tl_client_ip (cn_labels c)" by (simp add: set_upstream_def)
    have s: "conn_step env guard C2U ?c st = (c2, st)" using False by (simp add: conn_step_def c2_def)
    show "comes_to env guard ?c st ?r"
    proof (rule comes_to_step [OF s], cases "connect_candidates (sv_registry st) (tl_client_ip (cn_labels c))")
      case (Inl e)
      then show "comes_to env guard c2 st ?r"
        using c2 ip DestOk False by (intro comes_to_last)
          (simp add: conn_step_def stop_failed_def outcome_of_def route_connection_def fail_def Let_def)
    next
      case (Inr cs)
      let ?c3 = "to_phase (Dialling pk host port None cs) c2"
      have d: "conn_step env guard C2U c2 st = (?c3, st)" using Inr c2 ip by (simp add: conn_step_def)
      have "dial_outcome env pk ?c3 st (try_candidates (env_dial env) host port None cs) = ?r"
        using c2 DestOk False Inr
        by (simp add: dial_outcome_def route_connection_def Let_def split: prod.split outcome.split)
      then show "comes_to env guard c2 st ?r"
        using comes_to_step [OF d] dialling_alone [of ?c3 pk host port None cs env guard st] by simp
    qed
  qed
qed


end
