(* ===== verification/Relay_Limits.thy ===== *)
theory Relay_Limits
  imports Relay_Config
begin

text \<open>
  The process limits of \<open>src/limits.rs\<close>. The resource limit of the process is a state the
  functions pass on; which system calls fail is an argument. The theorems bound the number of
  sessions by the descriptors the process has.
\<close>

record rlimit =
  rlim_cur :: u64
  rlim_max :: u64

definition RLIM_INFINITY :: u64 where
  "RLIM_INFINITY = - 1"

record rlimit_faults =
  first_get_fails :: bool
  set_fails :: bool
  second_get_fails :: bool
  current_get_fails :: bool

record process_limits =
  soft_nofile :: u64
  pl_max_connections :: u64

definition FD_RESERVE :: u64 where
  "FD_RESERVE = 128"

definition effective_connection_limit :: "u64 \<Rightarrow> u64 \<Rightarrow> u64 \<Rightarrow> u64" where
  "effective_connection_limit soft configured_max reserve_fds =
     (let fds_for_conns = u64_saturating_sub soft reserve_fds;
          by_fds = fds_for_conns div 2
      in min configured_max (max by_fds 1))"

definition current_nofile_soft :: "rlimit_faults \<Rightarrow> rlimit \<Rightarrow> u64 option" where
  "current_nofile_soft f lim = (if current_get_fails f then None else Some (rlim_cur lim))"

definition rlim_is_infinity :: "u64 \<Rightarrow> bool" where
  "rlim_is_infinity v \<longleftrightarrow> v = RLIM_INFINITY"

text \<open>The limit after the call, and the soft limit it reports.\<close>

definition raise_nofile_limit :: "rlimit_faults \<Rightarrow> rlimit \<Rightarrow> u64 \<Rightarrow> rlimit \<times> u64 option" where
  "raise_nofile_limit f lim target =
     (if first_get_fails f then (lim, None)
      else if rlim_cur lim \<ge> target then (lim, Some (rlim_cur lim))
      else
        (let want_soft = (if rlim_is_infinity (rlim_max lim) then target else min target (rlim_max lim))
         in if want_soft = rlim_cur lim then (lim, Some (rlim_cur lim))
            else if set_fails f then (lim, None)
            else
              (let lim = lim\<lparr>rlim_cur := want_soft\<rparr>
               in (lim, if second_get_fails f then None else Some (rlim_cur lim)))))"

definition apply_limits :: "rlimit_faults \<Rightarrow> rlimit \<Rightarrow> app_config \<Rightarrow> rlimit \<times> process_limits option" where
  "apply_limits f lim cfg =
     (let (lim, soft) =
        (if nofile_limit cfg > 0 then
           (case raise_nofile_limit f lim (nofile_limit cfg) of
              (lim, Some s) \<Rightarrow> (lim, Some s)
            | (lim, None) \<Rightarrow> (lim, current_nofile_soft f lim))
         else (lim, current_nofile_soft f lim))
      in (lim, map_option (\<lambda>soft. \<lparr>soft_nofile = soft,
            pl_max_connections = effective_connection_limit soft (max_connections cfg) FD_RESERVE\<rparr>) soft))"

section \<open>The descriptor budget\<close>

lemma unat_min_u64: "unat (min a b :: u64) = min (unat a) (unat b)"
  by (simp add: min_def word_le_nat_alt)

lemma unat_max_u64: "unat (max a b :: u64) = max (unat a) (unat b)"
  by (simp add: max_def word_le_nat_alt)

lemma unat_effective_connection_limit:
  "unat (effective_connection_limit soft configured_max reserve)
     = min (unat configured_max) (max ((unat soft - unat reserve) div 2) 1)"
  by (simp add: effective_connection_limit_def Let_def unat_min_u64 unat_max_u64 unat_div
    unat_saturating_sub)

definition rlimit_ok :: "rlimit \<Rightarrow> bool" where
  "rlimit_ok lim \<longleftrightarrow> rlim_cur lim \<le> rlim_max lim"

lemma raise_keeps:
  assumes "raise_nofile_limit f lim target = (lim', r)" and "rlimit_ok lim"
  shows "rlimit_ok lim' \<and> rlim_max lim' = rlim_max lim \<and> rlim_cur lim \<le> rlim_cur lim'
    \<and> (r = Some s \<longrightarrow> s = rlim_cur lim')"
proof -
  have "target \<le> rlim_max lim" if "rlim_is_infinity (rlim_max lim)"
    using that by (simp add: rlim_is_infinity_def RLIM_INFINITY_def)
  with assms show ?thesis
    by (auto simp: raise_nofile_limit_def rlimit_ok_def Let_def min_def split: if_splits)
qed

text \<open>the start-up never lowers the soft limit, never touches the hard limit and never exceeds
  it; if it reports limits, the soft limit is the one in force, and the session cap is the
  configured one or, if less, half of the descriptors beyond the reserve, but at least one. Two
  descriptors per session and the reserve then fit into the soft limit unless the cap is one.\<close>

theorem process_limits_fit:
  assumes "apply_limits f lim cfg = (lim', r)" and "rlimit_ok lim"
  shows "rlimit_ok lim' \<and> rlim_max lim' = rlim_max lim \<and> rlim_cur lim \<le> rlim_cur lim'
    \<and> (case r of
         None \<Rightarrow> current_get_fails f
       | Some pl \<Rightarrow> soft_nofile pl = rlim_cur lim'
           \<and> pl_max_connections pl \<le> max_connections cfg
           \<and> (2 * unat (pl_max_connections pl) + 128 \<le> unat (rlim_cur lim')
              \<or> unat (pl_max_connections pl) \<le> 1))"
proof -
  obtain lim1 s1 where r1: "raise_nofile_limit f lim (nofile_limit cfg) = (lim1, s1)" by fastforce
  let ?lim = "if nofile_limit cfg > 0 then lim1 else lim"
  let ?soft = "if nofile_limit cfg > 0 \<and> s1 \<noteq> None then s1 else current_nofile_soft f ?lim"
  from assms(1) r1 have e: "lim' = ?lim"
    "r = map_option (\<lambda>soft. \<lparr>soft_nofile = soft,
       pl_max_connections = effective_connection_limit soft (max_connections cfg) FD_RESERVE\<rparr>) ?soft"
    by (auto simp: apply_limits_def Let_def split: if_splits option.splits)
  have k: "rlimit_ok lim' \<and> rlim_max lim' = rlim_max lim \<and> rlim_cur lim \<le> rlim_cur lim'"
    using raise_keeps [OF r1 assms(2)] assms(2) e(1) by auto
  have s: "?soft = Some s \<Longrightarrow> s = rlim_cur lim'" for s
    using raise_keeps [OF r1 assms(2)] e(1)
    by (auto simp: current_nofile_soft_def split: if_splits)
  show ?thesis
  proof (cases ?soft)
    case None
    then have "current_get_fails f" by (auto simp: current_nofile_soft_def split: if_splits)
    with None k e(2) show ?thesis by simp
  next
    case (Some soft)
    let ?n = "effective_connection_limit soft (max_connections cfg) FD_RESERVE"
    have n: "unat ?n = min (unat (max_connections cfg)) (max ((unat soft - 128) div 2) 1)"
      by (simp add: unat_effective_connection_limit FD_RESERVE_def)
    then have "?n \<le> max_connections cfg" by (simp add: word_le_nat_alt)
    moreover from n have "2 * unat ?n + 128 \<le> unat soft \<or> unat ?n \<le> 1" by linarith
    ultimately show ?thesis using Some k e(2) s [OF Some] by simp
  qed
qed

theorem process_limits_fit_witness:
  "apply_limits \<lparr>first_get_fails = False, set_fails = False, second_get_fails = False,
       current_get_fails = False\<rparr> \<lparr>rlim_cur = 256, rlim_max = 1024\<rparr>
       (default_app_config\<lparr>nofile_limit := 4096, max_connections := 65535\<rparr>)
     = (\<lparr>rlim_cur = 1024, rlim_max = 1024\<rparr>, Some \<lparr>soft_nofile = 1024, pl_max_connections = 448\<rparr>)
   \<and> 2 * 448 + 128 \<le> (1024 :: nat)"
proof -
  have e: "apply_limits \<lparr>first_get_fails = False, set_fails = False, second_get_fails = False,
       current_get_fails = False\<rparr> \<lparr>rlim_cur = 256, rlim_max = 1024\<rparr>
       (default_app_config\<lparr>nofile_limit := 4096, max_connections := 65535\<rparr>)
     = (\<lparr>rlim_cur = 1024, rlim_max = 1024\<rparr>, Some \<lparr>soft_nofile = 1024, pl_max_connections = 448\<rparr>)"
    by code_simp
  from process_limits_fit [OF e] e show ?thesis by (simp add: rlimit_ok_def)
qed

end
