(* ===== verification/Relay_Host.thy ===== *)
theory Relay_Host
  imports Relay_Prelude
begin

text \<open>
  The host as the panel sees it: paths with the component semantics of \<open>std::path\<close>, a directory
  tree that is read and written file by file, and a runner of external commands. What a command
  does, which files exist and which of them may be written are parameters; the components that use
  them (\<open>panel/dnsmasq_store.rs\<close>, \<open>ufw.rs\<close>) are modelled over this interface.
\<close>

section \<open>Paths\<close>

text \<open>
  A path is compared by its components: repeated and trailing slashes and inner \<open>.\<close> components do
  not count, a leading \<open>.\<close> of a relative path does.
\<close>

datatype path = Path (path_absolute: bool) (path_components: "string list")

definition path_from :: "string \<Rightarrow> path" where
  "path_from s =
     (let cs = split_pred (\<lambda>c. c = CHR ''/'') [] s;
          keep = filter (\<lambda>c. c \<noteq> [] \<and> c \<noteq> ''.'')
      in if starts_with s ''/'' then Path True (keep cs)
         else if cs \<noteq> [] \<and> hd cs = ''.'' then Path False (''.'' # keep (tl cs))
         else Path False (keep cs))"

definition path_parent :: "path \<Rightarrow> path option" where
  "path_parent p =
     (if path_components p = [] then None
      else Some (Path (path_absolute p) (butlast (path_components p))))"

definition file_name :: "path \<Rightarrow> string option" where
  "file_name p =
     (if path_components p = [] \<or> last (path_components p) \<in> {''.'', ''..''} then None
      else Some (last (path_components p)))"

text \<open>\<open>extension\<close> is what follows the last dot, unless nothing precedes that dot.\<close>

definition path_extension :: "path \<Rightarrow> string option" where
  "path_extension p =
     (case file_name p of
        None \<Rightarrow> None
      | Some name \<Rightarrow>
          (case rsplit_once (CHR ''.'') name of
             None \<Rightarrow> None
           | Some (before, after) \<Rightarrow> if before = [] then None else Some after))"

definition path_join :: "path \<Rightarrow> string \<Rightarrow> path" where
  "path_join p s =
     (case path_from s of
        Path a cs \<Rightarrow> if a then Path a cs else Path (path_absolute p) (path_components p @ cs))"

section \<open>Text files\<close>

definition trimmed_lines :: "string \<Rightarrow> string list" where
  "trimmed_lines text = map trim (lines text)"

lemma foldl_append_concat: "foldl (\<lambda>out x. out @ f x) acc xs = acc @ concat (map f xs)"
  by (induction xs arbitrary: acc) auto

lemma foldl_append_if:
  "foldl (\<lambda>out x. if P x then out else out @ f x) acc xs = acc @ concat (map f (filter (\<lambda>x. \<not> P x) xs))"
  by (induction xs arbitrary: acc) auto

lemma unlines_simps [simp]:
  "unlines [] = []" "unlines (l # ls) = l @ CHR 0x0A # unlines ls" "unlines (ls @ ls') = unlines ls @ unlines ls'"
  by (simp_all add: unlines_def)

lemma ball_dropWhile: "(\<forall>x\<in>set (dropWhile P xs). P x) \<longleftrightarrow> (\<forall>x\<in>set xs. P x)"
  by (induction xs) auto

lemma trim_empty: "trim s = [] \<longleftrightarrow> list_all is_whitespace s"
  by (simp add: trim_def trim_start_def trim_end_def ball_dropWhile list_all_iff)

lemma trim_unlines_empty: "trim (unlines ls) = [] \<longleftrightarrow> list_all (\<lambda>l. trim l = []) ls"
  by (induction ls) (simp_all add: trim_empty is_whitespace_def)

lemma dropWhile_snoc: "P c \<Longrightarrow> dropWhile P (xs @ [c]) = (if \<forall>x\<in>set xs. P x then [] else dropWhile P xs @ [c])"
  by (induction xs) auto

lemma trim_snoc_ws:
  assumes "is_whitespace c"
  shows "trim (s @ [c]) = trim s"
proof (cases "trim s = []")
  case True
  moreover from this have "trim (s @ [c]) = []" using assms by (simp add: trim_empty)
  ultimately show ?thesis by simp
next
  case False
  then show ?thesis using assms
    by (auto simp: trim_empty list_all_iff trim_def trim_start_def trim_end_def dropWhile_snoc dest: set_dropWhileD)
qed

lemma trim_strip_cr: "trim (rev (strip_cr (rev l))) = trim l"
proof (cases l rule: rev_cases)
  case (snoc l' c)
  then show ?thesis
    by (auto simp: strip_cr_def trim_snoc_ws is_whitespace_def)
qed (simp add: strip_cr_def)

text \<open>A text written line by line is read back line by line, up to white space at the ends.\<close>

lemma trimmed_unlines: "list_all (\<lambda>l. CHR 0x0A \<notin> set l) ls \<Longrightarrow> trimmed_lines (unlines ls) = map trim ls"
  by (induction ls)
    (simp_all add: trimmed_lines_def lines_def split_lines_line trim_strip_cr)

lemma filter_lines_no_lf: "list_all (\<lambda>l. CHR 0x0A \<notin> set l) (filter P (lines s))"
  by (auto simp: list_all_iff dest: lines_no_lf)

lemma trimmed_filter_lines:
  "trimmed_lines (unlines (filter (\<lambda>l. P (trim l)) (lines s))) = filter P (trimmed_lines s)"
  by (simp add: trimmed_unlines filter_lines_no_lf) (simp add: trimmed_lines_def filter_map comp_def)

section \<open>Files\<close>

text \<open>
  \<open>fs_files\<close> lists the directory entries in the order \<open>read_dir\<close> yields them, with their text;
  \<open>None\<close> is an entry that \<open>read_to_string\<close> refuses (not UTF-8, not readable, a directory).
  \<open>fs_can_write\<close> says which paths can be opened for writing or created; a write that can be opened
  is complete.
\<close>

record file_system =
  fs_files :: "(path, string option) hash_map"
  fs_dirs :: "path list"
  fs_can_write :: "path \<Rightarrow> bool"

definition is_dir :: "file_system \<Rightarrow> path \<Rightarrow> bool" where
  "is_dir fs p \<longleftrightarrow> p \<in> set (fs_dirs fs)"

definition fs_read :: "file_system \<Rightarrow> path \<Rightarrow> string option" where
  "fs_read fs p = (case hm_get (fs_files fs) p of Some (Some t) \<Rightarrow> Some t | _ \<Rightarrow> None)"

definition read_dir :: "file_system \<Rightarrow> path \<Rightarrow> path list option" where
  "read_dir fs d =
     (if is_dir fs d then Some (filter (\<lambda>p. path_parent p = Some d) (map fst (fs_files fs))) else None)"

definition fs_write :: "path \<Rightarrow> string \<Rightarrow> file_system \<Rightarrow> file_system option" where
  "fs_write p t fs =
     (if fs_can_write fs p then Some (fs\<lparr>fs_files := hm_insert p (Some t) (fs_files fs)\<rparr>) else None)"

definition create_dir_all :: "path \<Rightarrow> file_system \<Rightarrow> file_system option" where
  "create_dir_all d fs =
     (if is_dir fs d \<or> path_components d = [] then Some fs
      else if fs_can_write fs d
      then Some (fs\<lparr>fs_dirs := map (\<lambda>n. Path (path_absolute d) (take n (path_components d)))
             [1..<Suc (length (path_components d))] @ fs_dirs fs\<rparr>)
      else None)"

definition fs_wf :: "file_system \<Rightarrow> bool" where
  "fs_wf fs \<longleftrightarrow> hm_wf (fs_files fs)"

lemma fs_write_Some [simp]:
  "fs_write p t fs = Some fs' \<longleftrightarrow>
     fs_can_write fs p \<and> fs' = fs\<lparr>fs_files := hm_insert p (Some t) (fs_files fs)\<rparr>"
  by (auto simp: fs_write_def)

lemma fs_read_write: "fs_wf fs \<Longrightarrow> fs_write p t fs = Some fs' \<Longrightarrow>
    fs_read fs' q = (if q = p then Some t else fs_read fs q)"
  by (auto simp: fs_read_def fs_wf_def hm.get_insert)

lemma fs_wf_write: "fs_wf fs \<Longrightarrow> fs_write p t fs = Some fs' \<Longrightarrow> fs_wf fs'"
  by (auto simp: fs_wf_def hm.inv_insert)

lemma create_dir_all_existing [simp]: "is_dir fs d \<Longrightarrow> create_dir_all d fs = Some fs"
  by (simp add: create_dir_all_def)

section \<open>Commands\<close>

text \<open>
  A command is the list of its program and arguments. The commands run so far are part of the
  state, newest last, because what a command answers may depend on them (\<open>ufw status\<close> after
  \<open>ufw allow\<close>). \<open>host_run\<close> is \<open>None\<close> if the program cannot be started.
\<close>

record command_output =
  out_success :: bool
  out_stdout :: string
  out_stderr :: string
  out_status :: string

type_synonym commands = "string list list"

record host =
  host_exists :: "string \<Rightarrow> bool"
  host_run :: "commands \<Rightarrow> string list \<Rightarrow> command_output option"

definition run_command :: "host \<Rightarrow> string list \<Rightarrow> commands \<Rightarrow> commands \<times> command_output option" where
  "run_command h cmd hist = (hist @ [cmd], host_run h hist cmd)"

definition in_docker :: "host \<Rightarrow> bool" where
  "in_docker h = host_exists h ''/.dockerenv''"

definition nsenter_bin :: "host \<Rightarrow> string option" where
  "nsenter_bin h = find (host_exists h) [''/usr/bin/nsenter'', ''/bin/nsenter'']"

end
