(* ===== verification/Relay_Dnsmasq.thy ===== *)
theory Relay_Dnsmasq
  imports Relay_Config Relay_Host "HOL-Library.Product_Lexorder"
begin

text \<open>
  The DNS rules of \<open>src/panel/dnsmasq_store.rs\<close>: the panel keeps no table of its own, it reads the
  \<open>address=\<close> and \<open>server=\<close> lines of every \<open>*.conf\<close> file of the dnsmasq directory and rewrites them on
  save. The lemmas show that what is saved is what is loaded again, that a save keeps every directive
  the panel does not manage, and where it does not do what it means to: each save adds one more
  comment line to both managed files, and a directory whose relay and bypass files are the same file
  loses its relay rules.
\<close>

section \<open>Rules as lines\<close>

record dns_domain =
  dd_pattern :: string
  dd_mode :: string
  dd_source :: string

record dnsmasq_paths =
  dp_conf_dir :: path
  dp_relay_file :: path
  dp_bypass_file :: path
  dp_relay_ip :: string
  dp_reload_cmd :: "string option"

definition is_bypass_server_line :: "string \<Rightarrow> bool" where
  "is_bypass_server_line line =
     (case strip_prefix ''server=/'' line of None \<Rightarrow> False | Some rest \<Rightarrow> ends_with rest ''/#'')"

definition parse_address_line :: "string \<Rightarrow> (string \<times> string) option" where
  "parse_address_line line = do {
     rest \<leftarrow> strip_prefix ''address=/'' line;
     (domain, ip) \<leftarrow> rsplit_once (CHR ''/'') rest;
     if domain = [] \<or> ip = [] then None else Some (to_lowercase domain, ip)
   }"

definition parse_bypass_line :: "string \<Rightarrow> string option" where
  "parse_bypass_line line = do {
     rest \<leftarrow> strip_prefix ''server=/'' line;
     domain \<leftarrow> strip_suffix ''/#'' rest;
     if domain = [] then None else Some (to_lowercase domain)
   }"

definition is_conf :: "path \<Rightarrow> bool" where
  "is_conf p \<longleftrightarrow> path_extension p = Some ''conf''"

section \<open>Choosing the files\<close>

definition count_lines :: "string \<Rightarrow> nat \<times> nat" where
  "count_lines text =
     foldl (\<lambda>(addr, bypass) line.
         let t = trim line
         in if starts_with t ''address=/'' then (Suc addr, bypass)
            else if is_bypass_server_line t then (addr, Suc bypass)
            else (addr, bypass))
       (0, 0) (lines text)"

type_synonym detected = "(nat \<times> path) option \<times> path option \<times> (nat \<times> path) option"

definition best_count :: "(nat \<times> path) option \<Rightarrow> nat" where
  "best_count b = (case b of Some (n, _) \<Rightarrow> n | None \<Rightarrow> 0)"

definition detect_entry :: "file_system \<Rightarrow> detected \<Rightarrow> path \<Rightarrow> detected" where
  "detect_entry fs acc path =
     (case acc of (best_relay, named_bypass, best_bypass) \<Rightarrow>
        if \<not> is_conf path then acc
        else case fs_read fs path of
               None \<Rightarrow> acc
             | Some text \<Rightarrow>
                 (let (addr, bypass) = count_lines text;
                      best_relay = (if best_count best_relay < addr then Some (addr, path) else best_relay);
                      name = (case file_name path of Some n \<Rightarrow> n | None \<Rightarrow> [])
                  in if contains_sub name ''bypass'' then (best_relay, Some path, best_bypass)
                     else if best_count best_bypass < bypass
                     then (best_relay, named_bypass, Some (bypass, path))
                     else (best_relay, named_bypass, best_bypass)))"

definition detect_files :: "file_system \<Rightarrow> path \<Rightarrow> path option \<times> path option" where
  "detect_files fs dir =
     (case read_dir fs dir of
        None \<Rightarrow> (None, None)
      | Some rd \<Rightarrow>
          (case foldl (detect_entry fs) (None, None, None) rd of
             (best_relay, named_bypass, best_bypass) \<Rightarrow>
               (map_option snd best_relay,
                case named_bypass of Some p \<Rightarrow> Some p | None \<Rightarrow> map_option snd best_bypass)))"

definition nonempty :: "string option \<Rightarrow> string option" where
  "nonempty s = (case s of Some [] \<Rightarrow> None | _ \<Rightarrow> s)"

definition or_else :: "'a option \<Rightarrow> 'a option \<Rightarrow> 'a option" where
  "or_else a b = (case a of Some x \<Rightarrow> Some x | None \<Rightarrow> b)"

definition from_panel :: "file_system \<Rightarrow> panel_config \<Rightarrow> dnsmasq_paths option" where
  "from_panel fs pc = do {
     dir \<leftarrow> or_else (map_option path_from (nonempty (pn_dnsmasq_conf_dir pc)))
              (or_else (pn_dnsmasq_conf_path pc) (pn_dnsmasq_relay_file pc)
                 \<bind> (\<lambda>p. path_parent (path_from p)));
     if \<not> is_dir fs dir then None
     else
       (let relay_ip = (case nonempty (pn_relay_ip pc) of Some s \<Rightarrow> s | None \<Rightarrow> ''127.0.0.1'');
            (auto_relay, auto_bypass) = detect_files fs dir;
            relay_file =
              (case or_else (map_option path_from
                       (nonempty (or_else (pn_dnsmasq_relay_file pc) (pn_dnsmasq_conf_path pc)))) auto_relay of
                 Some p \<Rightarrow> p | None \<Rightarrow> path_join dir ''snirelay-relay.conf'');
            bypass_file =
              (case or_else (map_option path_from (nonempty (pn_dnsmasq_bypass_file pc))) auto_bypass of
                 Some p \<Rightarrow> p | None \<Rightarrow> path_join dir ''bypass.conf'')
        in Some \<lparr>dp_conf_dir = dir, dp_relay_file = relay_file, dp_bypass_file = bypass_file,
                 dp_relay_ip = relay_ip, dp_reload_cmd = pn_dnsmasq_reload_cmd pc\<rparr>)
   }"

section \<open>Loading\<close>

datatype dnsmasq_error =
    ReadDirFailed path
  | ReadFailed path
  | RelayIpEmpty
  | WriteFailed path
  | MkdirFailed path
  | ReloadSpawnFailed string

type_synonym rule_map = "(string \<times> string, dns_domain) btree_map"

definition load_line :: "string \<Rightarrow> rule_map \<Rightarrow> string \<Rightarrow> rule_map" where
  "load_line source by_key line =
     (let t = trim line
      in if t = [] \<or> starts_with t ''#'' then by_key
         else case parse_address_line t of
                Some (pattern, _) \<Rightarrow>
                  bt_insert (pattern, ''relay'')
                    \<lparr>dd_pattern = pattern, dd_mode = ''relay'', dd_source = source\<rparr> by_key
              | None \<Rightarrow>
                  (case parse_bypass_line t of
                     Some pattern \<Rightarrow>
                       bt_insert (pattern, ''bypass'')
                         \<lparr>dd_pattern = pattern, dd_mode = ''bypass'', dd_source = source\<rparr> by_key
                   | None \<Rightarrow> by_key))"

fun load_files :: "file_system \<Rightarrow> rule_map \<Rightarrow> path list \<Rightarrow> dnsmasq_error + rule_map" where
  "load_files fs by_key [] = Inr by_key"
| "load_files fs by_key (path # rd) =
     (if \<not> is_conf path then load_files fs by_key rd
      else case fs_read fs path of
             None \<Rightarrow> Inl (ReadFailed path)
           | Some text \<Rightarrow>
               (let source = (case file_name path of Some n \<Rightarrow> n | None \<Rightarrow> ''unknown'')
                in load_files fs (foldl (load_line source) by_key (lines text)) rd))"

definition load_domains :: "file_system \<Rightarrow> dnsmasq_paths \<Rightarrow> dnsmasq_error + dns_domain list" where
  "load_domains fs paths =
     (case read_dir fs (dp_conf_dir paths) of
        None \<Rightarrow> Inl (ReadDirFailed (dp_conf_dir paths))
      | Some rd \<Rightarrow> map_sum id (map snd) (load_files fs [] rd))"

section \<open>Saving\<close>

definition managed_line :: "string \<Rightarrow> bool" where
  "managed_line t \<longleftrightarrow> starts_with t ''address=/'' \<or> is_bypass_server_line t"

definition strip_managed_lines :: "string \<Rightarrow> string" where
  "strip_managed_lines text =
     foldl (\<lambda>out line. if managed_line (trim line) then out else out @ line @ [CHR 0x0A]) [] (lines text)"

definition RULE_LINE :: string where
  "RULE_LINE = ''# ------------------------------------------------------------''"

definition banner_line :: "string \<Rightarrow> bool" where
  "banner_line t \<longleftrightarrow>
     starts_with t ''# Managed by SNIrelay''
     \<or> starts_with t ''# Do not edit by hand while the panel''
     \<or> starts_with t ''# Longest-match:''
     \<or> t = RULE_LINE"

definition strip_panel_banners :: "string \<Rightarrow> string" where
  "strip_panel_banners text =
     foldl (\<lambda>acc l. acc @ l @ [CHR 0x0A]) [] (filter (\<lambda>l. \<not> banner_line (trim l)) (lines text))"

definition BANNER_LINE :: string where
  "BANNER_LINE = ''# Managed by SNIrelay admin panel '' @ [CHR 0xE2, CHR 0x80, CHR 0x94]
     @ '' domain rules below are rewritten on Save.''"

definition OTHER_LINE :: string where
  "OTHER_LINE = ''# Other directives in this file are preserved.''"

definition BANNER :: string where
  "BANNER = BANNER_LINE @ [CHR 0x0A] @ OTHER_LINE @ [CHR 0x0A]"

definition managed_text :: "string \<Rightarrow> string \<Rightarrow> string" where
  "managed_text existing managed_block =
     (let preserved = strip_panel_banners (strip_managed_lines existing);
          out = BANNER;
          out = (if trim preserved \<noteq> [] then
                   (let out = out @ preserved;
                        out = (if ends_with out [CHR 0x0A] then out else out @ [CHR 0x0A])
                    in out @ RULE_LINE @ [CHR 0x0A])
                 else out)
      in out @ managed_block)"

definition write_managed_file :: "path \<Rightarrow> string \<Rightarrow> file_system \<Rightarrow> file_system \<times> (dnsmasq_error + unit)" where
  "write_managed_file path managed_block fs =
     (case (case path_parent path of Some parent \<Rightarrow> create_dir_all parent fs | None \<Rightarrow> Some fs) of
        None \<Rightarrow> (fs, Inl (MkdirFailed path))
      | Some fs \<Rightarrow>
          (let existing = (case fs_read fs path of Some t \<Rightarrow> t | None \<Rightarrow> [])
           in case fs_write path (managed_text existing managed_block) fs of
                None \<Rightarrow> (fs, Inl (WriteFailed path))
              | Some fs \<Rightarrow> (fs, Inr ())))"

text \<open>A \<open>BTreeSet\<close> of strings is a sorted list without repetitions.\<close>

definition render_relay_lines :: "string list \<Rightarrow> string \<Rightarrow> string" where
  "render_relay_lines domains relay_ip =
     foldl (\<lambda>out d. out @ ''address=/'' @ d @ ''/'' @ relay_ip @ [CHR 0x0A]) [] domains"

definition render_bypass_lines :: "string list \<Rightarrow> string" where
  "render_bypass_lines domains = foldl (\<lambda>out d. out @ ''server=/'' @ d @ ''/#'' @ [CHR 0x0A]) [] domains"

definition sort_domain :: "string list \<times> string list \<Rightarrow> dns_domain \<Rightarrow> string list \<times> string list" where
  "sort_domain acc d =
     (case acc of (relay, bypass) \<Rightarrow>
        (let p = to_lowercase (trim (dd_pattern d))
         in if p = [] then acc
            else if dd_mode d = ''bypass'' \<or> dd_mode d = ''direct'' then (relay, insort_insert p bypass)
            else (insort_insert p relay, bypass)))"

definition partition_domains :: "dns_domain list \<Rightarrow> string list \<times> string list" where
  "partition_domains domains =
     (case foldl sort_domain ([], []) domains of
        (relay, bypass) \<Rightarrow> (foldl (\<lambda>r b. remove1 b r) relay bypass, bypass))"

fun clean_files :: "dnsmasq_paths \<Rightarrow> path list \<Rightarrow> file_system \<Rightarrow> file_system \<times> (dnsmasq_error + unit)" where
  "clean_files paths [] fs = (fs, Inr ())"
| "clean_files paths (path # rd) fs =
     (if \<not> is_conf path then clean_files paths rd fs
      else if path = dp_relay_file paths \<or> path = dp_bypass_file paths then clean_files paths rd fs
      else
        (let text = (case fs_read fs path of Some t \<Rightarrow> t | None \<Rightarrow> []);
             cleaned = strip_managed_lines text
         in if cleaned \<noteq> text
            then (case fs_write path cleaned fs of
                    None \<Rightarrow> (fs, Inl (WriteFailed path))
                  | Some fs \<Rightarrow> clean_files paths rd fs)
            else clean_files paths rd fs))"

definition save_domains ::
    "dnsmasq_paths \<Rightarrow> dns_domain list \<Rightarrow> file_system \<Rightarrow> file_system \<times> (dnsmasq_error + unit)" where
  "save_domains paths domains fs =
     (if dp_relay_ip paths = [] then (fs, Inl RelayIpEmpty)
      else
        (let (relay, bypass) = partition_domains domains
         in case read_dir fs (dp_conf_dir paths) of
              None \<Rightarrow> (fs, Inl (ReadDirFailed (dp_conf_dir paths)))
            | Some rd \<Rightarrow>
                (case clean_files paths rd fs of
                   (fs, Inl e) \<Rightarrow> (fs, Inl e)
                 | (fs, Inr _) \<Rightarrow>
                     (case write_managed_file (dp_relay_file paths)
                             (render_relay_lines relay (dp_relay_ip paths)) fs of
                        (fs, Inl e) \<Rightarrow> (fs, Inl e)
                      | (fs, Inr _) \<Rightarrow>
                          write_managed_file (dp_bypass_file paths) (render_bypass_lines bypass) fs))))"

section \<open>Reloading dnsmasq\<close>

definition reload_command :: "host \<Rightarrow> string \<Rightarrow> string list" where
  "reload_command h cmd =
     (if in_docker h then
        (case nsenter_bin h of
           Some ns \<Rightarrow> [ns, ''-t'', ''1'', ''-m'', ''-n'', ''--'', ''sh'', ''-c'', cmd]
         | None \<Rightarrow> [''sh'', ''-c'', cmd])
      else [''sh'', ''-c'', cmd])"

definition reload :: "host \<Rightarrow> dnsmasq_paths \<Rightarrow> commands \<Rightarrow> commands \<times> (dnsmasq_error + bool option)" where
  "reload h paths hist =
     (case dp_reload_cmd paths of
        None \<Rightarrow> (hist, Inr None)
      | Some cmd \<Rightarrow>
          (case run_command h (reload_command h cmd) hist of
             (hist, None) \<Rightarrow> (hist, Inl (ReloadSpawnFailed cmd))
           | (hist, Some output) \<Rightarrow> (hist, Inr (Some (out_success output)))))"

section \<open>Texts of managed files\<close>

lemma strip_managed_unlines:
  "strip_managed_lines text = unlines (filter (\<lambda>l. \<not> managed_line (trim l)) (lines text))"
  by (simp add: strip_managed_lines_def foldl_append_if unlines_def)

lemma strip_banners_unlines:
  "strip_panel_banners text = unlines (filter (\<lambda>l. \<not> banner_line (trim l)) (lines text))"
  by (simp add: strip_panel_banners_def foldl_append_concat unlines_def)

lemma render_relay_unlines: "render_relay_lines ds ip = unlines (map (\<lambda>d. ''address=/'' @ d @ ''/'' @ ip) ds)"
  using foldl_append_concat [of "\<lambda>d. ''address=/'' @ d @ ''/'' @ ip @ [CHR 0x0A]" "[]" ds]
  by (simp add: render_relay_lines_def unlines_def comp_def)

lemma render_bypass_unlines: "render_bypass_lines ds = unlines (map (\<lambda>d. ''server=/'' @ d @ ''/#'') ds)"
  using foldl_append_concat [of "\<lambda>d. ''server=/'' @ d @ ''/#'' @ [CHR 0x0A]" "[]" ds]
  by (simp add: render_bypass_lines_def unlines_def comp_def)

text \<open>What a managed file keeps of its old lines.\<close>

definition kept_lines :: "string \<Rightarrow> string list" where
  "kept_lines text = filter (\<lambda>t. \<not> managed_line t \<and> \<not> banner_line t) (trimmed_lines text)"

lemma trimmed_strip_managed: "trimmed_lines (strip_managed_lines t) = filter (\<lambda>t. \<not> managed_line t) (trimmed_lines t)"
  using trimmed_filter_lines [of "\<lambda>t. \<not> managed_line t"] by (simp add: strip_managed_unlines)

lemma trimmed_strip_banners: "trimmed_lines (strip_panel_banners t) = filter (\<lambda>t. \<not> banner_line t) (trimmed_lines t)"
  using trimmed_filter_lines [of "\<lambda>t. \<not> banner_line t"] by (simp add: strip_banners_unlines)

lemma trimmed_preserved: "trimmed_lines (strip_panel_banners (strip_managed_lines t)) = kept_lines t"
  by (simp add: trimmed_strip_banners trimmed_strip_managed kept_lines_def conj_commute)

lemma banner_trim [simp]: "trim BANNER_LINE = BANNER_LINE" "trim OTHER_LINE = OTHER_LINE" "trim RULE_LINE = RULE_LINE"
  by code_simp+

lemma banner_no_lf: "CHR 0x0A \<notin> set BANNER_LINE" "CHR 0x0A \<notin> set OTHER_LINE" "CHR 0x0A \<notin> set RULE_LINE"
  by code_simp+

text \<open>The lines of a managed file after a save.\<close>

lemma trimmed_managed_text:
  assumes "list_all (\<lambda>l. CHR 0x0A \<notin> set l) block"
  shows "trimmed_lines (managed_text existing (unlines block)) =
    [BANNER_LINE, OTHER_LINE]
    @ (if list_all (\<lambda>t. t = []) (kept_lines existing) then [] else kept_lines existing @ [RULE_LINE])
    @ map trim block"
proof -
  define ls where "ls = filter (\<lambda>l. \<not> banner_line (trim l)) (lines (strip_managed_lines existing))"
  have preserved: "strip_panel_banners (strip_managed_lines existing) = unlines ls"
    by (simp add: strip_banners_unlines ls_def)
  have lf: "list_all (\<lambda>l. CHR 0x0A \<notin> set l) ls"
    unfolding ls_def by (rule filter_lines_no_lf)
  have kept: "kept_lines existing = map trim ls"
    using trimmed_preserved [of existing] lf by (simp add: preserved trimmed_unlines)
  have blank: "trim (unlines ls) = [] \<longleftrightarrow> list_all (\<lambda>t. t = []) (kept_lines existing)"
    by (simp add: trim_unlines_empty kept list_all_iff)
  have "suffix [CHR 0x0A] (BANNER @ unlines ls)"
    by (cases ls rule: rev_cases) (auto simp: BANNER_def suffix_def)
  then have "managed_text existing (unlines block) =
      unlines ([BANNER_LINE, OTHER_LINE]
        @ (if list_all (\<lambda>t. t = []) (kept_lines existing) then [] else ls @ [RULE_LINE]) @ block)"
    by (simp add: managed_text_def preserved blank BANNER_def Let_def)
  moreover have "list_all (\<lambda>l. CHR 0x0A \<notin> set l) ([BANNER_LINE, OTHER_LINE]
        @ (if list_all (\<lambda>t. t = []) (kept_lines existing) then [] else ls @ [RULE_LINE]) @ block)"
    using lf assms banner_no_lf by simp
  ultimately show ?thesis
    by (simp only: trimmed_unlines) (simp add: kept)
qed

section \<open>Rules of a text\<close>

definition rule_entry :: "string \<Rightarrow> string \<Rightarrow> ((string \<times> string) \<times> dns_domain) option" where
  "rule_entry source t =
     (if t = [] \<or> starts_with t ''#'' then None
      else case parse_address_line t of
             Some (pattern, _) \<Rightarrow>
               Some ((pattern, ''relay''), \<lparr>dd_pattern = pattern, dd_mode = ''relay'', dd_source = source\<rparr>)
           | None \<Rightarrow>
               map_option (\<lambda>pattern.
                 ((pattern, ''bypass''), \<lparr>dd_pattern = pattern, dd_mode = ''bypass'', dd_source = source\<rparr>))
                 (parse_bypass_line t))"

definition text_entries :: "string \<Rightarrow> string \<Rightarrow> ((string \<times> string) \<times> dns_domain) list" where
  "text_entries source text = List.map_filter (rule_entry source) (trimmed_lines text)"

lemma load_line_entry:
  "load_line source m l = (case rule_entry source (trim l) of None \<Rightarrow> m | Some (k, v) \<Rightarrow> bt_insert k v m)"
  by (auto simp: load_line_def rule_entry_def Let_def split: option.splits)

lemma load_text:
  "foldl (load_line source) m (lines text) = foldl (\<lambda>m (k, v). bt_insert k v m) m (text_entries source text)"
proof -
  have "foldl (load_line source) m ls =
      foldl (\<lambda>m (k, v). bt_insert k v m) m (List.map_filter (rule_entry source) (map trim ls))" for ls
    by (induction ls arbitrary: m) (auto simp: List.map_filter_simps load_line_entry split: option.splits)
  then show ?thesis
    by (simp add: text_entries_def trimmed_lines_def)
qed

lemma rule_entry_key:
  "rule_entry source t = Some (k, v) \<Longrightarrow> k = (dd_pattern v, dd_mode v) \<and> dd_source v = source"
  by (auto simp: rule_entry_def split: if_splits option.splits)

lemma rule_entry_managed: "rule_entry source t = Some e \<Longrightarrow> managed_line t"
  by (auto simp: rule_entry_def managed_line_def parse_address_line_def parse_bypass_line_def
      is_bypass_server_line_def suffix_def bind_eq_Some_conv split: if_splits option.splits)

lemma strip_prefix_append: "strip_prefix p (p @ r) = Some r"
  by simp

lemma strip_suffix_append: "strip_suffix p (r @ p) = Some r"
  by simp

lemma rule_entry_relay:
  assumes "p \<noteq> []" and "ip \<noteq> []" and "CHR ''/'' \<notin> set ip"
  shows "rule_entry source (''address=/'' @ p @ ''/'' @ ip) =
    Some ((to_lowercase p, ''relay''), \<lparr>dd_pattern = to_lowercase p, dd_mode = ''relay'', dd_source = source\<rparr>)"
proof -
  have "parse_address_line (''address=/'' @ p @ ''/'' @ ip) = Some (to_lowercase p, ip)"
    unfolding parse_address_line_def strip_prefix_append using assms by simp
  then show ?thesis by (simp add: rule_entry_def)
qed

lemma rule_entry_bypass:
  assumes "p \<noteq> []"
  shows "rule_entry source (''server=/'' @ p @ ''/#'') =
    Some ((to_lowercase p, ''bypass''), \<lparr>dd_pattern = to_lowercase p, dd_mode = ''bypass'', dd_source = source\<rparr>)"
proof -
  have "parse_bypass_line (''server=/'' @ p @ ''/#'') = Some (to_lowercase p)"
    unfolding parse_bypass_line_def strip_prefix_append bind.bind_lunit strip_suffix_append
    using assms by simp
  moreover have "parse_address_line (''server=/'' @ p @ ''/#'') = None"
    by (simp add: parse_address_line_def strip_prefix_def)
  ultimately show ?thesis by (simp add: rule_entry_def)
qed

section \<open>The rules a list of domains asks for\<close>

text \<open>
  Patterns are trimmed and lowered in case; modes \<open>bypass\<close> and \<open>direct\<close> mean bypass, every other
  mode means relay; a pattern with both modes is bypassed.
\<close>

definition norm_pattern :: "dns_domain \<Rightarrow> string" where
  "norm_pattern d = to_lowercase (trim (dd_pattern d))"

definition asks_bypass :: "dns_domain \<Rightarrow> bool" where
  "asks_bypass d \<longleftrightarrow> dd_mode d = ''bypass'' \<or> dd_mode d = ''direct''"

definition bypass_set :: "dns_domain list \<Rightarrow> string set" where
  "bypass_set ds = {norm_pattern d | d. d \<in> set ds \<and> asks_bypass d} - {[]}"

definition relay_set :: "dns_domain list \<Rightarrow> string set" where
  "relay_set ds = {norm_pattern d | d. d \<in> set ds \<and> \<not> asks_bypass d} - {[]} - bypass_set ds"

definition wanted_rules :: "dns_domain list \<Rightarrow> (string \<times> string) set" where
  "wanted_rules ds = (\<lambda>p. (p, ''relay'')) ` relay_set ds \<union> (\<lambda>p. (p, ''bypass'')) ` bypass_set ds"

definition is_tree_set :: "string list \<Rightarrow> bool" where
  "is_tree_set xs \<longleftrightarrow> sorted xs \<and> distinct xs"

lemma tree_set_insert: "is_tree_set xs \<Longrightarrow> is_tree_set (insort_insert x xs) \<and> set (insort_insert x xs) = insert x (set xs)"
  by (simp add: is_tree_set_def sorted_insort_insert distinct_insort_insert set_insort_insert)

lemma tree_set_remove:
  "is_tree_set xs \<Longrightarrow> is_tree_set (foldl (\<lambda>r b. remove1 b r) xs bs)
     \<and> set (foldl (\<lambda>r b. remove1 b r) xs bs) = set xs - set bs"
  by (induction bs arbitrary: xs) (auto simp: is_tree_set_def sorted_remove1)

lemma foldl_sort_domain:
  assumes "foldl sort_domain (r, b) ds = (r', b')" and "is_tree_set r" and "is_tree_set b"
  shows "is_tree_set r' \<and> is_tree_set b'
    \<and> set r' = set r \<union> ({norm_pattern d | d. d \<in> set ds \<and> \<not> asks_bypass d} - {[]})
    \<and> set b' = set b \<union> ({norm_pattern d | d. d \<in> set ds \<and> asks_bypass d} - {[]})"
  using assms
proof (induction ds arbitrary: r b)
  case (Cons d ds)
  let ?p = "norm_pattern d"
  obtain r1 b1 where step: "sort_domain (r, b) d = (r1, b1)" by fastforce
  have one: "is_tree_set r1 \<and> is_tree_set b1
      \<and> set r1 = set r \<union> ((if asks_bypass d then {} else {?p}) - {[]})
      \<and> set b1 = set b \<union> ((if asks_bypass d then {?p} else {}) - {[]})"
    using step Cons.prems(2,3) tree_set_insert [of r ?p] tree_set_insert [of b ?p]
    by (auto simp: sort_domain_def norm_pattern_def asks_bypass_def Let_def split: if_splits)
  have rest: "foldl sort_domain (r1, b1) ds = (r', b')" using Cons.prems(1) step by simp
  show ?case using Cons.IH [OF rest] one by auto
qed auto

lemma partition_domains_spec:
  assumes "partition_domains ds = (relay, bypass)"
  shows "is_tree_set relay" and "is_tree_set bypass"
    and "set relay = relay_set ds" and "set bypass = bypass_set ds"
proof -
  obtain r where r: "foldl sort_domain ([], []) ds = (r, bypass)"
    and relay: "relay = foldl (\<lambda>r b. remove1 b r) r bypass"
    using assms by (auto simp: partition_domains_def split: prod.splits)
  note f = foldl_sort_domain [OF r]
  show "is_tree_set relay" "is_tree_set bypass" "set bypass = bypass_set ds" "set relay = relay_set ds"
    using f tree_set_remove [of r bypass]
    by (auto simp: relay is_tree_set_def relay_set_def bypass_set_def)
qed

section \<open>Effect of a save on the directory\<close>

definition text_of :: "file_system \<Rightarrow> path \<Rightarrow> string" where
  "text_of fs p = (case fs_read fs p of Some t \<Rightarrow> t | None \<Rightarrow> [])"

definition conf_file :: "path \<Rightarrow> path \<Rightarrow> bool" where
  "conf_file d p \<longleftrightarrow> is_conf p \<and> path_parent p = Some d"

text \<open>A directory the panel can work with: its \<open>*.conf\<close> files can be read and written.\<close>

definition conf_ready :: "path \<Rightarrow> file_system \<Rightarrow> bool" where
  "conf_ready d fs \<longleftrightarrow> fs_wf fs \<and> is_dir fs d
     \<and> (\<forall>p. conf_file d p \<longrightarrow> fs_can_write fs p \<and> hm_get (fs_files fs) p \<noteq> Some None)"

lemma conf_ready_write:
  assumes "conf_ready d fs" and "conf_file d p"
  obtains fs' where "fs_write p t fs = Some fs'" and "conf_ready d fs'"
    and "\<And>q. fs_read fs' q = (if q = p then Some t else fs_read fs q)"
proof
  let ?fs = "fs\<lparr>fs_files := hm_insert p (Some t) (fs_files fs)\<rparr>"
  show w: "fs_write p t fs = Some ?fs"
    using assms by (simp add: conf_ready_def)
  show "conf_ready d ?fs"
    using assms by (auto simp: conf_ready_def fs_wf_def is_dir_def hm.inv_insert hm.get_insert)
  show "fs_read ?fs q = (if q = p then Some t else fs_read fs q)" for q
    using fs_read_write [OF _ w] assms by (simp add: conf_ready_def)
qed

lemma write_managed_effect:
  assumes "conf_ready d fs" and "conf_file d p"
  obtains fs' where "write_managed_file p block fs = (fs', Inr ())" and "conf_ready d fs'"
    and "\<And>q. fs_read fs' q = (if q = p then Some (managed_text (text_of fs p) block) else fs_read fs q)"
proof -
  obtain fs' where w: "fs_write p (managed_text (text_of fs p) block) fs = Some fs'"
    "conf_ready d fs'"
    "\<And>q. fs_read fs' q = (if q = p then Some (managed_text (text_of fs p) block) else fs_read fs q)"
    using conf_ready_write [OF assms] by metis
  have "path_parent p = Some d" "is_dir fs d"
    using assms by (simp_all add: conf_ready_def conf_file_def)
  then have "write_managed_file p block fs = (fs', Inr ())"
    using w(1) by (simp add: write_managed_file_def text_of_def [symmetric] del: fs_write_Some)
  with w that show ?thesis by blast
qed

definition cleaned_by :: "dnsmasq_paths \<Rightarrow> path \<Rightarrow> bool" where
  "cleaned_by paths p \<longleftrightarrow> is_conf p \<and> p \<noteq> dp_relay_file paths \<and> p \<noteq> dp_bypass_file paths"

lemma clean_files_effect:
  assumes "conf_ready d fs" and "\<forall>p \<in> set rd. path_parent p = Some d" and "distinct rd"
  shows "\<exists>fs'. clean_files paths rd fs = (fs', Inr ()) \<and> conf_ready d fs'
    \<and> (\<forall>q. fs_read fs' q = (if q \<in> set rd \<and> cleaned_by paths q
             then map_option strip_managed_lines (fs_read fs q) else fs_read fs q))"
  using assms
proof (induction rd arbitrary: fs)
  case (Cons p rd)
  let ?t = "text_of fs p"
  show ?case
  proof (cases "cleaned_by paths p \<and> strip_managed_lines ?t \<noteq> ?t")
    case True
    then have "conf_file d p" using Cons.prems(2) by (simp add: cleaned_by_def conf_file_def)
    with Cons.prems(1) obtain fs1 where w: "fs_write p (strip_managed_lines ?t) fs = Some fs1"
      "conf_ready d fs1" "\<And>q. fs_read fs1 q = (if q = p then Some (strip_managed_lines ?t) else fs_read fs q)"
      by (metis conf_ready_write)
    have some: "fs_read fs p = Some ?t"
      using True by (auto simp: text_of_def strip_managed_lines_def split: option.splits)
    have "clean_files paths (p # rd) fs = clean_files paths rd fs1"
      using True w(1) by (simp add: cleaned_by_def text_of_def [symmetric] Let_def del: fs_write_Some)
    moreover obtain fs' where "clean_files paths rd fs1 = (fs', Inr ())" "conf_ready d fs'"
      "\<forall>q. fs_read fs' q = (if q \<in> set rd \<and> cleaned_by paths q
         then map_option strip_managed_lines (fs_read fs1 q) else fs_read fs1 q)"
      using Cons.IH [OF w(2)] Cons.prems(2,3) by auto
    ultimately show ?thesis
      using True some Cons.prems(3) by (intro exI [of _ fs']) (simp add: w(3))
  next
    case False
    then have "clean_files paths (p # rd) fs = clean_files paths rd fs"
      by (auto simp: cleaned_by_def text_of_def [symmetric] Let_def)
    moreover have "cleaned_by paths p \<Longrightarrow> map_option strip_managed_lines (fs_read fs p) = fs_read fs p"
      using False by (auto simp: text_of_def split: option.splits)
    ultimately show ?thesis
      using Cons.IH [OF Cons.prems(1)] Cons.prems(2,3) by auto
  qed
qed simp

lemma read_dir_spec:
  assumes "conf_ready d fs"
  obtains rd where "read_dir fs d = Some rd" and "distinct rd" and "\<forall>p \<in> set rd. path_parent p = Some d"
    and "\<And>p. conf_file d p \<Longrightarrow> p \<in> set rd \<longleftrightarrow> fs_read fs p \<noteq> None"
proof -
  let ?rd = "filter (\<lambda>p. path_parent p = Some d) (map fst (fs_files fs))"
  have mem: "p \<in> set ?rd \<longleftrightarrow> fs_read fs p \<noteq> None" if p: "conf_file d p" for p
  proof -
    have "hm_get (fs_files fs) p \<noteq> Some None"
      using assms p by (simp add: conf_ready_def)
    then have "fs_read fs p \<noteq> None \<longleftrightarrow> hm_contains (fs_files fs) p"
      by (auto simp: fs_read_def hm_contains_def split: option.splits)
    then show ?thesis
      using p by (simp add: hm_contains_iff conf_file_def)
  qed
  have rd: "read_dir fs d = Some ?rd"
    using assms by (simp add: read_dir_def conf_ready_def)
  have "distinct ?rd"
    using assms by (simp add: conf_ready_def fs_wf_def hm_wf_def)
  from that [OF rd this _ mem] show thesis by simp
qed

text \<open>Both managed files are \<open>*.conf\<close> files of the directory, and the relay address fits into a line.\<close>

definition paths_ok :: "dnsmasq_paths \<Rightarrow> bool" where
  "paths_ok paths \<longleftrightarrow>
     conf_file (dp_conf_dir paths) (dp_relay_file paths) \<and> conf_file (dp_conf_dir paths) (dp_bypass_file paths)
     \<and> dp_relay_ip paths \<noteq> [] \<and> trim (dp_relay_ip paths) = dp_relay_ip paths
     \<and> CHR ''/'' \<notin> set (dp_relay_ip paths) \<and> CHR 0x0A \<notin> set (dp_relay_ip paths)"

definition patterns_ok :: "dns_domain list \<Rightarrow> bool" where
  "patterns_ok ds \<longleftrightarrow> (\<forall>d \<in> set ds. CHR 0x0A \<notin> set (dd_pattern d))"

definition relay_block :: "dnsmasq_paths \<Rightarrow> dns_domain list \<Rightarrow> string list" where
  "relay_block paths ds = map (\<lambda>d. ''address=/'' @ d @ ''/'' @ dp_relay_ip paths) (fst (partition_domains ds))"

definition bypass_block :: "dns_domain list \<Rightarrow> string list" where
  "bypass_block ds = map (\<lambda>d. ''server=/'' @ d @ ''/#'') (snd (partition_domains ds))"

lemma save_domains_effect:
  assumes "conf_ready (dp_conf_dir paths) fs" and "paths_ok paths"
  shows "\<exists>fs'. save_domains paths ds fs = (fs', Inr ()) \<and> conf_ready (dp_conf_dir paths) fs'
    \<and> (\<forall>q. conf_file (dp_conf_dir paths) q \<longrightarrow> fs_read fs' q =
        (if q = dp_bypass_file paths then
           Some (managed_text (if q = dp_relay_file paths
                               then managed_text (text_of fs q) (unlines (relay_block paths ds))
                               else text_of fs q) (unlines (bypass_block ds)))
         else if q = dp_relay_file paths then Some (managed_text (text_of fs q) (unlines (relay_block paths ds)))
         else map_option strip_managed_lines (fs_read fs q)))
    \<and> (\<forall>q. \<not> conf_file (dp_conf_dir paths) q \<longrightarrow> fs_read fs' q = fs_read fs q)"
proof -
  let ?d = "dp_conf_dir paths" and ?R = "dp_relay_file paths" and ?B = "dp_bypass_file paths"
  have ok: "conf_file ?d ?R" "conf_file ?d ?B" "dp_relay_ip paths \<noteq> []"
    using assms(2) by (simp_all add: paths_ok_def)
  obtain rd where rd: "read_dir fs ?d = Some rd" "distinct rd" "\<forall>p \<in> set rd. path_parent p = Some ?d"
    "\<And>p. conf_file ?d p \<Longrightarrow> p \<in> set rd \<longleftrightarrow> fs_read fs p \<noteq> None"
    using read_dir_spec [OF assms(1)] by metis
  obtain fs1 where f1: "clean_files paths rd fs = (fs1, Inr ())" "conf_ready ?d fs1"
    "\<And>q. fs_read fs1 q = (if q \<in> set rd \<and> cleaned_by paths q
       then map_option strip_managed_lines (fs_read fs q) else fs_read fs q)"
    using clean_files_effect [OF assms(1) rd(3,2)] by metis
  obtain fs2 where f2: "write_managed_file ?R (unlines (relay_block paths ds)) fs1 = (fs2, Inr ())"
    "conf_ready ?d fs2"
    "\<And>q. fs_read fs2 q = (if q = ?R then Some (managed_text (text_of fs1 ?R) (unlines (relay_block paths ds)))
       else fs_read fs1 q)"
    using write_managed_effect [OF f1(2) ok(1)] by metis
  obtain fs3 where f3: "write_managed_file ?B (unlines (bypass_block ds)) fs2 = (fs3, Inr ())"
    "conf_ready ?d fs3"
    "\<And>q. fs_read fs3 q = (if q = ?B then Some (managed_text (text_of fs2 ?B) (unlines (bypass_block ds)))
       else fs_read fs2 q)"
    using write_managed_effect [OF f2(2) ok(2)] by metis
  obtain relay bypass where part: "partition_domains ds = (relay, bypass)" by fastforce
  then have "render_relay_lines relay (dp_relay_ip paths) = unlines (relay_block paths ds)"
    and "render_bypass_lines bypass = unlines (bypass_block ds)"
    by (simp_all add: render_relay_unlines render_bypass_unlines relay_block_def bypass_block_def)
  then have "save_domains paths ds fs = (fs3, Inr ())"
    using f1(1) f2(1) f3(1) ok(3) rd(1) part by (simp add: save_domains_def)
  moreover have "text_of fs1 ?R = text_of fs ?R" "text_of fs1 ?B = text_of fs ?B"
    by (simp_all add: text_of_def f1(3) cleaned_by_def)
  moreover have "fs_read fs1 q = map_option strip_managed_lines (fs_read fs q)"
    if "conf_file ?d q" "q \<noteq> ?R" "q \<noteq> ?B" for q
    using that rd(4) [of q] by (auto simp: f1(3) cleaned_by_def conf_file_def)
  moreover have "fs_read fs3 q = fs_read fs q" if "\<not> conf_file ?d q" for q
    using that ok(1,2) rd(3) by (auto simp: f3(3) f2(3) f1(3) cleaned_by_def conf_file_def)
  ultimately show ?thesis
    using f3(2) by (intro exI [of _ fs3]) (auto simp: f3(3) f2(3) text_of_def)
qed

section \<open>Loading what a directory holds\<close>

definition file_entries :: "file_system \<Rightarrow> path \<Rightarrow> ((string \<times> string) \<times> dns_domain) list" where
  "file_entries fs p =
     text_entries (case file_name p of Some n \<Rightarrow> n | None \<Rightarrow> ''unknown'') (text_of fs p)"

lemma load_files_entries:
  "\<forall>p \<in> set rd. is_conf p \<longrightarrow> fs_read fs p \<noteq> None \<Longrightarrow>
   load_files fs m rd =
     Inr (foldl (\<lambda>m (k, v). bt_insert k v m) m (concat (map (file_entries fs) (filter is_conf rd))))"
  by (induction fs m rd rule: load_files.induct)
    (auto simp: load_text file_entries_def text_of_def Let_def split: option.splits)

definition dir_rules :: "path \<Rightarrow> file_system \<Rightarrow> (string \<times> string) set" where
  "dir_rules d fs = (\<Union>p \<in> {p. conf_file d p}. fst ` set (file_entries fs p))"

lemma text_entries_member:
  "e \<in> set (text_entries source text) \<longleftrightarrow> (\<exists>t \<in> set (trimmed_lines text). rule_entry source t = Some e)"
proof -
  have "e \<in> set (List.map_filter (rule_entry source) ts) \<longleftrightarrow> (\<exists>t \<in> set ts. rule_entry source t = Some e)" for ts
    by (induction ts) (auto simp: List.map_filter_simps split: option.splits)
  then show ?thesis by (simp add: text_entries_def)
qed

lemma unread_entries: "fs_read fs p = None \<Longrightarrow> file_entries fs p = []"
  by (simp add: file_entries_def text_of_def text_entries_def trimmed_lines_def List.map_filter_simps)

lemma bt_keys_foldl:
  "fst ` set (foldl (\<lambda>m (k, v). bt_insert k v m) m kvs) = fst ` set m \<union> fst ` set kvs"
proof (induction kvs arbitrary: m)
  case (Cons kv kvs)
  then show ?case by (cases kv) (simp add: set_bt_insert)
qed simp

lemma bt_values_foldl:
  assumes "(k, v) \<in> set (foldl (\<lambda>m (k, v). bt_insert k v m) [] kvs)"
  shows "(k, v) \<in> set kvs"
proof -
  let ?m = "foldl (\<lambda>m (k, v). bt_insert k v m) [] kvs"
  have wf: "bt_wf ?m" by (rule bt.inv_foldl_insert) (rule bt.inv_empty)
  then have "bt_get ?m k = Some v"
    using assms map_of_is_SomeI [OF bt_wf_distinct] by (simp add: bt_get_map_of)
  then have "map_of (rev kvs) k = Some v"
    by (simp add: bt.get_foldl_insert [OF bt.inv_empty] bt.get_empty split: option.splits)
  then show ?thesis using map_of_SomeD by fastforce
qed

definition rule_key :: "dns_domain \<Rightarrow> string \<times> string" where
  "rule_key v = (dd_pattern v, dd_mode v)"

text \<open>Loading lists the rules of the directory, each once, in order.\<close>

lemma load_domains_rules:
  assumes "conf_ready (dp_conf_dir paths) fs"
  shows "\<exists>ds. load_domains fs paths = Inr ds \<and> sorted_wrt (<) (map rule_key ds)
    \<and> rule_key ` set ds = dir_rules (dp_conf_dir paths) fs"
proof -
  let ?d = "dp_conf_dir paths"
  obtain rd where rd: "read_dir fs ?d = Some rd" "distinct rd" "\<forall>p \<in> set rd. path_parent p = Some ?d"
    "\<And>p. conf_file ?d p \<Longrightarrow> p \<in> set rd \<longleftrightarrow> fs_read fs p \<noteq> None"
    using read_dir_spec [OF assms] by metis
  let ?es = "concat (map (file_entries fs) (filter is_conf rd))"
  let ?m = "foldl (\<lambda>m (k, v). bt_insert k v m) [] ?es"
  have readable: "\<forall>p \<in> set rd. is_conf p \<longrightarrow> fs_read fs p \<noteq> None"
    using rd(3,4) by (auto simp: conf_file_def)
  have load: "load_domains fs paths = Inr (map snd ?m)"
    using load_files_entries [OF readable, of "[]"] rd(1) by (simp add: load_domains_def)
  have "k = rule_key v" if "(k, v) \<in> set ?m" for k v
    using bt_values_foldl [OF that]
    by (auto simp: file_entries_def text_entries_member rule_key_def dest: rule_entry_key)
  then have keys: "map rule_key (map snd ?m) = map fst ?m"
    by (auto simp: comp_def intro!: map_cong)
  have "bt_wf ?m" by (rule bt.inv_foldl_insert) (rule bt.inv_empty)
  then have "sorted_wrt (<) (map rule_key (map snd ?m))"
    unfolding keys by (simp add: bt_wf_def)
  moreover have "rule_key ` set (map snd ?m) = dir_rules ?d fs"
  proof -
    have "rule_key ` set (map snd ?m) = fst ` set ?m"
      using arg_cong [OF keys, of set] by (simp add: image_image)
    also have "\<dots> = fst ` set ?es" by (simp add: bt_keys_foldl)
    also have "\<dots> = (\<Union>p \<in> {p \<in> set rd. is_conf p}. fst ` set (file_entries fs p))"
      by (simp add: image_UN)
    also have "\<dots> = dir_rules ?d fs"
    proof -
      have "p \<in> set rd \<and> is_conf p \<longleftrightarrow> conf_file ?d p" if "file_entries fs p \<noteq> []" for p
        using that rd(3,4) unread_entries [of fs p] by (auto simp: conf_file_def)
      then have "p \<in> set rd \<and> is_conf p \<and> k \<in> fst ` set (file_entries fs p)
          \<longleftrightarrow> conf_file ?d p \<and> k \<in> fst ` set (file_entries fs p)" for p k
        by (cases "file_entries fs p = []") auto
      then show ?thesis by (simp add: dir_rules_def set_eq_iff Bex_def)
    qed
    finally show ?thesis .
  qed
  ultimately show ?thesis using load by blast
qed

section \<open>Rules of the files after a save\<close>

lemma comment_no_entry [simp]: "rule_entry source (CHR ''#'' # t) = None"
  by (simp add: rule_entry_def)

lemma banner_no_entry: "rule_entry source BANNER_LINE = None" "rule_entry source OTHER_LINE = None"
  "rule_entry source RULE_LINE = None"
  by (simp_all add: BANNER_LINE_def OTHER_LINE_def RULE_LINE_def)

lemma kept_no_entry: "t \<in> set (kept_lines text) \<Longrightarrow> rule_entry source t = None"
  by (cases "rule_entry source t") (auto simp: kept_lines_def dest: rule_entry_managed)

lemma cleaned_no_entry: "text_entries source (strip_managed_lines text) = []"
proof -
  have "e \<notin> set (text_entries source (strip_managed_lines text))" for e
    by (auto simp: text_entries_member trimmed_strip_managed dest: rule_entry_managed)
  then show ?thesis by (metis list.set_intros(1) neq_Nil_conv)
qed

lemma managed_text_rules:
  assumes "list_all (\<lambda>l. CHR 0x0A \<notin> set l) block"
  shows "fst ` set (text_entries source (managed_text existing (unlines block))) =
    {k. \<exists>l \<in> set block. \<exists>v. rule_entry source (trim l) = Some (k, v)}"
proof -
  have "e \<in> set (text_entries source (managed_text existing (unlines block))) \<longleftrightarrow>
      (\<exists>l \<in> set block. rule_entry source (trim l) = Some e)" for e
    using kept_no_entry [of _ existing source] banner_no_entry
    by (auto simp: text_entries_member trimmed_managed_text [OF assms] split: if_splits)
  moreover have "k \<in> fst ` S \<longleftrightarrow> (\<exists>v. (k, v) \<in> S)" for k and S :: "((string \<times> string) \<times> dns_domain) set"
    by force
  ultimately show ?thesis by (simp add: set_eq_iff) blast
qed

lemma set_trim: "set (trim s) \<subseteq> set s"
  by (auto simp: trim_def trim_start_def trim_end_def dest!: set_dropWhileD)

lemma ascii_lower_lf: "ascii_lower c = CHR 0x0A \<longleftrightarrow> c = CHR 0x0A"
proof
  assume lower: "ascii_lower c = CHR 0x0A"
  then have ten: "(of_char (ascii_lower c) :: nat) = 10" by simp
  have "\<not> (65 \<le> (of_char c :: nat) \<and> (of_char c :: nat) \<le> 90)"
    using ten unfolding ascii_lower_def by (auto simp: Let_def)
  then show "c = CHR 0x0A"
    using lower by (auto simp: ascii_lower_def Let_def split: if_splits)
qed (simp add: ascii_lower_def)

lemma to_lowercase_no_lf: "CHR 0x0A \<notin> set s \<Longrightarrow> CHR 0x0A \<notin> set (to_lowercase s)"
  using ascii_lower_lf by (force simp: to_lowercase_def)

lemma norm_pattern_facts:
  assumes "p \<in> relay_set ds \<union> bypass_set ds" and "patterns_ok ds"
  shows "p \<noteq> []" and "to_lowercase p = p" and "CHR 0x0A \<notin> set p"
proof -
  obtain d where d: "d \<in> set ds" "p = norm_pattern d" and p: "p \<noteq> []"
    using assms(1) by (auto simp: relay_set_def bypass_set_def)
  show "p \<noteq> []" by fact
  show "to_lowercase p = p" by (simp add: d(2) norm_pattern_def)
  have "CHR 0x0A \<notin> set (trim (dd_pattern d))"
    using assms(2) d(1) set_trim by (auto simp: patterns_ok_def)
  then show "CHR 0x0A \<notin> set p"
    by (simp add: d(2) norm_pattern_def to_lowercase_no_lf)
qed

lemma relay_line_trim:
  assumes "paths_ok paths"
  shows "trim (''address=/'' @ p @ ''/'' @ dp_relay_ip paths) = ''address=/'' @ p @ ''/'' @ dp_relay_ip paths"
  using assms trim_ends [of "dp_relay_ip paths"]
  by (intro trim_id) (simp add: paths_ok_def is_whitespace_def)

lemma bypass_line_trim: "trim (''server=/'' @ p @ ''/#'') = ''server=/'' @ p @ ''/#''"
  by (intro trim_id) (auto simp: is_whitespace_def)

lemma relay_block_lines:
  assumes "paths_ok paths" and "patterns_ok ds"
  shows "list_all (\<lambda>l. CHR 0x0A \<notin> set l) (relay_block paths ds)"
    and "{k. \<exists>l \<in> set (relay_block paths ds). \<exists>v. rule_entry source (trim l) = Some (k, v)} =
      (\<lambda>p. (p, ''relay'')) ` relay_set ds"
proof -
  let ?ip = "dp_relay_ip paths"
  have ip: "?ip \<noteq> []" "trim ?ip = ?ip" "CHR ''/'' \<notin> set ?ip" "CHR 0x0A \<notin> set ?ip"
    using assms(1) by (simp_all add: paths_ok_def)
  have set: "set (fst (partition_domains ds)) = relay_set ds"
    using partition_domains_spec(3) by (metis prod.collapse)
  show "list_all (\<lambda>l. CHR 0x0A \<notin> set l) (relay_block paths ds)"
    using norm_pattern_facts(3) [OF _ assms(2)] ip(4) by (auto simp: relay_block_def list_all_iff set)
  have "rule_entry source (trim (''address=/'' @ p @ ''/'' @ ?ip)) =
      Some ((p, ''relay''), \<lparr>dd_pattern = p, dd_mode = ''relay'', dd_source = source\<rparr>)"
    if "p \<in> relay_set ds" for p
    using rule_entry_relay [OF _ ip(1,3), of p] norm_pattern_facts(1,2) [OF _ assms(2), of p] that
    by (simp add: relay_line_trim [OF assms(1), simplified])
  then show "{k. \<exists>l \<in> set (relay_block paths ds). \<exists>v. rule_entry source (trim l) = Some (k, v)} =
      (\<lambda>p. (p, ''relay'')) ` relay_set ds"
    by (auto simp: relay_block_def set)
qed

lemma bypass_block_lines:
  assumes "patterns_ok ds"
  shows "list_all (\<lambda>l. CHR 0x0A \<notin> set l) (bypass_block ds)"
    and "{k. \<exists>l \<in> set (bypass_block ds). \<exists>v. rule_entry source (trim l) = Some (k, v)} =
      (\<lambda>p. (p, ''bypass'')) ` bypass_set ds"
proof -
  have set: "set (snd (partition_domains ds)) = bypass_set ds"
    using partition_domains_spec(4) by (metis prod.collapse)
  show "list_all (\<lambda>l. CHR 0x0A \<notin> set l) (bypass_block ds)"
    using norm_pattern_facts(3) [OF _ assms] by (auto simp: bypass_block_def list_all_iff set)
  have "rule_entry source (trim (''server=/'' @ p @ ''/#'')) =
      Some ((p, ''bypass''), \<lparr>dd_pattern = p, dd_mode = ''bypass'', dd_source = source\<rparr>)"
    if "p \<in> bypass_set ds" for p
    using rule_entry_bypass [of p source] norm_pattern_facts(1,2) [OF _ assms, of p] that
    by (simp add: bypass_line_trim [simplified])
  then show "{k. \<exists>l \<in> set (bypass_block ds). \<exists>v. rule_entry source (trim l) = Some (k, v)} =
      (\<lambda>p. (p, ''bypass'')) ` bypass_set ds"
    by (auto simp: bypass_block_def set)
qed

lemma saved_rules:
  assumes "conf_ready (dp_conf_dir paths) fs" and "paths_ok paths" and "patterns_ok ds"
  shows "\<exists>fs'. save_domains paths ds fs = (fs', Inr ()) \<and> conf_ready (dp_conf_dir paths) fs'
    \<and> dir_rules (dp_conf_dir paths) fs' =
        (if dp_relay_file paths = dp_bypass_file paths then {} else (\<lambda>p. (p, ''relay'')) ` relay_set ds)
        \<union> (\<lambda>p. (p, ''bypass'')) ` bypass_set ds"
proof -
  let ?d = "dp_conf_dir paths" and ?R = "dp_relay_file paths" and ?B = "dp_bypass_file paths"
  obtain fs' where fs': "save_domains paths ds fs = (fs', Inr ())" "conf_ready ?d fs'"
    and texts: "\<And>q. conf_file ?d q \<Longrightarrow> fs_read fs' q =
        (if q = ?B then
           Some (managed_text (if q = ?R then managed_text (text_of fs q) (unlines (relay_block paths ds))
                               else text_of fs q) (unlines (bypass_block ds)))
         else if q = ?R then Some (managed_text (text_of fs q) (unlines (relay_block paths ds)))
         else map_option strip_managed_lines (fs_read fs q))"
    using save_domains_effect [OF assms(1,2), of ds] by blast
  note blocks = relay_block_lines [OF assms(2,3)] bypass_block_lines [OF assms(3)]
  have conf: "conf_file ?d ?R" "conf_file ?d ?B" using assms(2) by (simp_all add: paths_ok_def)
  have keys: "fst ` set (file_entries fs' q) =
      (if q = ?B then (\<lambda>p. (p, ''bypass'')) ` bypass_set ds
       else if q = ?R then (\<lambda>p. (p, ''relay'')) ` relay_set ds else {})" if q: "conf_file ?d q" for q
  proof -
    consider "q = ?B" | "q \<noteq> ?B" "q = ?R" | "q \<noteq> ?B" "q \<noteq> ?R" by blast
    then show ?thesis
    proof cases
      case 1
      then obtain e where "text_of fs' q = managed_text e (unlines (bypass_block ds))"
        using texts [OF q] by (simp add: text_of_def)
      then show ?thesis
        using 1 by (simp add: file_entries_def managed_text_rules [OF blocks(3)] blocks(4))
    next
      case 2
      then obtain e where "text_of fs' q = managed_text e (unlines (relay_block paths ds))"
        using texts [OF q] by (simp add: text_of_def)
      then show ?thesis
        using 2 by (simp add: file_entries_def managed_text_rules [OF blocks(1)] blocks(2))
    next
      case 3
      then show ?thesis
        using texts [OF q] unread_entries [of fs' q]
        by (cases "fs_read fs q") (simp_all add: file_entries_def text_of_def cleaned_no_entry)
    qed
  qed
  have "dir_rules ?d fs' = (\<Union>q \<in> {q. conf_file ?d q}.
      if q = ?B then (\<lambda>p. (p, ''bypass'')) ` bypass_set ds
      else if q = ?R then (\<lambda>p. (p, ''relay'')) ` relay_set ds else {})"
    unfolding dir_rules_def by (rule SUP_cong) (simp_all add: keys)
  also have "\<dots> = (if ?R = ?B then {} else (\<lambda>p. (p, ''relay'')) ` relay_set ds)
      \<union> (\<lambda>p. (p, ''bypass'')) ` bypass_set ds"
    using conf by (auto split: if_splits)
  finally show ?thesis
    using fs' by blast
qed

section \<open>Properties\<close>

text \<open>C15: 
  A save followed by a load gives the rules that were saved, each once and in
  order: patterns trimmed and lowered in case, a pattern listed with both modes bypassed, whatever
  rules and other directives the files of the directory held before.
\<close>

theorem dnsmasq_save_load:
  assumes "conf_ready (dp_conf_dir paths) fs" and "paths_ok paths" and "patterns_ok ds"
    and "dp_relay_file paths \<noteq> dp_bypass_file paths"
  shows "\<exists>fs' ds'. save_domains paths ds fs = (fs', Inr ()) \<and> load_domains fs' paths = Inr ds'
    \<and> rule_key ` set ds' = wanted_rules ds \<and> sorted_wrt (<) (map rule_key ds')"
  using saved_rules [OF assms(1-3)] load_domains_rules assms(4) by (fastforce simp: wanted_rules_def)

text \<open>
  Relay and bypass rules kept in one and the same file do not survive a save: the
  second write strips the relay rules the first one has just written, and all of them are lost.
\<close>

theorem dnsmasq_shared_file_loses_relay:
  assumes "conf_ready (dp_conf_dir paths) fs" and "paths_ok paths" and "patterns_ok ds"
    and "dp_relay_file paths = dp_bypass_file paths"
  shows "\<exists>fs' ds'. save_domains paths ds fs = (fs', Inr ()) \<and> load_domains fs' paths = Inr ds'
    \<and> rule_key ` set ds' = (\<lambda>p. (p, ''bypass'')) ` bypass_set ds"
  using saved_rules [OF assms(1-3)] load_domains_rules assms(4) by fastforce

text \<open>The directives of a text that are not the panel's: neither rules nor panel comments.\<close>

definition foreign_line :: "string \<Rightarrow> bool" where
  "foreign_line t \<longleftrightarrow> t \<noteq> [] \<and> \<not> managed_line t \<and> \<not> banner_line t \<and> t \<noteq> OTHER_LINE"

definition directives :: "string \<Rightarrow> string list" where
  "directives text = filter foreign_line (trimmed_lines text)"

lemma directives_cleaned: "directives (strip_managed_lines text) = directives text"
  by (auto simp: directives_def trimmed_strip_managed foreign_line_def intro: filter_cong)

lemma directives_kept: "filter foreign_line (kept_lines text) = directives text"
  by (auto simp: directives_def kept_lines_def foreign_line_def intro: filter_cong)

lemma blank_not_foreign: "list_all (\<lambda>t. t = []) ts \<Longrightarrow> filter foreign_line ts = []"
  by (auto simp: filter_empty_conv list_all_iff foreign_line_def)

lemma panel_not_foreign: "\<not> foreign_line BANNER_LINE" "\<not> foreign_line OTHER_LINE" "\<not> foreign_line RULE_LINE"
  by (simp_all add: foreign_line_def banner_line_def BANNER_LINE_def)

lemma directives_managed_text:
  assumes "list_all (\<lambda>l. CHR 0x0A \<notin> set l) block" and "\<forall>l \<in> set block. managed_line (trim l)"
  shows "directives (managed_text existing (unlines block)) = directives existing"
  using assms(2) blank_not_foreign [of "kept_lines existing"] directives_kept [of existing]
  by (auto simp: directives_def trimmed_managed_text [OF assms(1)] panel_not_foreign filter_empty_conv
      foreign_line_def [of "trim _"])

lemma blocks_managed:
  assumes "paths_ok paths" and "patterns_ok ds"
  shows "\<forall>l \<in> set (relay_block paths ds). managed_line (trim l)"
    and "\<forall>l \<in> set (bypass_block ds). managed_line (trim l)"
proof -
  show "\<forall>l \<in> set (relay_block paths ds). managed_line (trim l)"
    using relay_line_trim [OF assms(1)] by (auto simp: relay_block_def managed_line_def)
  show "\<forall>l \<in> set (bypass_block ds). managed_line (trim l)"
    using bypass_line_trim
    by (auto simp: bypass_block_def managed_line_def is_bypass_server_line_def strip_prefix_def suffix_def)
qed


lemma other_line_count:
  assumes "list_all (\<lambda>l. CHR 0x0A \<notin> set l) block" and "\<forall>l \<in> set block. managed_line (trim l)"
  shows "count_list (trimmed_lines (managed_text existing (unlines block))) OTHER_LINE =
    Suc (count_list (trimmed_lines existing) OTHER_LINE)"
proof -
  have neq: "BANNER_LINE \<noteq> OTHER_LINE" "RULE_LINE \<noteq> OTHER_LINE" "OTHER_LINE \<noteq> []"
    "\<not> managed_line OTHER_LINE" "\<not> banner_line OTHER_LINE"
    by code_simp+
  have block: "OTHER_LINE \<notin> trim ` set block" using assms(2) neq(4) by auto
  have kept: "count_list (kept_lines existing) OTHER_LINE = count_list (trimmed_lines existing) OTHER_LINE"
  proof -
    have "count_list (filter P ts) x = count_list ts x" if "P x" for P :: "string \<Rightarrow> bool" and ts x
      using that by (induction ts) auto
    then show ?thesis using neq(4,5) by (simp add: kept_lines_def)
  qed
  have blank: "count_list ts OTHER_LINE = 0" if "list_all (\<lambda>t. t = []) ts" for ts
    using that neq(3) by (auto simp: count_list_0_iff list_all_iff)
  show ?thesis
    using neq(1,2) block blank [of "kept_lines existing"]
    by (auto simp: trimmed_managed_text [OF assms(1)] kept [symmetric] count_list_0_iff)
qed

text \<open>
  Every save makes both managed files grow by one line: the second line of the
  panel's banner is written again but never stripped, so a file that was saved n times carries it
  n times.
\<close>

theorem dnsmasq_save_grows:
  assumes "conf_ready (dp_conf_dir paths) fs" and "paths_ok paths" and "patterns_ok ds"
    and "dp_relay_file paths \<noteq> dp_bypass_file paths"
  shows "\<exists>fs'. save_domains paths ds fs = (fs', Inr ())
    \<and> (\<forall>q \<in> {dp_relay_file paths, dp_bypass_file paths}.
         count_list (trimmed_lines (text_of fs' q)) OTHER_LINE =
         Suc (count_list (trimmed_lines (text_of fs q)) OTHER_LINE))"
proof -
  let ?d = "dp_conf_dir paths" and ?R = "dp_relay_file paths" and ?B = "dp_bypass_file paths"
  note relay = other_line_count [OF relay_block_lines(1) [OF assms(2,3)] blocks_managed(1) [OF assms(2,3)]]
  note bypass = other_line_count [OF bypass_block_lines(1) [OF assms(3)] blocks_managed(2) [OF assms(2,3)]]
  have "conf_file ?d ?R" "conf_file ?d ?B" using assms(2) by (simp_all add: paths_ok_def)
  with save_domains_effect [OF assms(1,2), of ds] assms(4) obtain fs' where
    "save_domains paths ds fs = (fs', Inr ())"
    "fs_read fs' ?R = Some (managed_text (text_of fs ?R) (unlines (relay_block paths ds)))"
    "fs_read fs' ?B = Some (managed_text (text_of fs ?B) (unlines (bypass_block ds)))"
    by auto
  then show ?thesis
    by (intro exI [of _ fs']) (simp add: text_of_def [of fs'] relay bypass)
qed

section \<open>Witnesses\<close>

definition sample_fs :: file_system where
  "sample_fs =
     \<lparr>fs_files =
        [(path_from ''/etc/dnsmasq.d/routed.conf'',
            Some (unlines [''address=/old.example/1.2.3.4'', ''filter-AAAA''])),
         (path_from ''/etc/dnsmasq.d/extra.conf'', Some (unlines [''server=/x.example/#'', ''no-resolv''])),
         (path_from ''/etc/dnsmasq.d/README'', None)],
      fs_dirs = [path_from ''/etc/dnsmasq.d''], fs_can_write = (\<lambda>_. True)\<rparr>"

definition sample_paths :: dnsmasq_paths where
  "sample_paths =
     \<lparr>dp_conf_dir = path_from ''/etc/dnsmasq.d'', dp_relay_file = path_from ''/etc/dnsmasq.d/routed.conf'',
      dp_bypass_file = path_from ''/etc/dnsmasq.d/bypass.conf'', dp_relay_ip = ''9.9.9.9'', dp_reload_cmd = None\<rparr>"

definition sample_domains :: "dns_domain list" where
  "sample_domains =
     [\<lparr>dd_pattern = '' New.game '', dd_mode = ''relay'', dd_source = []\<rparr>,
      \<lparr>dd_pattern = ''voice.example'', dd_mode = ''direct'', dd_source = []\<rparr>,
      \<lparr>dd_pattern = ''Voice.example'', dd_mode = ''relay'', dd_source = []\<rparr>]"

lemma sample_ready:
  "conf_ready (dp_conf_dir sample_paths) sample_fs"
  "conf_ready (dp_conf_dir (sample_paths\<lparr>dp_bypass_file := dp_relay_file sample_paths\<rparr>)) sample_fs"
proof -
  have "path_extension (path_from ''/etc/dnsmasq.d/README'') = None"
    "distinct (map fst (fs_files sample_fs))"
    by code_simp+
  then show "conf_ready (dp_conf_dir sample_paths) sample_fs"
    by (auto simp: conf_ready_def sample_fs_def sample_paths_def fs_wf_def hm_wf_def is_dir_def
        hm_get_def conf_file_def is_conf_def split: if_splits)
  then show "conf_ready (dp_conf_dir (sample_paths\<lparr>dp_bypass_file := dp_relay_file sample_paths\<rparr>)) sample_fs"
    by simp
qed

lemma sample_ok:
  "paths_ok sample_paths" "paths_ok (sample_paths\<lparr>dp_bypass_file := dp_relay_file sample_paths\<rparr>)"
  "patterns_ok sample_domains" "dp_relay_file sample_paths \<noteq> dp_bypass_file sample_paths"
  by code_simp+

theorem dnsmasq_save_load_witness:
  "\<exists>fs' ds'. save_domains sample_paths sample_domains sample_fs = (fs', Inr ())
     \<and> load_domains fs' sample_paths = Inr ds'
     \<and> rule_key ` set ds' = wanted_rules sample_domains"
  using dnsmasq_save_load [OF sample_ready(1) sample_ok(1,3,4)] by blast

theorem dnsmasq_shared_file_loses_relay_witness:
  "\<exists>fs' ds'. save_domains (sample_paths\<lparr>dp_bypass_file := dp_relay_file sample_paths\<rparr>) sample_domains sample_fs
       = (fs', Inr ())
     \<and> load_domains fs' (sample_paths\<lparr>dp_bypass_file := dp_relay_file sample_paths\<rparr>) = Inr ds'
     \<and> rule_key ` set ds' = (\<lambda>p. (p, ''bypass'')) ` bypass_set sample_domains"
  using dnsmasq_shared_file_loses_relay [OF sample_ready(2) sample_ok(2,3)] by simp


theorem dnsmasq_save_grows_witness:
  "\<exists>fs'. save_domains sample_paths sample_domains sample_fs = (fs', Inr ())
     \<and> count_list (trimmed_lines (text_of fs' (dp_relay_file sample_paths))) OTHER_LINE = 1"
proof -
  have "count_list (trimmed_lines (text_of sample_fs (dp_relay_file sample_paths))) OTHER_LINE = 0"
    by code_simp
  with dnsmasq_save_grows [OF sample_ready(1) sample_ok(1,3,4)] show ?thesis by auto
qed

end
