(* ===== verification/Relay_Ufw.thy ===== *)
theory Relay_Ufw
  imports Relay_Host
begin

text \<open>
  The firewall rules of \<open>src/ufw.rs\<close>: the whitelist is mirrored into the host's ufw by running its
  command line, inside Docker through \<open>nsenter\<close>. What ufw answers is the parameter \<open>host_run\<close>. The
  lemmas give the commands each operation runs, whatever ufw answers, and an address whose rule is
  taken for another's.
\<close>

section \<open>Operations\<close>

datatype ufw_invoke = Nsenter string string | DirectUfw string

definition host_ufw_path :: "string option \<Rightarrow> string" where
  "host_ufw_path configured =
     (case configured of Some s \<Rightarrow> if s \<noteq> [] then s else ''/usr/sbin/ufw'' | None \<Rightarrow> ''/usr/sbin/ufw'')"

definition NSENTER_HOST_ARGS :: "string list" where
  "NSENTER_HOST_ARGS = [''-t'', ''1'', ''-m'', ''-n'', ''--'']"

definition resolve_invoke :: "host \<Rightarrow> string option \<Rightarrow> ufw_invoke" where
  "resolve_invoke h configured =
     (let ufw = host_ufw_path configured
      in if in_docker h then
           (case nsenter_bin h of Some ns \<Rightarrow> Nsenter ns ufw | None \<Rightarrow> DirectUfw ufw)
         else DirectUfw ufw)"

definition rule_comment :: "string option \<Rightarrow> string" where
  "rule_comment username =
     (case map_option trim username of
        Some u \<Rightarrow> if u \<noteq> [] then ''snirelay:'' @ u else ''snirelay-whitelist''
      | None \<Rightarrow> ''snirelay-whitelist'')"

datatype ufw_error = UfwExec "string list" | UfwFailed "string list" string

definition ufw_command :: "host \<Rightarrow> string option \<Rightarrow> string list \<Rightarrow> string list" where
  "ufw_command h configured args =
     (case resolve_invoke h configured of
        Nsenter ns ufw \<Rightarrow> ns # NSENTER_HOST_ARGS @ ufw # args
      | DirectUfw ufw \<Rightarrow> ufw # args)"

text \<open>The hint appended to permission errors, in the bytes of the source.\<close>

definition PERMISSION_HINT :: string where
  "PERMISSION_HINT = '' '' @ [CHR 0xE2, CHR 0x80, CHR 0x94]
     @ '' ensure docker-compose has `pid: host` and `privileged: true`, then recreate the container''"

definition ufw_message :: "command_output \<Rightarrow> string" where
  "ufw_message output =
     (let stdout = trim (out_stdout output);
          stderr = trim (out_stderr output);
          msg = (if stderr \<noteq> [] then stderr else if stdout \<noteq> [] then stdout
                 else ''exit '' @ out_status output)
      in if contains_sub msg ''Permission denied'' \<or> contains_sub msg ''cannot open /proc/1''
         then msg @ PERMISSION_HINT else msg)"

definition run_ufw ::
    "host \<Rightarrow> string option \<Rightarrow> string list \<Rightarrow> commands \<Rightarrow> commands \<times> (ufw_error + string)" where
  "run_ufw h configured args hist =
     (case run_command h (ufw_command h configured args) hist of
        (hist, None) \<Rightarrow> (hist, Inl (UfwExec args))
      | (hist, Some output) \<Rightarrow>
          (hist,
           if \<not> out_success output then Inl (UfwFailed args (ufw_message output))
           else Inr (let stdout = trim (out_stdout output)
                     in if stdout = [] then trim (out_stderr output) else stdout)))"

definition ufw_available :: "host \<Rightarrow> string option \<Rightarrow> commands \<Rightarrow> commands \<times> bool" where
  "ufw_available h configured hist =
     (case run_ufw h configured [''status''] hist of (hist, r) \<Rightarrow> (hist, case r of Inl _ \<Rightarrow> False | Inr _ \<Rightarrow> True))"

definition status_allows :: "string \<Rightarrow> string \<Rightarrow> bool" where
  "status_allows status ip =
     list_ex (\<lambda>line. contains_sub line ip
         \<and> (contains_sub line ''ALLOW'' \<or> contains_sub (to_lowercase line) ''allow'')) (lines status)"

definition rule_exists ::
    "host \<Rightarrow> string option \<Rightarrow> string \<Rightarrow> commands \<Rightarrow> commands \<times> (ufw_error + bool)" where
  "rule_exists h configured ip hist =
     (case run_ufw h configured [''status''] hist of
        (hist, Inl e) \<Rightarrow> (hist, Inl e)
      | (hist, Inr status) \<Rightarrow> (hist, Inr (status_allows status ip)))"

definition delete_ip ::
    "host \<Rightarrow> string \<Rightarrow> string option \<Rightarrow> commands \<Rightarrow> commands \<times> (ufw_error + string)" where
  "delete_ip h ip configured hist =
     (case rule_exists h configured ip hist of
        (hist, Inl e) \<Rightarrow> (hist, Inl e)
      | (hist, Inr False) \<Rightarrow> (hist, Inr ''not present'')
      | (hist, Inr True) \<Rightarrow> run_ufw h configured [''--force'', ''delete'', ''allow'', ''from'', ip] hist)"

definition allow_ip ::
    "host \<Rightarrow> string \<Rightarrow> string option \<Rightarrow> string option \<Rightarrow> commands \<Rightarrow> commands \<times> (ufw_error + string)" where
  "allow_ip h ip username configured hist =
     (let comment = rule_comment username
      in case rule_exists h configured ip hist of
           (hist, Inl e) \<Rightarrow> (hist, Inl e)
         | (hist, Inr found) \<Rightarrow>
             (let hist = (if found then fst (delete_ip h ip configured hist) else hist)
              in run_ufw h configured [''allow'', ''from'', ip, ''comment'', comment] hist))"

section \<open>Commands that are run\<close>

definition status_command :: "host \<Rightarrow> string option \<Rightarrow> string list" where
  "status_command h configured = ufw_command h configured [''status'']"

definition delete_command :: "host \<Rightarrow> string option \<Rightarrow> string \<Rightarrow> string list" where
  "delete_command h configured ip = ufw_command h configured [''--force'', ''delete'', ''allow'', ''from'', ip]"

definition allow_command :: "host \<Rightarrow> string option \<Rightarrow> string \<Rightarrow> string option \<Rightarrow> string list" where
  "allow_command h configured ip username =
     ufw_command h configured [''allow'', ''from'', ip, ''comment'', rule_comment username]"

lemma run_ufw_history: "run_ufw h c args hist = (hist', r) \<Longrightarrow> hist' = hist @ [ufw_command h c args]"
  by (auto simp: run_ufw_def run_command_def split: option.splits)

lemma rule_exists_history: "rule_exists h c ip hist = (hist', r) \<Longrightarrow> hist' = hist @ [status_command h c]"
  by (auto simp: rule_exists_def status_command_def split: prod.splits sum.splits dest: run_ufw_history)

lemma rule_exists_status:
  "rule_exists h c ip hist = (hist', Inr b) \<Longrightarrow>
     \<exists>status. run_ufw h c [''status''] hist = (hist', Inr status) \<and> b = status_allows status ip"
  by (auto simp: rule_exists_def split: prod.splits sum.splits)

lemma delete_ip_history:
  assumes "delete_ip h ip c hist = (hist', r)"
  shows "hist' = hist @ [status_command h c] \<or> hist' = hist @ [status_command h c, delete_command h c ip]"
  using assms
  by (auto simp: delete_ip_def delete_command_def split: prod.splits sum.splits bool.splits
      dest!: rule_exists_history run_ufw_history)

text \<open>
  Mirroring an address into the firewall runs no other commands than \<open>status\<close>, the
  deletion of the rule for that address and one \<open>allow\<close> for it. Allowing runs the \<open>allow\<close> command last,
  exactly once, and only after ufw answered the status query; deleting runs the \<open>delete\<close> command only
  after a status line named the address and an allow action. Neither changes the rule of any other
  address, whatever ufw answers.
\<close>

theorem ufw_commands:
  "(\<forall>hist' r. allow_ip h ip username c hist = (hist', r) \<longrightarrow>
      (let status = status_command h c; del = delete_command h c ip; allow = allow_command h c ip username
       in hist' \<in> (\<lambda>t. hist @ t) ` {[status], [status, allow], [status, status, allow], [status, status, del, allow]}
          \<and> (r \<in> range Inr \<longrightarrow> hist' \<noteq> hist @ [status])))
   \<and> (\<forall>hist' r. delete_ip h ip c hist = (hist', r) \<longrightarrow>
        hist' = hist @ [status_command h c]
        \<or> (hist' = hist @ [status_command h c, delete_command h c ip]
           \<and> (\<exists>status. snd (run_ufw h c [''status''] hist) = Inr status \<and> status_allows status ip)))"
proof -
  have "let status = status_command h c; del = delete_command h c ip; allow = allow_command h c ip username
       in hist' \<in> (\<lambda>t. hist @ t) ` {[status], [status, allow], [status, status, allow], [status, status, del, allow]}
          \<and> (r \<in> range Inr \<longrightarrow> hist' \<noteq> hist @ [status])"
    if "allow_ip h ip username c hist = (hist', r)" for hist' r
  proof -
    obtain h1 q where q: "rule_exists h c ip hist = (h1, q)" by fastforce
    have h1: "h1 = hist @ [status_command h c]" using q by (rule rule_exists_history)
    show ?thesis
    proof (cases q)
      case (Inl e)
      with that q h1 show ?thesis by (auto simp: allow_ip_def)
    next
      case (Inr found)
      obtain h2 d where d: "delete_ip h ip c h1 = (h2, d)" by fastforce
      have "hist' = (if found then h2 else h1) @ [allow_command h c ip username]"
        using that q Inr d
        by (auto simp: allow_ip_def allow_command_def Let_def dest!: run_ufw_history split: if_splits)
      then show ?thesis
        using delete_ip_history [OF d] h1 by (auto simp: Let_def)
    qed
  qed
  moreover have "hist' = hist @ [status_command h c]
      \<or> (hist' = hist @ [status_command h c, delete_command h c ip]
         \<and> (\<exists>status. snd (run_ufw h c [''status''] hist) = Inr status \<and> status_allows status ip))"
    if "delete_ip h ip c hist = (hist', r)" for hist' r
  proof -
    obtain h1 q where q: "rule_exists h c ip hist = (h1, q)" by fastforce
    have "hist' = h1" if "q \<noteq> Inr True"
      using that \<open>delete_ip h ip c hist = (hist', r)\<close> q
      by (auto simp: delete_ip_def split: sum.splits bool.splits)
    then show ?thesis
      using delete_ip_history [OF that] rule_exists_history [OF q] rule_exists_status [of h c ip hist h1 True] q
      by (cases "q = Inr True") auto
  qed
  ultimately show ?thesis by blast
qed

definition sample_host :: host where
  "sample_host = \<lparr>host_exists = (\<lambda>_. False),
     host_run = (\<lambda>_ cmd. Some \<lparr>out_success = True,
       out_stdout = (if last cmd = ''status'' then ''Anywhere ALLOW 10.0.0.5'' else ''Rule added''),
       out_stderr = [], out_status = []\<rparr>)\<rparr>"

definition sample_trace :: commands where
  "sample_trace = [status_command sample_host None, status_command sample_host None,
     delete_command sample_host None ''10.0.0.5'', allow_command sample_host None ''10.0.0.5'' (Some ''ada'')]"

lemma sample_allow: "allow_ip sample_host ''10.0.0.5'' (Some ''ada'') None [] = (sample_trace, Inr ''Rule added'')"
  by code_simp

lemma sample_delete:
  "delete_ip sample_host ''10.0.0.5'' None []
     = ([status_command sample_host None, delete_command sample_host None ''10.0.0.5''], Inr ''Rule added'')"
  by code_simp

theorem ufw_commands_witness:
  "sample_trace \<noteq> [status_command sample_host None]
   \<and> (\<exists>status. snd (run_ufw sample_host None [''status''] []) = Inr status \<and> status_allows status ''10.0.0.5'')"
  using ufw_commands [of sample_host "''10.0.0.5''" "Some ''ada''" None "[]"]
  by (simp add: sample_allow sample_delete Let_def)

text \<open>
  A rule is recognised by a substring of a status line: the rule of another client,
  whose address contains the given one, is taken for it.
\<close>

theorem ufw_rule_mistaken:
  "status_allows (unlines [''To                         Action      From'',
                           ''Anywhere                   ALLOW       11.2.3.45'']) ''1.2.3.4''"
  by code_simp

end
