(* ===== verification/Relay_Panel.thy ===== *)
theory Relay_Panel
  imports Relay_Acl Relay_Registry Relay_Metrics Relay_Dnsmasq Relay_Ufw Relay_PanelDb
begin

text \<open>
  The admin panel of \<open>src/panel/mod.rs\<close>: the state its handlers share with the relay, the admin
  password, the session cookie, the static pages and the configuration file the panel writes back.
  Password hashing (argon2), the token generator, the YAML library, the embedded assets, the clock and
  the host are parameters. Requests reach the handlers decoded; the handlers are in \<open>Relay_Api\<close>.
\<close>

section \<open>State and environment\<close>

text \<open>A YAML document; \<open>YOther\<close> stands for the scalars the panel does not touch.\<close>

datatype yaml =
    YMap "(string, yaml) hash_map"
  | YSeq "yaml list"
  | YStr string
  | YBool bool
  | YInt nat
  | YNull
  | YOther string

record panel_env =
  pv_clock :: clock
  pv_now :: nat
  pv_token :: string
  pv_hash :: "string \<Rightarrow> string option"
  pv_verify :: "string \<Rightarrow> string \<Rightarrow> bool"
  pv_admin_password :: "string option"
  pv_rx :: regex_crate
  pv_yaml_parse :: "string \<Rightarrow> yaml option"
  pv_yaml_print :: "yaml \<Rightarrow> string option"
  pv_host :: host
  pv_asset :: "string \<Rightarrow> bool"
  pv_version :: string

record panel_state =
  pa_db :: panel_db
  pa_cfg :: app_config
  pa_upstream_ok :: bool
  pa_metrics :: metrics
  pa_hosts_live :: "hosts_table option"
  pa_hosts_entries :: "hosts_entry list"
  pa_registry :: upstream_registry
  pa_acl :: client_acl
  pa_config_path :: path
  pa_fs :: file_system
  pa_commands :: commands

section \<open>Password and cookie\<close>

datatype panel_error =
    DbOpenFailed string
  | DbError db_error
  | HashFailed
  | BadPanelAddr string
  | PanelBindFailed socket_addr

definition ensure_admin_password :: "panel_env \<Rightarrow> panel_db \<Rightarrow> panel_db \<times> (panel_error + unit)" where
  "ensure_admin_password env db =
     (case get_setting ''admin_password_hash'' db of
        Inl e \<Rightarrow> (db, Inl (DbError e))
      | Inr (Some _) \<Rightarrow> (db, Inr ())
      | Inr None \<Rightarrow>
          (case pv_hash env (case pv_admin_password env of Some p \<Rightarrow> p | None \<Rightarrow> ''snirelay'') of
             None \<Rightarrow> (db, Inl HashFailed)
           | Some h \<Rightarrow>
               (case set_setting ''admin_password_hash'' h db of
                  (db, Inl e) \<Rightarrow> (db, Inl (DbError e))
                | (db, Inr _) \<Rightarrow> (db, Inr ()))))"

text \<open>The first \<open>Cookie\<close> header, if it is visible ASCII.\<close>

fun find_map :: "('a \<Rightarrow> 'b option) \<Rightarrow> 'a list \<Rightarrow> 'b option" where
  "find_map f [] = None"
| "find_map f (x # xs) = (case f x of Some y \<Rightarrow> Some y | None \<Rightarrow> find_map f xs)"

definition session_token_from_headers :: "string option \<Rightarrow> string option" where
  "session_token_from_headers cookie =
     (case cookie of
        None \<Rightarrow> None
      | Some cookies \<Rightarrow>
          find_map (\<lambda>c. strip_prefix ''snirelay_session='' (trim c))
            (split_pred (\<lambda>c. c = CHR '';'') [] cookies))"

section \<open>Static pages\<close>

datatype page = PageAsset string | PageNotFound string

definition serve_asset :: "panel_env \<Rightarrow> string \<Rightarrow> page" where
  "serve_asset env p =
     (if pv_asset env p then PageAsset p
      else if pv_asset env ''index.html'' then PageAsset ''index.html''
      else PageNotFound ''panel assets missing'')"

definition index_handler :: "panel_env \<Rightarrow> page" where
  "index_handler env = serve_asset env ''index.html''"

definition static_handler :: "panel_env \<Rightarrow> string \<Rightarrow> page" where
  "static_handler env raw =
     (let p = dropWhile (\<lambda>c. c = CHR ''/'') raw
      in if p = [] \<or> p = ''index.html'' then serve_asset env ''index.html''
         else if starts_with p ''api/'' then PageNotFound ''not found''
         else serve_asset env p)"

section \<open>Start\<close>

definition DEFAULT_CONFIG_PATH :: string where
  "DEFAULT_CONFIG_PATH = ''/etc/sniproxy/config.yaml''"

text \<open>
  \<open>start_panel\<close> up to the point where the server task is spawned: the database is open, the password
  exists, the address is bound, and the shared tables are those of the configuration. With the panel
  disabled only the database and the hosts table are set up. \<open>open_db\<close> is what SQLite makes of a
  path and \<open>can_bind\<close> whether an address can be bound.
\<close>

definition start_panel ::
    "panel_env \<Rightarrow> (string \<Rightarrow> panel_db option) \<Rightarrow> (socket_addr \<Rightarrow> bool) \<Rightarrow> app_config \<Rightarrow> bool \<Rightarrow> upstream_registry
     \<Rightarrow> client_acl \<Rightarrow> metrics \<Rightarrow> file_system \<Rightarrow> panel_error + panel_state option" where
  "start_panel env open_db can_bind cfg upstream_ok registry acl mt fs =
     (let pc = panel cfg
      in case open_db (pn_db_path pc) of
           None \<Rightarrow> Inl (DbOpenFailed (pn_db_path pc))
         | Some db \<Rightarrow>
             if \<not> pn_enabled pc then Inr None
             else case ensure_admin_password env db of
                    (_, Inl e) \<Rightarrow> Inl e
                  | (db, Inr _) \<Rightarrow>
                      (case parse_socket_addr (pn_addr pc) of
                         None \<Rightarrow> Inl (BadPanelAddr (pn_addr pc))
                       | Some addr \<Rightarrow>
                           if \<not> can_bind addr then Inl (PanelBindFailed addr)
                           else Inr (Some \<lparr>pa_db = db, pa_cfg = cfg, pa_upstream_ok = upstream_ok, pa_metrics = mt,
                                  pa_hosts_live = hosts_tbl cfg, pa_hosts_entries = hosts cfg,
                                  pa_registry = registry, pa_acl = acl,
                                  pa_config_path = path_from (case config_path cfg of
                                    Some p \<Rightarrow> p | None \<Rightarrow> DEFAULT_CONFIG_PATH),
                                  pa_fs = fs, pa_commands = []\<rparr>)))"

section \<open>Writing the configuration back\<close>

datatype persist_error = CfgRead path | CfgParse | CfgNotMapping | CfgPrint | CfgWrite path

definition yaml_str_opt :: "string option \<Rightarrow> yaml" where
  "yaml_str_opt s = (case s of Some t \<Rightarrow> YStr t | None \<Rightarrow> YNull)"

definition hosts_value :: "hosts_entry list \<Rightarrow> yaml" where
  "hosts_value hs = YSeq (map (\<lambda>e. YMap [(''pattern'', YStr (he_pattern e)), (''address'', YStr (he_address e))]) hs)"

fun upstream_value :: "upstream_proxy \<Rightarrow> yaml" where
  "upstream_value (Socks5 host port username password) =
     YMap [(''type'', YStr ''socks5''), (''host'', YStr host), (''port'', YInt (unat port)),
       (''username'', yaml_str_opt username), (''password'', yaml_str_opt password)]"
| "upstream_value (Http host port auth) =
     YMap [(''type'', YStr ''http''), (''host'', YStr host), (''port'', YInt (unat port)),
       (''auth'', yaml_str_opt auth)]"
| "upstream_value Direct = YMap [(''type'', YStr ''direct'')]"

fun whitelist_value :: "yaml_whitelist \<Rightarrow> yaml" where
  "whitelist_value (YIp ip) = YStr ip"
| "whitelist_value (YObj ip username) = YMap [(''ip'', YStr ip), (''username'', yaml_str_opt username)]"

text \<open>
  The three \<open>persist_*_yaml\<close> functions read the file, set some keys of the root mapping and write the
  result; they differ in the keys.
\<close>

definition persist_yaml ::
    "panel_env \<Rightarrow> path \<Rightarrow> (string \<times> yaml) list \<Rightarrow> file_system \<Rightarrow> file_system \<times> (persist_error + unit)" where
  "persist_yaml env p kvs fs =
     (case fs_read fs p of
        None \<Rightarrow> (fs, Inl (CfgRead p))
      | Some content \<Rightarrow>
          (case pv_yaml_parse env content of
             None \<Rightarrow> (fs, Inl CfgParse)
           | Some (YMap m) \<Rightarrow>
               (case pv_yaml_print env (YMap (foldl (\<lambda>m (k, v). hm_insert k v m) m kvs)) of
                  None \<Rightarrow> (fs, Inl CfgPrint)
                | Some out \<Rightarrow>
                    (case fs_write p out fs of
                       None \<Rightarrow> (fs, Inl (CfgWrite p))
                     | Some fs \<Rightarrow> (fs, Inr ())))
           | Some _ \<Rightarrow> (fs, Inl CfgNotMapping)))"

definition persist_hosts_yaml ::
    "panel_env \<Rightarrow> path \<Rightarrow> hosts_entry list \<Rightarrow> file_system \<Rightarrow> file_system \<times> (persist_error + unit)" where
  "persist_hosts_yaml env p hs = persist_yaml env p [(''hosts'', hosts_value hs)]"

definition upstreams_keys :: "upstream_registry \<Rightarrow> (string \<times> yaml) list" where
  "upstreams_keys registry =
     [(''upstreams'', YMap (map (\<lambda>(name, p). (name, upstream_value p)) (reg_profiles registry))),
      (''default_upstream'', YStr (reg_default registry)),
      (''client_upstreams'', YMap (map (\<lambda>(ip, profile). (ip, YStr profile)) (reg_by_ip registry))),
      (''upstream_failover'', YBool (reg_failover registry)),
      (''upstream_proxy'', upstream_value (case default_proxy registry of Inr p \<Rightarrow> p | Inl _ \<Rightarrow> Direct))]"

definition persist_upstreams_yaml ::
    "panel_env \<Rightarrow> path \<Rightarrow> upstream_registry \<Rightarrow> file_system \<Rightarrow> file_system \<times> (persist_error + unit)" where
  "persist_upstreams_yaml env p registry = persist_yaml env p (upstreams_keys registry)"

definition persist_whitelist_yaml ::
    "panel_env \<Rightarrow> path \<Rightarrow> client_acl \<Rightarrow> file_system \<Rightarrow> file_system \<times> (persist_error + unit)" where
  "persist_whitelist_yaml env p acl =
     persist_yaml env p
       [(''client_whitelist'', YSeq (map (whitelist_value \<circ> serialize_whitelist) (as_entries acl))),
        (''client_whitelist_ufw'', YBool (acl_ufw_sync acl))]"

section \<open>Reading back\<close>

fun yaml_get :: "yaml \<Rightarrow> string \<Rightarrow> yaml option" where
  "yaml_get (YMap m) k = hm_get m k"
| "yaml_get _ k = None"

fun yaml_wf :: "yaml \<Rightarrow> bool" where
  "yaml_wf (YMap m) = hm_wf m"
| "yaml_wf _ = True"

text \<open>The configuration file as a document.\<close>

definition config_doc :: "panel_env \<Rightarrow> file_system \<Rightarrow> path \<Rightarrow> yaml option" where
  "config_doc env fs p = fs_read fs p \<bind> pv_yaml_parse env"


definition toy_env :: panel_env where
  "toy_env = \<lparr>pv_clock = sample_clock, pv_now = 0, pv_token = ''t'', pv_hash = (\<lambda>p. Some (''h'' @ p)),
     pv_verify = (\<lambda>p h. h = ''h'' @ p), pv_admin_password = None, pv_rx = any_rx,
     pv_yaml_parse = (\<lambda>s. if s = ''e'' then Some (YMap []) else if s = ''f'' then Some (YMap [(''k'', YBool True)]) else None),
     pv_yaml_print = (\<lambda>y. if y = YMap [(''k'', YBool True)] then Some ''f'' else None),
     pv_host = \<lparr>host_exists = (\<lambda>_. False), host_run = (\<lambda>_ _. None)\<rparr>, pv_asset = (\<lambda>_. False), pv_version = ''1''\<rparr>"


end
