(* ===== verification/Relay_Api_Laws.thy ===== *)
theory Relay_Api_Laws
  imports Relay_Api
begin

text \<open>
  What the panel's handlers guarantee together: access control, the invariants of the shared tables,
  confidentiality of the upstream secrets, and the life of a login.
\<close>

section \<open>Access control\<close>

definition open_route :: "request \<Rightarrow> bool" where
  "open_route r \<longleftrightarrow> r = Health \<or> r = Logout \<or> (\<exists>password. r = Login password)"

lemmas authed_handlers =
  me_def change_password_def api_stats_def traffic_ips_def traffic_ip_detail_def traffic_daily_def
  api_list_domains_def create_domain_def replace_domains_def api_update_domain_def api_delete_domain_def
  api_import_domains_def dnsmasq_export_def dnsmasq_apply_def dnsmasq_reload_def api_list_dns_queries_def
  dns_queries_top_def api_clear_dns_queries_def config_summary_def get_hosts_def put_hosts_def get_upstreams_def
  put_upstreams_def add_client_upstream_def delete_client_upstream_def get_whitelist_def put_whitelist_def
  add_whitelist_ip_def delete_whitelist_ip_def

lemma guarded_route: "\<not> open_route r \<Longrightarrow> \<exists>h. api_router r = authed h"
  by (cases r) (auto simp: open_route_def authed_handlers)

text \<open>What a change of sessions leaves alone.\<close>

definition same_but_sessions :: "panel_state \<Rightarrow> panel_state \<Rightarrow> bool" where
  "same_but_sessions st st' \<longleftrightarrow> st' = st\<lparr>pa_db := (pa_db st)\<lparr>pd_sessions := pd_sessions (pa_db st')\<rparr>\<rparr>"

definition password_ok :: "panel_env \<Rightarrow> string \<Rightarrow> panel_state \<Rightarrow> bool" where
  "password_ok env password st \<longleftrightarrow>
     (\<exists>hash. get_setting ''admin_password_hash'' (pa_db st) = Inr (Some hash) \<and> pv_verify env password hash)"

lemma login_wrong: "\<not> password_ok env password st \<Longrightarrow>
    fst (login password env cookie st) = st \<and> rs_cookie (snd (login password env cookie st)) = None"
  by (auto simp: login_def password_ok_def err_def split: sum.splits option.splits)

lemma login_sessions: "same_but_sessions st (fst (login password env cookie st))"
  by (auto simp: login_def same_but_sessions_def on_db_def create_session_def statement_def
      split: sum.splits option.splits)

lemma logout_sessions:
  "same_but_sessions st (fst (logout env cookie st))
   \<and> pd_sessions (pa_db (fst (logout env cookie st))) =
       (case session_token_from_headers cookie of
          Some token \<Rightarrow> if pd_online (pa_db st) then hm_remove token (pd_sessions (pa_db st)) else pd_sessions (pa_db st)
        | None \<Rightarrow> pd_sessions (pa_db st))"
  by (auto simp: logout_def same_but_sessions_def on_db_def delete_session_def statement_def Let_def split: option.splits)

text \<open>A session of the cookie's token is in the table and has not expired.\<close>

definition live_session :: "panel_env \<Rightarrow> cookie \<Rightarrow> panel_state \<Rightarrow> bool" where
  "live_session env cookie st \<longleftrightarrow>
     (\<exists>token created expires. session_token_from_headers cookie = Some token
        \<and> (token, created, expires) \<in> set (pd_sessions (pa_db st)) \<and> ck_rfc3339 (pv_clock env) (pv_now env) < expires)"

lemma require_auth_live: "require_auth env cookie st \<Longrightarrow> live_session env cookie st"
  by (auto simp: require_auth_def session_valid_def live_session_def dest!: hm_get_SomeD split: option.splits if_splits)

text \<open>C14: 
  The panel's data are behind the login. A request without a valid session gets the
  same answer 401 whatever the panel holds and changes nothing, on every route but three: the health
  check, which changes nothing, the login, which changes nothing and sets no cookie unless the
  password is the admin's, and then only the table of sessions, and the logout, which removes no other
  session than the one it carries.
\<close>

theorem panel_requires_login:
  assumes "\<not> live_session env cookie st"
  shows "(\<not> open_route r \<longrightarrow> api_router r env cookie st = (st, unauthorized))
    \<and> fst (api_router Health env cookie st) = st
    \<and> (\<not> password_ok env password st \<longrightarrow> fst (api_router (Login password) env cookie st) = st
         \<and> rs_cookie (snd (api_router (Login password) env cookie st)) = None)
    \<and> same_but_sessions st (fst (api_router (Login password) env cookie st))
    \<and> same_but_sessions st (fst (api_router Logout env cookie st))
    \<and> (\<forall>token. session_token_from_headers cookie \<noteq> Some token \<longrightarrow> hm_wf (pd_sessions (pa_db st)) \<longrightarrow>
         hm_get (pd_sessions (pa_db (fst (api_router Logout env cookie st)))) token = hm_get (pd_sessions (pa_db st)) token)"
proof (intro conjI impI allI)
  assume "\<not> open_route r"
  then obtain h where "api_router r = authed h" using guarded_route by blast
  moreover have "\<not> require_auth env cookie st" using assms require_auth_live by blast
  ultimately show "api_router r env cookie st = (st, unauthorized)" by (simp add: authed_def)
next
  show "fst (api_router Health env cookie st) = st" by (simp add: health_def)
next
  fix token assume "session_token_from_headers cookie \<noteq> Some token" "hm_wf (pd_sessions (pa_db st))"
  then show "hm_get (pd_sessions (pa_db (fst (api_router Logout env cookie st)))) token = hm_get (pd_sessions (pa_db st)) token"
    using logout_sessions [of st env cookie] by (auto simp: hm.get_remove split: option.splits)
qed (use login_wrong login_sessions logout_sessions in simp_all)

definition toy_state :: panel_state where
  "toy_state = \<lparr>pa_db = empty_db\<lparr>pd_settings := [(''admin_password_hash'', ''hsecret'')]\<rparr>,
     pa_cfg = default_app_config, pa_upstream_ok = False,
     pa_metrics = no_metrics, pa_hosts_live = None, pa_hosts_entries = [], pa_registry = example_registry,
     pa_acl = \<lparr>acl_entries = [], acl_ufw_sync = False\<rparr>, pa_config_path = path_from ''/c'',
     pa_fs = \<lparr>fs_files = [], fs_dirs = [], fs_can_write = (\<lambda>_. True)\<rparr>, pa_commands = []\<rparr>"

definition auth_state :: panel_state where
  "auth_state = toy_state\<lparr>pa_db := empty_db\<lparr>pd_sessions := [(''x'', [], ''0'')]\<rparr>\<rparr>"

definition auth_cookie :: cookie where
  "auth_cookie = Some ''snirelay_session=x''"

lemma auth_state_auth: "require_auth toy_env auth_cookie auth_state"
proof -
  have "session_token_from_headers auth_cookie = Some ''x''" by code_simp
  then show ?thesis
    by (simp add: require_auth_def session_valid_def auth_state_def toy_env_def sample_clock_def empty_db_def hm_get_def)
qed

lemma auth_state_registry: "registry_ok (pa_registry auth_state)" "pa_registry auth_state = example_registry"
proof -
  show eq: "pa_registry auth_state = example_registry" by (simp add: auth_state_def toy_state_def)
  have "registry_ok example_registry" by code_simp
  with eq show "registry_ok (pa_registry auth_state)" by simp
qed

theorem panel_requires_login_witness:
  "api_router ClearDnsQueries toy_env (Some ''snirelay_session=guess'') toy_state = (toy_state, unauthorized)
   \<and> fst (api_router (Login ''guess'') toy_env None toy_state) = toy_state"
proof -
  have no: "\<not> live_session toy_env (Some ''snirelay_session=guess'') toy_state" "\<not> live_session toy_env None toy_state"
    by (simp_all add: live_session_def toy_state_def empty_db_def)
  have "\<not> password_ok toy_env ''guess'' toy_state"
    by (simp add: password_ok_def toy_state_def toy_env_def empty_db_def get_setting_def hm_get_def)
  moreover have "\<not> open_route ClearDnsQueries" by (simp add: open_route_def)
  ultimately show ?thesis
    using panel_requires_login [OF no(1), of ClearDnsQueries] panel_requires_login [OF no(2), where password = "''guess''"]
    by blast
qed

section \<open>Invariants of the shared tables\<close>

text \<open>The tables the relay reads: registry, client list, and the hosts table compiled from its rows.\<close>

definition panel_ok :: "panel_env \<Rightarrow> panel_state \<Rightarrow> bool" where
  "panel_ok env st \<longleftrightarrow> db_ok (pa_db st) \<and> registry_ok (pa_registry st) \<and> acl_ok (pa_acl st)
     \<and> compile_hosts_table (pv_rx env) (pa_hosts_entries st) = Inr (pa_hosts_live st)"

fun payload_ok :: "request \<Rightarrow> bool" where
  "payload_ok (PutUpstreams body) = hm_wf (up_upstreams body)"
| "payload_ok _ = True"

definition keeps :: "panel_env \<Rightarrow> handler \<Rightarrow> bool" where
  "keeps env h \<longleftrightarrow> (\<forall>cookie st. panel_ok env st \<longrightarrow> panel_ok env (fst (h env cookie st)))"

lemma keeps_authed: "(\<And>cookie st. panel_ok env st \<Longrightarrow> panel_ok env (fst (h env cookie st))) \<Longrightarrow> keeps env (authed h)"
  by (simp add: keeps_def authed_def)

text \<open>Files, commands and metrics are not part of the invariant.\<close>

lemma panel_ok_frame [simp]:
  "panel_ok env (st\<lparr>pa_fs := fs\<rparr>) = panel_ok env st" "panel_ok env (st\<lparr>pa_commands := cmds\<rparr>) = panel_ok env st"
  by (simp_all add: panel_ok_def)

lemma on_fs_ok: "panel_ok env st \<Longrightarrow> panel_ok env (fst (on_fs f st))"
  by (simp add: on_fs_def split: prod.splits)

lemma on_db_ok: "keeps_ok f \<Longrightarrow> panel_ok env st \<Longrightarrow> panel_ok env (fst (on_db f st))"
  by (auto simp: on_db_def panel_ok_def keeps_ok_def split: prod.splits)

lemma on_fs_set:
  "fst (on_fs f st) = st\<lparr>pa_fs := fst (f (pa_config_path st) (pa_fs st))\<rparr>"
  by (simp add: on_fs_def split: prod.splits)

lemma save_dnsmasq_ok: "panel_ok env st \<Longrightarrow> panel_ok env (fst (save_dnsmasq env' ds st))"
  by (auto simp: save_dnsmasq_def panel_ok_def split: option.splits prod.splits sum.splits)

lemma saved_ok: "panel_ok env st \<Longrightarrow> panel_ok env (fst (saved_response (save_dnsmasq env' ds st)))"
  using save_dnsmasq_ok [of env st env' ds] by (auto simp: saved_response_def split: prod.splits sum.splits)

lemma with_rules_ok: "panel_ok env st \<Longrightarrow> panel_ok env (fst (with_rules env' paths edit st))"
  by (auto simp: with_rules_def saved_ok split: sum.splits)

lemma acl_ok_from_parts:
  assumes "from_parts rows b = Inr acl"
  shows "acl_ok acl"
proof -
  obtain m where m: "from_parts_loop [] rows = Inr m" "acl = \<lparr>acl_entries = m, acl_ufw_sync = b\<rparr>"
    using assms by (auto simp: from_parts_def split: sum.splits)
  have "list_all (\<lambda>e. normalize_client_ip (wl_ip e) \<noteq> None) rows"
  proof (rule ccontr)
    assume "\<not> ?thesis"
    then obtain w where "find (\<lambda>w. normalize_client_ip (wl_ip w) = None) rows = Some w"
      using find_None_iff_ex [of "\<lambda>w. normalize_client_ip (wl_ip w) = None" rows] by (auto simp: list_all_iff)
    then show False using from_parts_loop_error [of "[]" rows "InvalidWhitelistIp (wl_ip w)"] m(1) by simp
  qed
  then have "m = from_config_loop [] rows" using m(1) from_parts_loop_config [of rows "[]"] by simp
  then show ?thesis using from_config_loop_ok [OF acl_ok_empty, of rows b] m(2) by simp
qed

lemma acl_ok_acl_add:
  assumes "acl_ok acl" and "acl_add acl ip user = Inr (acl', added, u)"
  shows "acl_ok acl'"
  using assms acl_ok_insert [of acl]
  by (auto simp: acl_add_def user_ok_def split: option.splits dest: sanitize_idem normalize_client_ip_idem)

lemma registry_ok_set_client: "registry_ok reg \<Longrightarrow> set_client_upstream reg ip profile = Inr reg' \<Longrightarrow> registry_ok reg'"
  using set_hm_insert
  by (fastforce simp: set_client_upstream_def registry_ok_def hm.inv_insert split: if_splits option.splits)

lemma registry_ok_remove_client: "registry_ok reg \<Longrightarrow> remove_client_upstream reg ip = Inr (reg', b) \<Longrightarrow> registry_ok reg'"
  by (auto simp: remove_client_upstream_def registry_ok_def hm.inv_remove split: option.splits)
    (auto simp: hm_remove_def)

lemma hm_wf_merge: "hm_wf new \<Longrightarrow> hm_wf (merge_profiles old new)"
  by (simp add: hm_wf_def merge_profiles_def comp_def case_prod_beta)

lemma on_db_result: "on_db f st = (st', r) \<Longrightarrow> keeps_ok f \<Longrightarrow> panel_ok env st \<Longrightarrow> panel_ok env st'"
  using on_db_ok [of f env st] by simp

lemma read_only_routes:
  "fst (health env cookie st) = st" "fst (me env cookie st) = st" "fst (api_stats env cookie st) = st"
  "fst (traffic_ips q env cookie st) = st" "fst (traffic_ip_detail ip q env cookie st) = st"
  "fst (traffic_daily q env cookie st) = st" "fst (api_list_domains env cookie st) = st"
  "fst (dnsmasq_export env cookie st) = st" "fst (api_list_dns_queries dq env cookie st) = st"
  "fst (dns_queries_top n env cookie st) = st" "fst (config_summary env cookie st) = st"
  "fst (get_hosts env cookie st) = st" "fst (get_upstreams env cookie st) = st"
proof -
  show "fst (health env cookie st) = st" by (simp add: health_def)
  show "fst (me env cookie st) = st" by (simp add: me_def authed_def)
  show "fst (api_stats env cookie st) = st" by (simp add: api_stats_def authed_def)
  show "fst (traffic_ips q env cookie st) = st"
    by (simp add: traffic_ips_def authed_def split: prod.split sum.split)
  show "fst (traffic_ip_detail ip q env cookie st) = st"
    by (simp add: traffic_ip_detail_def authed_def split: prod.split sum.split)
  show "fst (traffic_daily q env cookie st) = st"
    by (simp add: traffic_daily_def authed_def split: prod.split sum.split)
  show "fst (api_list_domains env cookie st) = st"
    by (simp add: api_list_domains_def authed_def Let_def split: option.split sum.split)
  show "fst (dnsmasq_export env cookie st) = st"
    by (simp add: dnsmasq_export_def authed_def Let_def split: option.split sum.split)
  show "fst (api_list_dns_queries dq env cookie st) = st"
    by (simp add: api_list_dns_queries_def authed_def Let_def split: sum.split)
  show "fst (dns_queries_top n env cookie st) = st"
    by (simp add: dns_queries_top_def authed_def split: sum.split)
  show "fst (config_summary env cookie st) = st" by (simp add: config_summary_def authed_def Let_def)
  show "fst (get_hosts env cookie st) = st" by (simp add: get_hosts_def authed_def)
  show "fst (get_upstreams env cookie st) = st" by (simp add: get_upstreams_def authed_def Let_def)
qed

lemma keeps_session_routes: "keeps env (login password)" "keeps env logout" "keeps env (change_password current new)"
proof -
  show "keeps env (login password)"
    by (auto simp: keeps_def login_def split: option.splits sum.splits prod.splits
        dest: on_db_result [OF _ keeps_operations(2)])
  show "keeps env logout"
    by (auto simp: keeps_def logout_def Let_def on_db_ok keeps_operations split: option.splits)
  show "keeps env (change_password current new)"
    unfolding change_password_def
    by (intro keeps_authed) (simp add: Let_def on_db_ok keeps_operations split: option.split)
qed

lemma db_handler_ok:
  "keeps_ok f \<Longrightarrow> panel_ok env st \<Longrightarrow>
   panel_ok env (fst (case on_db f st of (st, Inr i) \<Rightarrow> (st, good i) | (st, Inl e) \<Rightarrow> (st, bad e)))"
  using on_db_ok [of f env st] by (cases "on_db f st"; cases "snd (on_db f st)") auto

lemma keeps_domain_routes:
  "keeps env (create_domain body)" "keeps env (replace_domains items)" "keeps env (api_update_domain pattern body)"
  "keeps env (api_delete_domain pattern mode)" "keeps env dnsmasq_apply" "keeps env dnsmasq_reload"
  "keeps env api_clear_dns_queries"
proof -
  show "keeps env (create_domain body)"
    unfolding create_domain_def
    by (intro keeps_authed) (simp add: Let_def with_rules_ok db_handler_ok keeps_operations split: option.split)
  show "keeps env (replace_domains items)"
    unfolding replace_domains_def by (intro keeps_authed) (simp add: saved_ok)
  show "keeps env (api_update_domain pattern body)"
    unfolding api_update_domain_def
    by (intro keeps_authed) (simp add: Let_def with_rules_ok db_handler_ok keeps_operations split: option.split)
  show "keeps env (api_delete_domain pattern mode)"
    unfolding api_delete_domain_def
    by (intro keeps_authed) (simp add: Let_def with_rules_ok db_handler_ok keeps_operations split: option.split)
  show "keeps env dnsmasq_apply"
    unfolding dnsmasq_apply_def by (intro keeps_authed) (simp add: with_rules_ok split: option.split)
  show "keeps env dnsmasq_reload"
    unfolding dnsmasq_reload_def by (intro keeps_authed) (simp split: option.split prod.split sum.split)
  show "keeps env api_clear_dns_queries"
    unfolding api_clear_dns_queries_def by (intro keeps_authed) (simp add: db_handler_ok keeps_operations)
qed

lemma import_response_ok:
  "panel_ok env st \<Longrightarrow> panel_ok env (fst (case save_dnsmasq env' items st of
      (st, Inl e) \<Rightarrow> (st, bad e) | (st, Inr v) \<Rightarrow> (st, good v)))"
  using save_dnsmasq_ok [of env st env' items]
  by (cases "save_dnsmasq env' items st"; cases "snd (save_dnsmasq env' items st)") auto

lemma keeps_import: "keeps env (api_import_domains text mode)"
  unfolding api_import_domains_def
  by (intro keeps_authed)
    (simp add: Let_def import_response_ok db_handler_ok keeps_operations case_prod_beta [of _ "import_rules _ _ _"]
      split: option.split sum.split)

lemma keeps_table_routes:
  "keeps env (put_hosts hs)" "hm_wf (up_upstreams body) \<Longrightarrow> keeps env (put_upstreams body)"
  "keeps env (add_client_upstream ip profile)" "keeps env (delete_client_upstream ip)"
proof -
  show "keeps env (put_hosts hs)"
    unfolding put_hosts_def
    by (intro keeps_authed) (auto simp: panel_ok_def on_fs_def split: sum.splits prod.splits)
  show "keeps env (put_upstreams body)" if "hm_wf (up_upstreams body)"
    unfolding put_upstreams_def using hm_wf_merge [OF that]
    by (intro keeps_authed)
      (auto simp: panel_ok_def on_fs_def split: sum.splits prod.splits intro: registry_ok_parts)
  show "keeps env (add_client_upstream ip profile)"
    unfolding add_client_upstream_def
    by (intro keeps_authed)
      (auto simp: panel_ok_def on_fs_def split: sum.splits prod.splits intro: registry_ok_set_client)
  show "keeps env (delete_client_upstream ip)"
    unfolding delete_client_upstream_def
    by (intro keeps_authed)
      (auto simp: panel_ok_def on_fs_def split: sum.splits prod.splits intro: registry_ok_remove_client)
qed

lemma keeps_whitelist_routes:
  "keeps env get_whitelist" "keeps env (put_whitelist body)" "keeps env (add_whitelist_ip ip user)"
  "keeps env (delete_whitelist_ip ip)"
proof -
  show "keeps env get_whitelist"
    unfolding get_whitelist_def by (intro keeps_authed) (auto simp: Let_def split: prod.splits)
  show "keeps env (put_whitelist body)"
    unfolding put_whitelist_def
    by (intro keeps_authed)
      (auto simp: panel_ok_def on_fs_def Let_def split: sum.splits prod.splits dest: acl_ok_from_parts)
  show "keeps env (add_whitelist_ip ip user)"
    unfolding add_whitelist_ip_def
    by (intro keeps_authed)
      (auto simp: panel_ok_def on_fs_def Let_def split: sum.splits prod.splits dest: acl_ok_acl_add)
  show "keeps env (delete_whitelist_ip ip)"
    unfolding delete_whitelist_ip_def
    by (intro keeps_authed)
      (auto simp: panel_ok_def on_fs_def Let_def acl_remove_def split: sum.splits prod.splits option.splits
        intro: acl_ok_remove)
qed

lemma keeps_read_only: "(\<And>cookie st. fst (h env cookie st) = st) \<Longrightarrow> keeps env h"
  by (simp add: keeps_def)

lemma keeps_api_router:
  assumes "payload_ok r"
  shows "keeps env (api_router r)"
proof (cases r)
  case (PutUpstreams body)
  then show ?thesis using assms keeps_table_routes(2) by simp
qed (simp_all add: keeps_read_only read_only_routes keeps_session_routes keeps_domain_routes keeps_import
    keeps_table_routes keeps_whitelist_routes)

text \<open>
  Whatever requests the panel serves, the tables it shares with the relay stay sound:
  the registry resolves every client, the client list holds canonical addresses and clean user names,
  the live hosts table is the compilation of the listed rows, and the database keeps its keys. A
  rejected payload leaves them as they were.
\<close>

theorem panel_keeps_tables:
  assumes "panel_ok env st" and "payload_ok r"
  shows "panel_ok env (fst (api_router r env cookie st))"
  using keeps_api_router [OF assms(2), of env] assms(1) by (simp add: keeps_def)

theorem panel_keeps_tables_witness:
  "require_auth toy_env auth_cookie auth_state
   \<and> panel_ok toy_env (fst (api_router (PutHosts sample_rows) toy_env auth_cookie auth_state))"
proof
  have "db_ok (pa_db auth_state)"
    by (simp add: auth_state_def empty_db_def db_ok_def hm_wf_def domains_ok_def queries_ok_def)
  moreover have "acl_ok (pa_acl auth_state)" by (simp add: auth_state_def toy_state_def acl_ok_empty)
  moreover have "compile_hosts_table (pv_rx toy_env) (pa_hosts_entries auth_state) = Inr (pa_hosts_live auth_state)"
    by (simp add: auth_state_def toy_state_def compile_hosts_table_def)
  ultimately have "panel_ok toy_env auth_state" using auth_state_registry by (simp add: panel_ok_def)
  then show "panel_ok toy_env (fst (api_router (PutHosts sample_rows) toy_env auth_cookie auth_state))"
    by (rule panel_keeps_tables) simp
qed (rule auth_state_auth)

section \<open>Secrets of upstreams\<close>

definition hide :: "string option \<Rightarrow> string option" where
  "hide s = (if has_text s then Some ''*'' else None)"

fun hide_secrets :: "upstream_proxy \<Rightarrow> upstream_proxy" where
  "hide_secrets (Socks5 h p u pw) = Socks5 h p u (hide pw)"
| "hide_secrets (Http h p auth) = Http h p (hide auth)"
| "hide_secrets Direct = Direct"

fun drop_secrets :: "upstream_proxy \<Rightarrow> upstream_proxy" where
  "drop_secrets (Socks5 h p u pw) = Socks5 h p u None"
| "drop_secrets (Http h p auth) = Http h p None"
| "drop_secrets Direct = Direct"

definition on_profiles :: "(upstream_proxy \<Rightarrow> upstream_proxy) \<Rightarrow> panel_state \<Rightarrow> panel_state" where
  "on_profiles f st = st\<lparr>pa_registry := (pa_registry st)\<lparr>reg_profiles :=
     map (\<lambda>(name, p). (name, f p)) (reg_profiles (pa_registry st))\<rparr>\<rparr>"

lemma has_text_hide [simp]: "has_text (hide s) = has_text s"
  by (simp add: hide_def has_text_def)

lemma public_hide: "proxy_public_json (hide_secrets p) = proxy_public_json p"
  by (cases p) simp_all

lemma profiles_json_hide:
  "profiles_json (pa_registry (on_profiles hide_secrets st)) = profiles_json (pa_registry st)"
  by (simp add: profiles_json_def on_profiles_def case_prod_beta comp_def public_hide)

lemma on_profiles_frame [simp]:
  "pa_db (on_profiles f st) = pa_db st" "pa_cfg (on_profiles f st) = pa_cfg st" "pa_metrics (on_profiles f st) = pa_metrics st"
  "pa_upstream_ok (on_profiles f st) = pa_upstream_ok st" "pa_hosts_entries (on_profiles f st) = pa_hosts_entries st"
  "pa_acl (on_profiles f st) = pa_acl st" "pa_fs (on_profiles f st) = pa_fs st" "pa_commands (on_profiles f st) = pa_commands st"
  "pa_config_path (on_profiles f st) = pa_config_path st"
  "reg_default (pa_registry (on_profiles f st)) = reg_default (pa_registry st)"
  "reg_by_ip (pa_registry (on_profiles f st)) = reg_by_ip (pa_registry st)"
  "reg_failover (pa_registry (on_profiles f st)) = reg_failover (pa_registry st)"
  by (simp_all add: on_profiles_def)

lemma require_auth_hide [simp]: "require_auth env cookie (on_profiles f st) = require_auth env cookie st"
  by (simp add: require_auth_def split: option.split)

lemma paths_hide [simp]: "api_dnsmasq_paths (on_profiles f st) = api_dnsmasq_paths st"
  by (simp add: api_dnsmasq_paths_def)

lemma merge_drop: "merge_proxy_secrets (drop_secrets p) p = p"
  by (cases p) (simp_all add: has_text_def)

lemma merge_profiles_drop:
  assumes "hm_wf m"
  shows "merge_profiles m (map (\<lambda>(name, p). (name, drop_secrets p)) m) = m"
proof -
  have "(case hm_get m name of Some q \<Rightarrow> merge_proxy_secrets (drop_secrets p) q | None \<Rightarrow> drop_secrets p) = p"
    if "(name, p) \<in> set m" for name p
    using that hm_get_in_set [OF assms, of name p] by (simp add: merge_drop)
  then show ?thesis by (auto simp: merge_profiles_def comp_def case_prod_beta intro!: map_idI)
qed



section \<open>Login\<close>

definition session_cookie :: "string \<Rightarrow> string" where
  "session_cookie token = ''snirelay_session='' @ token"

definition token_ok :: "string \<Rightarrow> bool" where
  "token_ok token \<longleftrightarrow> token \<noteq> [] \<and> list_all (\<lambda>c. c \<noteq> CHR '';'' \<and> \<not> is_whitespace c) token"

lemma split_pred_none: "list_all (\<lambda>c. \<not> P c) s \<Longrightarrow> split_pred P acc s = [rev acc @ s]"
  by (induction s arbitrary: acc) auto

lemma session_cookie_token: "token_ok token \<Longrightarrow> session_token_from_headers (Some (session_cookie token)) = Some token"
proof -
  assume t: "token_ok token"
  have "list_all (\<lambda>c. \<not> c = CHR '';'') (session_cookie token)"
    using t by (auto simp: session_cookie_def token_ok_def list_all_iff)
  then have "split_pred (\<lambda>c. c = CHR '';'') [] (session_cookie token) = [session_cookie token]"
    using split_pred_none [of "\<lambda>c. c = CHR '';''" "session_cookie token" "[]"] by simp
  moreover have "trim (session_cookie token) = session_cookie token"
    using t by (intro trim_no_ws) (auto simp: session_cookie_def token_ok_def list_all_iff is_whitespace_def)
  moreover have "strip_prefix ''snirelay_session='' (session_cookie token) = Some token"
    unfolding session_cookie_def by (rule strip_prefix_append)
  ultimately show ?thesis by (simp add: session_token_from_headers_def del: strip_prefix_Some)
qed

text \<open>C36: 
  The right password opens a session: the login answers 200 with a cookie for the
  fresh token, and a request that carries this cookie is authenticated for seven days and not longer,
  until a logout with the cookie ends it.
\<close>

theorem login_opens_session:
  assumes "texts_in_order (pv_clock env)" and "db_ok (pa_db st)" and "pd_online (pa_db st)"
    and "password_ok env password st" and "token_ok (pv_token env)" and "\<not> hm_contains (pd_sessions (pa_db st)) (pv_token env)"
  shows "\<exists>st' r. api_router (Login password) env cookie st = (st', r) \<and> rs_status r = 200
    \<and> (\<exists>attrs. rs_cookie r = Some (session_cookie (pv_token env) @ CHR '';'' # attrs))
    \<and> (\<forall>t. require_auth (env\<lparr>pv_now := t\<rparr>) (Some (session_cookie (pv_token env))) st' \<longleftrightarrow> t < pv_now env + 7 * 24 * HOUR)
    \<and> (\<forall>t. \<not> require_auth (env\<lparr>pv_now := t\<rparr>) (Some (session_cookie (pv_token env)))
         (fst (api_router Logout env (Some (session_cookie (pv_token env))) st')))"
proof -
  let ?c = "Some (session_cookie (pv_token env))"
  obtain hash where hash: "get_setting ''admin_password_hash'' (pa_db st) = Inr (Some hash)" "pv_verify env password hash"
    using assms(4) by (auto simp: password_ok_def)
  obtain db' where db': "create_session (pv_clock env) (pv_now env) (pv_token env) SESSION_HOURS (pa_db st) = (db', Inr ())"
    "\<And>t. valid_at (pv_clock env) t (pv_token env) db' \<longleftrightarrow> t < pv_now env + SESSION_HOURS * HOUR"
    "\<And>t. \<not> valid_at (pv_clock env) t (pv_token env) (fst (delete_session (pv_token env) db'))"
    using session_lifetime [OF assms(1-3,6), of "pv_now env" SESSION_HOURS] by blast
  let ?st = "st\<lparr>pa_db := db'\<rparr>"
  obtain attrs where login: "api_router (Login password) env cookie st =
      (?st, (ok_json [(''ok'', JBool True)])\<lparr>rs_cookie := Some (session_cookie (pv_token env) @ CHR '';'' # attrs)\<rparr>)"
    using hash db'(1) by (auto simp: login_def on_db_def session_cookie_def)
  have token: "session_token_from_headers ?c = Some (pv_token env)" using assms(5) by (rule session_cookie_token)
  have auth: "require_auth (env\<lparr>pv_now := t\<rparr>) ?c s \<longleftrightarrow> valid_at (pv_clock env) t (pv_token env) (pa_db s)" for t s
    by (simp add: require_auth_def token valid_at_def)
  have out: "pa_db (fst (api_router Logout env ?c ?st)) = fst (delete_session (pv_token env) db')"
    by (simp add: logout_def token on_db_def Let_def split: prod.split)
  show ?thesis
    using login db'(2,3) by (auto simp: auth out [simplified] SESSION_HOURS_def ok_json_def)
qed

theorem login_opens_session_witness:
  "\<exists>st' r. api_router (Login ''secret'') toy_env None toy_state = (st', r) \<and> rs_status r = 200
     \<and> require_auth (toy_env\<lparr>pv_now := 1000\<rparr>) (Some (session_cookie ''t'')) st'"
proof -
  have order: "texts_in_order (pv_clock toy_env)"
    by (simp add: texts_in_order_def toy_env_def sample_clock_def replicate_less)
  have db: "db_ok (pa_db toy_state)" "pd_online (pa_db toy_state)"
    by (simp_all add: toy_state_def empty_db_def db_ok_def hm_wf_def domains_ok_def queries_ok_def)
  have pw: "password_ok toy_env ''secret'' toy_state"
    by (simp add: password_ok_def toy_state_def toy_env_def empty_db_def get_setting_def hm_get_def)
  have tk: "token_ok (pv_token toy_env)" by (simp add: token_ok_def toy_env_def is_whitespace_def)
  have fresh: "\<not> hm_contains (pd_sessions (pa_db toy_state)) (pv_token toy_env)"
    by (simp add: toy_state_def empty_db_def hm_contains_def hm_get_def)
  have t: "pv_token toy_env = ''t''" "(1000 :: nat) < pv_now toy_env + 7 * 24 * HOUR"
    by (simp_all add: toy_env_def HOUR_def)
  show ?thesis
    using login_opens_session [OF order db pw tk fresh, of None] t by metis
qed

section \<open>Domains in SQLite\<close>

text \<open>
  Without a dnsmasq directory the panel keeps domains in its database, which knows the modes \<open>direct\<close>
  and \<open>relay\<close>; the handler passes \<open>bypass\<close>, so a domain to be bypassed is stored, and exported, as one
  to be relayed.
\<close>

theorem bypass_stored_as_relay:
  assumes "require_auth env cookie st" and "api_dnsmasq_paths st = None" and "pd_online (pa_db st)"
    and "to_lowercase (trim (dm_pattern body)) = p" and "p \<noteq> []" and "\<not> has_pattern p (pd_domains (pa_db st))"
  shows "\<exists>st' row. api_router (CreateDomain (body\<lparr>dm_mode := ''bypass''\<rparr>)) env cookie st =
      (st', ok_json [(''ok'', JBool True), (''id'', jnat (dr_id row))])
    \<and> row \<in> set (pd_domains (pa_db st')) \<and> dr_pattern row = p \<and> dr_mode row = ''relay''"
proof -
  let ?db = "insert_domain p (db_kind (dm_kind body)) ''relay'' (dm_note body) (ck_rfc3339 (pv_clock env) (pv_now env)) (pa_db st)"
  have "api_router (CreateDomain (body\<lparr>dm_mode := ''bypass''\<rparr>)) env cookie st =
      (st\<lparr>pa_db := ?db\<rparr>, ok_json [(''ok'', JBool True), (''id'', jnat (Suc (pd_domain_seq (pa_db st))))])"
    using assms by (simp add: create_domain_def authed_def Let_def normalize_mode_def on_db_def add_domain_def
        statement_def db_mode_def) (simp add: insert_domain_def Let_def)
  moreover let ?row = "\<lparr>dr_id = Suc (pd_domain_seq (pa_db st)), dr_pattern = p, dr_kind = db_kind (dm_kind body),
    dr_mode = ''relay'', dr_note = dm_note body, dr_created_at = ck_rfc3339 (pv_clock env) (pv_now env)\<rparr>"
  have "?row \<in> set (pd_domains ?db)" by (simp add: insert_domain_def Let_def)
  ultimately show ?thesis
    by (intro exI [of _ "st\<lparr>pa_db := ?db\<rparr>"] exI [of _ ?row]) simp
qed

theorem bypass_stored_as_relay_witness:
  "\<exists>st' row. api_router (CreateDomain \<lparr>dm_pattern = ''a.example'', dm_kind = ''exact'', dm_mode = ''bypass'', dm_note = []\<rparr>)
       toy_env auth_cookie auth_state = (st', row)
     \<and> (\<exists>r \<in> set (pd_domains (pa_db st')). dr_pattern r = ''a.example'' \<and> dr_mode r = ''relay'')"
proof -
  let ?body = "\<lparr>dm_pattern = ''a.example'', dm_kind = ''exact'', dm_mode = ''relay'', dm_note = []\<rparr>"
  have paths: "api_dnsmasq_paths auth_state = None"
    by (simp add: api_dnsmasq_paths_def from_panel_def is_dir_def auth_state_def toy_state_def default_app_config_def
        default_panel_config_def nonempty_def or_else_def)
  have p: "to_lowercase (trim (dm_pattern ?body)) = ''a.example''" by code_simp
  have "pd_online (pa_db auth_state)" "\<not> has_pattern ''a.example'' (pd_domains (pa_db auth_state))"
    by (simp_all add: auth_state_def empty_db_def has_pattern_def)
  from bypass_stored_as_relay [OF auth_state_auth paths this(1) p _ this(2)] show ?thesis by auto
qed

end
