(* ===== verification/Relay_Logging.thy ===== *)
theory Relay_Logging
  imports Relay_Host
begin

text \<open>
  Logging (\<open>src/logging.rs\<close>): the choice of the filter, the log file that is opened for appending with the
  directories above it, and the writer that all threads share behind a mutex. The tracing crate, which
  formats a record and writes it out with \<open>write_all\<close>, is represented by the records it hands over. The
  theorems show that the start keeps what the log and every other file held, and that threads that log at
  the same time lose nothing and tear a record only where the system takes a part of a write.
\<close>

section \<open>Start\<close>

datatype log_error = LogDirFailed path | LogOpenFailed path

record log_setup =
  lg_filter :: string
  lg_file :: "path option"

text \<open>
  \<open>valid\<close> says which texts the tracing crate accepts as filter directives; \<open>RUST_LOG\<close> is used only if it is
  set and accepted.
\<close>

definition log_filter :: "(string \<Rightarrow> bool) \<Rightarrow> string option \<Rightarrow> string \<Rightarrow> string" where
  "log_filter valid rust_log log_level =
     (case rust_log of Some d \<Rightarrow> if valid d then d else log_level | None \<Rightarrow> log_level)"

text \<open>Opening with \<open>create\<close> and \<open>append\<close> leaves an existing text alone.\<close>

definition open_append :: "path \<Rightarrow> file_system \<Rightarrow> file_system option" where
  "open_append p fs =
     (if \<not> fs_can_write fs p then None
      else case hm_get (fs_files fs) p of
             Some _ \<Rightarrow> Some fs
           | None \<Rightarrow> Some (fs\<lparr>fs_files := hm_insert p (Some []) (fs_files fs)\<rparr>))"

definition log_dir :: "path \<Rightarrow> file_system \<Rightarrow> log_error + file_system" where
  "log_dir p fs =
     (case path_parent p of
        None \<Rightarrow> Inr fs
      | Some parent \<Rightarrow>
          if \<not> path_absolute parent \<and> path_components parent = [] then Inr fs
          else (case create_dir_all parent fs of Some fs \<Rightarrow> Inr fs | None \<Rightarrow> Inl (LogDirFailed parent)))"

definition init_logging ::
    "(string \<Rightarrow> bool) \<Rightarrow> string option \<Rightarrow> string \<Rightarrow> string option \<Rightarrow> file_system \<Rightarrow> log_error + (log_setup \<times> file_system)" where
  "init_logging valid rust_log log_level log_file fs =
     (let filter = log_filter valid rust_log log_level
      in case log_file of
           None \<Rightarrow> Inr (\<lparr>lg_filter = filter, lg_file = None\<rparr>, fs)
         | Some name \<Rightarrow>
             (case log_dir (path_from name) fs of
                Inl e \<Rightarrow> Inl e
              | Inr fs \<Rightarrow>
                  (case open_append (path_from name) fs of
                     None \<Rightarrow> Inl (LogOpenFailed (path_from name))
                   | Some fs \<Rightarrow> Inr (\<lparr>lg_filter = filter, lg_file = Some (path_from name)\<rparr>, fs))))"

lemma create_dir_all_files: "create_dir_all d fs = Some fs' \<Longrightarrow> fs_files fs' = fs_files fs \<and> fs_can_write fs' = fs_can_write fs"
  by (auto simp: create_dir_all_def split: if_splits)

lemma log_dir_files: "log_dir p fs = Inr fs' \<Longrightarrow> fs_files fs' = fs_files fs \<and> fs_can_write fs' = fs_can_write fs"
  using create_dir_all_files by (auto simp: log_dir_def split: option.splits if_splits)

lemma init_logging_files:
  assumes "init_logging valid rust_log log_level log_file fs = Inr (lg, fs')" and "fs_wf fs"
  shows "fs_wf fs' \<and> (\<forall>q t. fs_read fs q = Some t \<longrightarrow> fs_read fs' q = Some t)
    \<and> (\<forall>p. lg_file lg = Some p \<longrightarrow> hm_get (fs_files fs') p \<noteq> None \<and> fs_can_write fs' p)
    \<and> (\<forall>q. lg_file lg \<noteq> Some q \<longrightarrow> fs_read fs' q = fs_read fs q)"
proof (cases log_file)
  case None
  with assms show ?thesis by (auto simp: init_logging_def)
next
  case (Some name)
  let ?p = "path_from name"
  obtain fs1 where 1: "log_dir ?p fs = Inr fs1" "open_append ?p fs1 = Some fs'" "lg_file lg = Some ?p"
    using assms(1) Some by (auto simp: init_logging_def Let_def split: sum.splits option.splits)
  note files = log_dir_files [OF 1(1)]
  show ?thesis
    using 1 files assms(2)
    by (auto simp: open_append_def fs_wf_def fs_read_def hm.get_insert hm.inv_insert split: if_splits option.splits)
qed

text \<open>
  Starting the log keeps every file: what a file held before it holds afterwards, the log file included, no
  file but the log file is changed, and the log file exists and can be written.
\<close>

theorem log_start_keeps_files:
  assumes "init_logging valid rust_log log_level (Some name) fs = Inr (lg, fs')" and "fs_wf fs"
  shows "lg_file lg = Some (path_from name) \<and> hm_get (fs_files fs') (path_from name) \<noteq> None
    \<and> (\<forall>q t. fs_read fs q = Some t \<longrightarrow> fs_read fs' q = Some t)
    \<and> (\<forall>q. q \<noteq> path_from name \<longrightarrow> fs_read fs' q = fs_read fs q)"
proof -
  have "lg_file lg = Some (path_from name)"
    using assms(1) by (auto simp: init_logging_def Let_def split: sum.splits option.splits)
  with init_logging_files [OF assms] show ?thesis by auto
qed

theorem log_start_keeps_files_witness:
  "\<exists>lg fs'. init_logging (\<lambda>_. True) None ''info'' (Some ''/var/log/relay.log'')
       \<lparr>fs_files = [(path_from ''/etc/c'', Some ''x'')], fs_dirs = [], fs_can_write = (\<lambda>_. True)\<rparr> = Inr (lg, fs')
     \<and> fs_read fs' (path_from ''/etc/c'') = Some ''x''"
proof -
  let ?fs = "\<lparr>fs_files = [(path_from ''/etc/c'', Some ''x'')], fs_dirs = [], fs_can_write = (\<lambda>_. True)\<rparr>"
  have wf: "fs_wf ?fs" by (simp add: fs_wf_def hm_wf_def)
  have "\<not> isl (init_logging (\<lambda>_. True) None ''info'' (Some ''/var/log/relay.log'') ?fs)" by code_simp
  then obtain lg fs' where r: "init_logging (\<lambda>_. True) None ''info'' (Some ''/var/log/relay.log'') ?fs = Inr (lg, fs')"
    by (auto simp: isl_def) (metis old.sum.exhaust surj_pair)
  from log_start_keeps_files [OF r wf] r show ?thesis by (auto simp: fs_read_def hm_get_def)
qed

section \<open>Writing\<close>

text \<open>
  A thread hands a formatted record to its writer, which writes until nothing is left; every single write
  holds the lock and appends what the system takes, at least one byte. The file is the list of these
  writes, each with its thread.
\<close>

record log_state =
  lo_writes :: "(nat \<times> string) list"
  lo_pending :: "nat \<Rightarrow> string"

datatype log_event = Record nat string | Write nat nat

definition log_text :: "log_state \<Rightarrow> string" where
  "log_text s = concat (map snd (lo_writes s))"

definition file_write :: "nat \<Rightarrow> string \<Rightarrow> string \<times> string" where
  "file_write taken buf = (let n = max 1 taken in (take n buf, drop n buf))"

fun log_step :: "log_event \<Rightarrow> log_state \<Rightarrow> log_state" where
  "log_step (Record i r) s = (if lo_pending s i = [] then s\<lparr>lo_pending := (lo_pending s)(i := r)\<rparr> else s)"
| "log_step (Write i taken) s =
     (if lo_pending s i = [] then s
      else case file_write taken (lo_pending s i) of
             (done, rest) \<Rightarrow> s\<lparr>lo_writes := lo_writes s @ [(i, done)], lo_pending := (lo_pending s)(i := rest)\<rparr>)"

definition log_run :: "log_event list \<Rightarrow> log_state \<Rightarrow> log_state" where
  "log_run es s = fold log_step es s"

text \<open>The records that thread \<open>i\<close> has handed over.\<close>

fun handed :: "nat \<Rightarrow> log_event list \<Rightarrow> log_state \<Rightarrow> string list" where
  "handed i [] s = []"
| "handed i (e # es) s =
     (case e of
        Record j r \<Rightarrow> if j = i \<and> lo_pending s i = [] then r # handed i es (log_step e s) else handed i es (log_step e s)
      | _ \<Rightarrow> handed i es (log_step e s))"

definition written_by :: "nat \<Rightarrow> log_state \<Rightarrow> string list" where
  "written_by i s = map snd (filter (\<lambda>w. fst w = i) (lo_writes s))"

lemma log_step_own:
  "concat (written_by i (log_step e s)) @ lo_pending (log_step e s) i
     = concat (written_by i s) @ lo_pending s i @ concat (handed i [e] s)"
  by (cases e) (auto simp: written_by_def file_write_def Let_def)

lemma log_run_own:
  "concat (written_by i (log_run es s)) @ lo_pending (log_run es s) i
     = concat (written_by i s) @ lo_pending s i @ concat (handed i es s)"
proof (induction es arbitrary: s)
  case (Cons e es)
  have "concat (handed i (e # es) s) = concat (handed i [e] s) @ concat (handed i es (log_step e s))"
    by (cases e) auto
  then show ?case using Cons [of "log_step e s"] log_step_own [of i e s] by (simp add: log_run_def del: handed.simps)
qed (simp add: log_run_def)

text \<open>A write takes all of what it is given.\<close>

fun full_write :: "log_state \<Rightarrow> log_event \<Rightarrow> bool" where
  "full_write s (Write i taken) \<longleftrightarrow> length (lo_pending s i) \<le> taken"
| "full_write s (Record _ _) \<longleftrightarrow> True"

fun full_run :: "log_event list \<Rightarrow> log_state \<Rightarrow> bool" where
  "full_run [] s \<longleftrightarrow> True"
| "full_run (e # es) s \<longleftrightarrow> full_write s e \<and> full_run es (log_step e s)"

definition some_record :: "string \<Rightarrow> string list" where
  "some_record r = (if r = [] then [] else [r])"

lemma full_step_whole:
  assumes "full_write s e"
  shows "written_by i (log_step e s) @ some_record (lo_pending (log_step e s) i)
    = written_by i s @ some_record (lo_pending s i) @ concat (map some_record (handed i [e] s))"
  using assms by (cases e) (auto simp: written_by_def file_write_def some_record_def Let_def)

lemma full_run_whole:
  assumes "full_run es s"
  shows "written_by i (log_run es s) @ some_record (lo_pending (log_run es s) i)
    = written_by i s @ some_record (lo_pending s i) @ concat (map some_record (handed i es s))"
  using assms
proof (induction es arbitrary: s)
  case (Cons e es)
  have "handed i (e # es) s = handed i [e] s @ handed i es (log_step e s)" by (cases e) auto
  then show ?case using Cons.IH [of "log_step e s"] Cons.prems full_step_whole [of s e i]
    by (simp add: log_run_def del: handed.simps)
qed (simp add: log_run_def)

lemma log_run_extends: "\<exists>ws. lo_writes (log_run es s) = lo_writes s @ ws"
proof (induction es arbitrary: s)
  case (Cons e es)
  have "\<exists>ws. lo_writes (log_step e s) = lo_writes s @ ws" by (cases e) (auto simp: Let_def split: prod.split)
  with Cons [of "log_step e s"] show ?case by (fastforce simp: log_run_def)
qed (simp add: log_run_def)

text \<open>
  Logging from many threads loses nothing: whatever the interleaving, the log only grows, and the writes of
  each thread spell its records in order up to what it still has to write; and if every write takes all it
  is given, they are its records one by one, so that no record is torn.
\<close>

theorem log_records_kept:
  "prefix (log_text s) (log_text (log_run es s))
   \<and> concat (written_by i (log_run es s)) @ lo_pending (log_run es s) i
       = concat (written_by i s) @ lo_pending s i @ concat (handed i es s)
   \<and> (full_run es s \<longrightarrow>
       written_by i (log_run es s) @ some_record (lo_pending (log_run es s) i)
         = written_by i s @ some_record (lo_pending s i) @ concat (map some_record (handed i es s)))"
  using log_run_extends [of es s] log_run_own [of i es s] full_run_whole [of es s i] by (auto simp: log_text_def)

theorem log_records_kept_witness:
  "written_by 1 (log_run [Record 1 ''ab'', Record 2 ''c'', Write 2 9, Write 1 9] \<lparr>lo_writes = [], lo_pending = (\<lambda>_. [])\<rparr>) = [''ab'']"
  using log_records_kept [where i = 1 and es = "[Record 1 ''ab'', Record 2 ''c'', Write 2 9, Write 1 9]"
      and s = "\<lparr>lo_writes = [], lo_pending = (\<lambda>_. [])\<rparr>"]
  by (simp add: log_run_def file_write_def written_by_def some_record_def)

end
