(* ===== verification/Relay_Main.thy ===== *)
theory Relay_Main
  imports Relay_Service Relay_Limits Relay_Api_Laws Relay_Logging
begin

text \<open>
  Program start (\<open>src/main.rs\<close>): configuration, command line override, probe of the default upstream,
  resource limits, metrics address, shared tables, panel and service, in the order of \<open>main\<close>. The
  theorems show that the start ends, and that a relay that came up holds sound tables which the panel
  and the service share.
\<close>

section \<open>Start\<close>

record cli =
  cli_config :: string
  cli_proxy :: "string option"
  cli_log_level :: string
  cli_log_file :: "string option"

text \<open>
  What the start finds outside: \<open>su_directives\<close> says which filter directives the tracing crate accepts and
  \<open>su_metrics_bind\<close> whether the metrics address can be opened, \<open>su_net\<close>, \<open>su_cost\<close> and \<open>su_now\<close> are those of
  \<open>ensure_upstream_ready\<close>, the limiter has its file system and JSON crate.
\<close>

record startup =
  su_panel :: panel_env
  su_yaml :: "string \<Rightarrow> app_config option"
  su_os :: os
  su_directives :: "string \<Rightarrow> bool"
  su_net :: "nat \<Rightarrow> network"
  su_cost :: "nat \<Rightarrow> nat"
  su_now :: nat
  su_faults :: rlimit_faults
  su_rlimit :: rlimit
  su_metrics_bind :: "string \<Rightarrow> bool"
  su_open_db :: "string \<Rightarrow> panel_db option"
  su_bind :: "socket_addr \<Rightarrow> bool"
  su_fs :: Relay_Host.file_system
  su_json :: json_crate
  su_io :: io_faults
  su_time :: u64
  su_state_fs :: Relay_Limiter.file_system
  su_interfaces :: "ip_addr list option"

datatype start_error =
    StartConfig config_error
  | LogFailed log_error
  | UpstreamNotReady conn_error
  | LimitsFailed
  | MetricsFailed string
  | PanelFailed panel_error

record relay_process =
  rp_cfg :: app_config
  rp_upstream_ok :: bool
  rp_slots :: u64
  rp_guard :: self_loop_guard
  rp_panel :: "panel_state option"
  rp_service :: service_state

definition log_path :: "startup \<Rightarrow> cli \<Rightarrow> app_config \<Rightarrow> string option" where
  "log_path su c cfg = or_else (cli_log_file c) (or_else (log_file cfg) (env_var (su_os su) ''LOG_FILE''))"

definition open_log :: "startup \<Rightarrow> cli \<Rightarrow> app_config \<Rightarrow> log_error + (log_setup \<times> Relay_Host.file_system)" where
  "open_log su c cfg =
     init_logging (su_directives su) (env_var (su_os su) ''RUST_LOG'') (cli_log_level c) (log_path su c cfg) (su_fs su)"

definition configure :: "startup \<Rightarrow> cli \<Rightarrow> start_error + (app_config \<times> Relay_Host.file_system)" where
  "configure su c =
     (case load (pv_rx (su_panel su)) (su_yaml su) (su_os su) (cli_config c) of
        Inl e \<Rightarrow> Inl (StartConfig e)
      | Inr cfg \<Rightarrow>
          (case open_log su c cfg of
             Inl e \<Rightarrow> Inl (LogFailed e)
           | Inr (_, fs) \<Rightarrow>
               (case cli_proxy c of
                  None \<Rightarrow> Inr (remap_docker_loopback_upstream (su_os su) cfg, fs)
                | Some s \<Rightarrow>
                    (case parse_proxy_string s of
                       Inl e \<Rightarrow> Inl (StartConfig e)
                     | Inr p \<Rightarrow>
                         (case normalize_upstreams (apply_default_proxy_override p cfg) of
                            Inl e \<Rightarrow> Inl (StartConfig e)
                          | Inr cfg \<Rightarrow> Inr (remap_docker_loopback_upstream (su_os su) cfg, fs))))))"

definition open_metrics :: "startup \<Rightarrow> app_config \<Rightarrow> (start_error, unit) outcome" where
  "open_metrics su cfg =
     (case metrics_addr cfg of
        Some addr \<Rightarrow> if su_metrics_bind su addr then Got () else Err (MetricsFailed addr)
      | None \<Rightarrow> Got ())"

text \<open>
  The registry, the client list and the hosts table are created once; panel and service hold references
  to the same ones.
\<close>

definition share_tables ::
    "startup \<Rightarrow> Relay_Host.file_system \<Rightarrow> app_config \<Rightarrow> bool \<Rightarrow> u64 \<Rightarrow> (start_error, relay_process) outcome" where
  "share_tables su fs cfg ready slots =
     (let registry = registry_from_config cfg;
          acl = from_config cfg
      in case start_panel (su_panel su) (su_open_db su) (su_bind su) cfg ready registry acl no_metrics fs of
           Inl e \<Rightarrow> Err (PanelFailed e)
         | Inr panel_st \<Rightarrow>
             Got \<lparr>rp_cfg = cfg, rp_upstream_ok = ready, rp_slots = slots,
                  rp_guard = guard_from_config (su_interfaces su) cfg, rp_panel = panel_st,
                  rp_service = \<lparr>sv_acl = acl, sv_registry = registry, sv_hosts = hosts_tbl cfg,
                    sv_limiter = new_limiter (su_json su) (su_io su) (su_time su) (su_state_fs su) (su_os su) cfg,
                    sv_metrics = no_metrics, sv_traffic = Some []\<rparr>\<rparr>)"

definition publish :: "panel_state \<Rightarrow> service_state \<Rightarrow> service_state" where
  "publish p sv = sv\<lparr>sv_acl := pa_acl p, sv_registry := pa_registry p, sv_hosts := pa_hosts_live p\<rparr>"

text \<open>
  The probes of the other profiles only log, and each runs under a timeout; they leave no trace here.
\<close>

definition start_relay :: "startup \<Rightarrow> cli \<Rightarrow> (start_error, relay_process) outcome" where
  "start_relay su c =
     (case configure su c of
        Inl e \<Rightarrow> Err e
      | Inr (cfg, fs) \<Rightarrow>
          (case ensure_upstream_ready (su_net su) (su_cost su) (upstream_proxy cfg) (su_now su)
                  (unat (upstream_probe_wait_secs cfg)) (unat (max (upstream_probe_interval_secs cfg) 1))
                  (upstream_probe_required cfg) of
             Hang \<Rightarrow> Hang
           | Err e \<Rightarrow> Err (UpstreamNotReady e)
           | Got ready \<Rightarrow>
               (case snd (apply_limits (su_faults su) (su_rlimit su) cfg) of
                  None \<Rightarrow> Err LimitsFailed
                | Some limits \<Rightarrow> and_then (open_metrics su cfg) (\<lambda>_. share_tables su fs cfg ready (pl_max_connections limits)))))"

section \<open>The configuration the relay starts with\<close>

definition maps_ok :: "app_config \<Rightarrow> bool" where
  "maps_ok c \<longleftrightarrow> hm_wf (upstreams c) \<and> hm_wf (client_upstreams c)"

text \<open>The deserialiser builds maps with distinct keys.\<close>

definition yaml_maps :: "(string \<Rightarrow> app_config option) \<Rightarrow> bool" where
  "yaml_maps y \<longleftrightarrow> (\<forall>content c. y content = Some c \<longrightarrow> maps_ok c)"

lemma maps_ok_part: "upstream_part a = upstream_part b \<Longrightarrow> maps_ok a = maps_ok b"
  by (simp add: maps_ok_def upstream_part_def)

lemma maps_ok_override: "maps_ok c \<Longrightarrow> maps_ok (apply_default_proxy_override p c)"
  by (simp add: maps_ok_def apply_default_proxy_override_def Let_def hm.inv_insert)

lemma load_config_ok:
  assumes "load rx yaml os path = Inr cfg" and "yaml_maps yaml"
  shows "config_ok rx cfg"
proof -
  let ?env = "\<lambda>c. case from_env os of Some p \<Rightarrow> apply_default_proxy_override p c | None \<Rightarrow> c"
  let ?ov = "\<lambda>c. (apply_monitor_env_overrides os (apply_panel_env_overrides os
      (apply_probe_env_overrides os (?env c))))\<lparr>config_path := Some path\<rparr>"
  obtain c where c: "maps_ok c" "finalize rx (?ov c) = Inr cfg"
  proof (cases "path_exists os path")
    case True
    with assms that show ?thesis
      by (auto simp: load_def Let_def yaml_maps_def split: option.splits)
  next
    case False
    have "maps_ok default_app_config" by (simp add: maps_ok_def default_app_config_def hm.inv_empty)
    with False assms that show ?thesis by (auto simp: load_def Let_def)
  qed
  have "upstream_part (?ov c) = upstream_part (?env c)"
    using env_overrides_frame by (simp add: upstream_part_def)
  moreover have "maps_ok (?env c)" using c(1) maps_ok_override by (simp split: option.split)
  ultimately have "maps_ok (?ov c)" using maps_ok_part by blast
  then show ?thesis using finalize_ok [OF c(2)] by (simp add: maps_ok_def)
qed

lemma normalize_upstreams_rest:
  "normalize_upstreams cfg = Inr cfg' \<Longrightarrow> client_whitelist cfg' = client_whitelist cfg \<and> hosts_tbl cfg' = hosts_tbl cfg"
  by (auto simp: normalize_upstreams_def Let_def split: sum.splits option.splits if_splits)

lemma config_ok_override:
  assumes "config_ok rx cfg" and "normalize_upstreams (apply_default_proxy_override p cfg) = Inr cfg'"
  shows "config_ok rx cfg'"
proof -
  let ?c = "apply_default_proxy_override p cfg"
  have "maps_ok ?c" using assms(1) by (intro maps_ok_override) (simp add: maps_ok_def config_ok_def upstreams_ok_def)
  then have "upstreams_ok cfg'" using normalize_upstreams_ok [OF assms(2)] by (simp add: maps_ok_def)
  moreover have "listens_ok ?c = listens_ok cfg" "client_whitelist ?c = client_whitelist cfg" "hosts ?c = hosts cfg"
    "hosts_tbl ?c = hosts_tbl cfg"
    by (simp_all add: apply_default_proxy_override_def Let_def listens_ok_def)
  ultimately show ?thesis
    using assms(1) normalize_upstreams_frame [OF assms(2)] normalize_upstreams_rest [OF assms(2)]
    by (simp add: config_ok_def listens_ok_def)
qed

lemma config_ok_remap: "config_ok rx cfg \<Longrightarrow> config_ok rx (remap_docker_loopback_upstream os cfg)"
proof -
  assume ok: "config_ok rx cfg"
  then have "upstreams_ok (remapped gw cfg)" for gw by (intro upstreams_ok_remapped) (simp add: config_ok_def)
  with ok have "config_ok rx (remapped gw cfg)" for gw
    by (simp add: config_ok_def listens_ok_def remapped_def)
  with ok remap_docker_cases [of os cfg] show ?thesis by metis
qed

lemma configure_ok:
  assumes "configure su c = Inr (cfg, fs)" and "yaml_maps (su_yaml su)"
  shows "config_ok (pv_rx (su_panel su)) cfg"
  using assms load_config_ok [OF _ assms(2)] config_ok_override config_ok_remap
  by (fastforce simp: configure_def split: sum.splits if_splits option.splits prod.splits)

section \<open>The running relay\<close>

lemma start_panel_Some:
  assumes "start_panel env open_db can_bind cfg ready registry acl mt fs = Inr (Some p)"
    and "\<And>path db. open_db path = Some db \<Longrightarrow> db_ok db"
  shows "db_ok (pa_db p) \<and> pa_registry p = registry \<and> pa_acl p = acl \<and> pa_hosts_live p = hosts_tbl cfg
    \<and> pa_hosts_entries p = hosts cfg \<and> pa_upstream_ok p = ready"
proof -
  obtain db db' where db: "open_db (pn_db_path (panel cfg)) = Some db" "ensure_admin_password env db = (db', Inr ())"
    "pa_db p = db'" "pa_registry p = registry" "pa_acl p = acl" "pa_hosts_live p = hosts_tbl cfg"
    "pa_hosts_entries p = hosts cfg" "pa_upstream_ok p = ready"
    using assms(1)
    by (auto simp: start_panel_def Let_def split: option.splits if_splits prod.splits sum.splits)
  have set: "db_ok d" if "set_setting ''admin_password_hash'' h db = (d, r)" for h d r
    using keeps_operations(1) [of "''admin_password_hash''" h] assms(2) [OF db(1)] that
    unfolding keeps_ok_def by (metis fst_conv)
  have "db_ok db'"
    using db(2) assms(2) [OF db(1)]
    by (auto simp: ensure_admin_password_def dest: set split: sum.splits option.splits prod.splits)
  with db show ?thesis by simp
qed

lemma start_relay_Got:
  assumes "start_relay su c = Got rp"
  obtains limits fs where "configure su c = Inr (rp_cfg rp, fs)"
    and "ensure_upstream_ready (su_net su) (su_cost su) (upstream_proxy (rp_cfg rp)) (su_now su)
          (unat (upstream_probe_wait_secs (rp_cfg rp))) (unat (max (upstream_probe_interval_secs (rp_cfg rp)) 1))
          (upstream_probe_required (rp_cfg rp)) = Got (rp_upstream_ok rp)"
    and "snd (apply_limits (su_faults su) (su_rlimit su) (rp_cfg rp)) = Some limits"
    and "rp_slots rp = pl_max_connections limits"
    and "start_panel (su_panel su) (su_open_db su) (su_bind su) (rp_cfg rp) (rp_upstream_ok rp)
          (sv_registry (rp_service rp)) (sv_acl (rp_service rp)) no_metrics fs = Inr (rp_panel rp)"
    and "sv_registry (rp_service rp) = registry_from_config (rp_cfg rp)" and "sv_acl (rp_service rp) = from_config (rp_cfg rp)"
    and "sv_hosts (rp_service rp) = hosts_tbl (rp_cfg rp)"
  using assms
  by (auto simp: start_relay_def share_tables_def open_metrics_def Let_def
      split: sum.splits outcome.splits option.splits if_splits prod.splits)

text \<open>C40: 
  The start ends: whatever the configuration, the network and the file system are, \<open>main\<close> reaches
  \<open>run\<close> or returns an error. It reaches \<open>run\<close> without a reachable default upstream only if the
  configuration does not require one, and gives up on the probe only if it does.
\<close>

theorem start_returns:
  "case start_relay su c of
     Got rp \<Rightarrow> rp_upstream_ok rp \<or> \<not> upstream_probe_required (rp_cfg rp)
   | Err e \<Rightarrow> e \<notin> range UpstreamNotReady
       \<or> (\<exists>cfg fs. configure su c = Inr (cfg, fs) \<and> upstream_probe_required cfg)
   | Hang \<Rightarrow> False"
proof (cases "configure su c")
  case (Inr x)
  obtain cfg fs where x: "x = (cfg, fs)" by (cases x)
  have "0 < unat (max (upstream_probe_interval_secs cfg) 1)" by (simp add: unat_max_u64)
  from ensure_upstream_ready_returns [OF this, where net = "su_net su" and cost = "su_cost su" and proxy = "upstream_proxy cfg"
      and now = "su_now su" and wait_time = "unat (upstream_probe_wait_secs cfg)" and required = "upstream_probe_required cfg"] Inr x
  show ?thesis
    by (auto simp: start_relay_def share_tables_def open_metrics_def Let_def
        split: sum.splits outcome.splits option.splits if_splits)
qed (auto simp: start_relay_def configure_def split: sum.splits if_splits option.splits prod.splits)

lemma started_tables:
  assumes "start_relay su c = Got rp" and "yaml_maps (su_yaml su)"
    and "\<And>path db. su_open_db su path = Some db \<Longrightarrow> db_ok db"
  shows "registry_ok (sv_registry (rp_service rp)) \<and> acl_ok (sv_acl (rp_service rp))
    \<and> compile_hosts_table (pv_rx (su_panel su)) (hosts (rp_cfg rp)) = Inr (sv_hosts (rp_service rp))
    \<and> (case rp_panel rp of
         None \<Rightarrow> \<not> pn_enabled (panel (rp_cfg rp))
       | Some p \<Rightarrow> panel_ok (su_panel su) p \<and> publish p (rp_service rp) = rp_service rp)"
  using assms(1)
proof (rule start_relay_Got)
  fix limits fs
  assume conf: "configure su c = Inr (rp_cfg rp, fs)"
    and panel: "start_panel (su_panel su) (su_open_db su) (su_bind su) (rp_cfg rp) (rp_upstream_ok rp)
          (sv_registry (rp_service rp)) (sv_acl (rp_service rp)) no_metrics fs = Inr (rp_panel rp)"
    and reg: "sv_registry (rp_service rp) = registry_from_config (rp_cfg rp)"
    and acl: "sv_acl (rp_service rp) = from_config (rp_cfg rp)"
    and hosts: "sv_hosts (rp_service rp) = hosts_tbl (rp_cfg rp)"
  have ok: "config_ok (pv_rx (su_panel su)) (rp_cfg rp)" using conf assms(2) by (rule configure_ok)
  then have tables: "registry_ok (sv_registry (rp_service rp))" "acl_ok (sv_acl (rp_service rp))"
    "compile_hosts_table (pv_rx (su_panel su)) (hosts (rp_cfg rp)) = Inr (sv_hosts (rp_service rp))"
    by (simp_all add: reg acl hosts config_ok_def registry_ok_config acl_ok_from_config)
  have "\<not> pn_enabled (panel (rp_cfg rp))" if "rp_panel rp = None"
    using panel that by (auto simp: start_panel_def Let_def split: option.splits if_splits prod.splits sum.splits)
  moreover have "panel_ok (su_panel su) p \<and> publish p (rp_service rp) = rp_service rp" if "rp_panel rp = Some p" for p
    using start_panel_Some [OF panel [unfolded that] assms(3)] tables hosts by (simp add: panel_ok_def publish_def)
  ultimately show ?thesis using tables by (simp split: option.split)
qed

text \<open>C20: 
  A relay that came up holds sound tables: every client resolves to a profile, the client list holds
  canonical addresses, the hosts table is the compilation of the configured rows, and the number of
  session slots is at most the configured one and fits into the descriptor limit. If the panel is
  enabled, its tables are the ones of the service, and they satisfy the panel's invariant.
\<close>

theorem start_establishes_tables:
  assumes "start_relay su c = Got rp" and "yaml_maps (su_yaml su)"
    and "\<And>path db. su_open_db su path = Some db \<Longrightarrow> db_ok db" and "rlimit_ok (su_rlimit su)"
  shows "registry_ok (sv_registry (rp_service rp)) \<and> acl_ok (sv_acl (rp_service rp))
    \<and> compile_hosts_table (pv_rx (su_panel su)) (hosts (rp_cfg rp)) = Inr (sv_hosts (rp_service rp))
    \<and> rp_slots rp \<le> max_connections (rp_cfg rp)
    \<and> (\<exists>lim. fst (apply_limits (su_faults su) (su_rlimit su) (rp_cfg rp)) = lim
         \<and> (2 * unat (rp_slots rp) + 128 \<le> unat (rlim_cur lim) \<or> unat (rp_slots rp) \<le> 1))
    \<and> (case rp_panel rp of
         None \<Rightarrow> \<not> pn_enabled (panel (rp_cfg rp))
       | Some p \<Rightarrow> panel_ok (su_panel su) p \<and> publish p (rp_service rp) = rp_service rp)"
proof -
  obtain limits where l: "snd (apply_limits (su_faults su) (su_rlimit su) (rp_cfg rp)) = Some limits"
    "rp_slots rp = pl_max_connections limits"
    using assms(1) by (rule start_relay_Got)
  obtain lim where lim: "apply_limits (su_faults su) (su_rlimit su) (rp_cfg rp) = (lim, Some limits)"
    using l(1) by (metis prod.collapse)
  from process_limits_fit [OF lim assms(4)] l(2) lim started_tables [OF assms(1-3)]
  show ?thesis by auto
qed

definition demo_startup :: startup where
  "demo_startup = \<lparr>su_panel = toy_env, su_yaml = (\<lambda>_. None), su_os = example_os, su_directives = (\<lambda>_. True),
     su_net = (\<lambda>_ _. Refused), su_cost = (\<lambda>_. 1), su_now = 0,
     su_faults = \<lparr>first_get_fails = False, set_fails = False, second_get_fails = False, current_get_fails = False\<rparr>,
     su_rlimit = \<lparr>rlim_cur = 256, rlim_max = 1024\<rparr>, su_metrics_bind = (\<lambda>_. True), su_open_db = (\<lambda>_. Some empty_db),
     su_bind = (\<lambda>_. True), su_fs = \<lparr>fs_files = [], fs_dirs = [], fs_can_write = (\<lambda>_. True)\<rparr>,
     su_json = one_json, su_io = no_faults, su_time = 0, su_state_fs = (\<lambda>_. None), su_interfaces = None\<rparr>"

definition demo_cli :: cli where
  "demo_cli = \<lparr>cli_config = ''config.yaml'', cli_proxy = Some ''direct'', cli_log_level = ''info'', cli_log_file = Some ''/var/log/relay.log''\<rparr>"

fun came_up :: "('e, relay_process) outcome \<Rightarrow> bool" where
  "came_up (Got rp) = (rp_panel rp \<noteq> None)"
| "came_up _ = False"

lemma demo_starts: "\<exists>rp p. start_relay demo_startup demo_cli = Got rp \<and> rp_panel rp = Some p"
proof -
  have "came_up (start_relay demo_startup demo_cli)" by code_simp
  then show ?thesis by (cases "start_relay demo_startup demo_cli") auto
qed

theorem start_returns_witness:
  "\<exists>rp. start_relay demo_startup demo_cli = Got rp \<and> (rp_upstream_ok rp \<or> \<not> upstream_probe_required (rp_cfg rp))"
  using demo_starts start_returns [of demo_startup demo_cli] by auto

lemma demo_startup_ok:
  "yaml_maps (su_yaml demo_startup)" "su_open_db demo_startup path = Some db \<Longrightarrow> db_ok db" "rlimit_ok (su_rlimit demo_startup)"
  by (auto simp: demo_startup_def yaml_maps_def rlimit_ok_def db_ok_empty)

theorem start_establishes_tables_witness:
  "\<exists>rp p. start_relay demo_startup demo_cli = Got rp \<and> rp_panel rp = Some p \<and> panel_ok toy_env p
     \<and> publish p (rp_service rp) = rp_service rp"
proof -
  obtain rp p where rp: "start_relay demo_startup demo_cli = Got rp" "rp_panel rp = Some p" using demo_starts by blast
  from start_establishes_tables [OF rp(1) demo_startup_ok] rp(2) have
    "panel_ok (su_panel demo_startup) p \<and> publish p (rp_service rp) = rp_service rp" by simp
  with rp show ?thesis by (auto simp: demo_startup_def)
qed

end
