(* ===== verification/Relay_System.thy ===== *)
theory Relay_System
  imports Relay_Main
begin

text \<open>
  The process as \<open>main\<close> leaves it running: the panel and the service share the registry, the client list and
  the hosts table. This theory holds the invariant of the shared tables, its preservation by every panel
  request, and what a saved client list or hosts table means for a look-up; \<open>Relay_Interleave\<close> adds the
  connections.
\<close>

section \<open>Automata that keep an invariant\<close>

locale kept_invariant =
  fixes act :: "'a \<Rightarrow> 's \<Rightarrow> 's" and inv :: "'s \<Rightarrow> bool" and enabled :: "'a \<Rightarrow> bool"
  assumes keep: "enabled a \<Longrightarrow> inv s \<Longrightarrow> inv (act a s)"
begin

definition exec :: "'a list \<Rightarrow> 's \<Rightarrow> 's" where
  "exec acts s = fold act acts s"

lemma exec_simps [simp]: "exec [] s = s" "exec (a # as) s = exec as (act a s)"
  by (simp_all add: exec_def)

lemma exec_keeps: "list_all enabled acts \<Longrightarrow> inv s \<Longrightarrow> inv (exec acts s)"
  by (induction acts arbitrary: s) (simp_all add: keep)

end

section \<open>Requests of the panel\<close>

text \<open>
  A request acts on the state of the panel; the tables it holds are the ones the service looks at, and the
  counters it reads are the ones the service moves.
\<close>

definition with_counters :: "relay_process \<Rightarrow> panel_state \<Rightarrow> panel_state" where
  "with_counters rp p = p\<lparr>pa_metrics := sv_metrics (rp_service rp)\<rparr>"

definition panel_request :: "panel_env \<Rightarrow> string option \<Rightarrow> request \<Rightarrow> relay_process \<Rightarrow> relay_process" where
  "panel_request env cookie r rp =
     (case rp_panel rp of
        None \<Rightarrow> rp
      | Some p \<Rightarrow>
          (let p = fst (api_router r env cookie (with_counters rp p))
           in rp\<lparr>rp_panel := Some p, rp_service := publish p (rp_service rp)\<rparr>))"

definition tables_ok :: "regex_crate \<Rightarrow> panel_state \<Rightarrow> bool" where
  "tables_ok rx p \<longleftrightarrow> db_ok (pa_db p) \<and> registry_ok (pa_registry p) \<and> acl_ok (pa_acl p)
     \<and> compile_hosts_table rx (pa_hosts_entries p) = Inr (pa_hosts_live p)"

definition process_ok :: "regex_crate \<Rightarrow> relay_process \<Rightarrow> bool" where
  "process_ok rx rp \<longleftrightarrow> registry_ok (sv_registry (rp_service rp)) \<and> acl_ok (sv_acl (rp_service rp))
     \<and> (\<forall>p. rp_panel rp = Some p \<longrightarrow> tables_ok rx p \<and> publish p (rp_service rp) = rp_service rp)"

lemma panel_ok_tables: "panel_ok env p \<longleftrightarrow> tables_ok (pv_rx env) p"
  by (simp add: panel_ok_def tables_ok_def)

lemma with_counters_simps [simp]:
  "tables_ok rx (with_counters rp p) = tables_ok rx p" "require_auth env cookie (with_counters rp p) = require_auth env cookie p"
  by (simp_all add: with_counters_def tables_ok_def require_auth_def split: option.split)

lemma request_keeps_tables:
  assumes "payload_ok r" and "tables_ok (pv_rx env) p"
  shows "tables_ok (pv_rx env) (fst (api_router r env cookie p))"
  using keeps_api_router [OF assms(1), of env] assms(2) by (simp add: keeps_def panel_ok_tables)

section \<open>Shared tables\<close>

definition same_tables :: "service_state \<Rightarrow> service_state \<Rightarrow> bool" where
  "same_tables st st' \<longleftrightarrow> sv_acl st' = sv_acl st \<and> sv_registry st' = sv_registry st \<and> sv_hosts st' = sv_hosts st"

lemma publish_fixed: "publish p sv = sv \<longleftrightarrow> sv_acl sv = pa_acl p \<and> sv_registry sv = pa_registry p \<and> sv_hosts sv = pa_hosts_live p"
  by (cases sv) (auto simp: publish_def)

lemma publish_simps [simp]:
  "sv_acl (publish p sv) = pa_acl p" "sv_registry (publish p sv) = pa_registry p" "sv_hosts (publish p sv) = pa_hosts_live p"
  "publish p (publish q sv) = publish p sv"
  by (simp_all add: publish_def)

lemma connect_candidates_some:
  "registry_ok reg \<Longrightarrow> \<exists>cs. connect_candidates reg ip = Inr cs \<and> cs \<noteq> []"
  using profile_known [of reg ip] by (auto simp: connect_candidates_def Let_def hm_contains_def)

lemma panel_request_keeps:
  assumes "payload_ok r" and "process_ok (pv_rx env) rp"
  shows "process_ok (pv_rx env) (panel_request env cookie r rp)"
proof (cases "rp_panel rp")
  case (Some p)
  with assms request_keeps_tables [of r env "with_counters rp p" cookie]
  have "tables_ok (pv_rx env) (fst (api_router r env cookie (with_counters rp p)))" by (auto simp: process_ok_def)
  with Some show ?thesis by (simp add: panel_request_def process_ok_def tables_ok_def Let_def)
qed (use assms in \<open>simp add: panel_request_def\<close>)

lemma start_process_ok:
  assumes "start_relay su c = Got rp" and "yaml_maps (su_yaml su)"
    and "\<And>path db. su_open_db su path = Some db \<Longrightarrow> db_ok db"
  shows "process_ok (pv_rx (su_panel su)) rp"
  using started_tables [OF assms] by (auto simp: process_ok_def panel_ok_tables split: option.splits)

section \<open>From a request to the next connection\<close>

text \<open>The client list a payload describes.\<close>

definition rows_admit :: "whitelist_entry list \<Rightarrow> ip_addr \<Rightarrow> bool" where
  "rows_admit rows a \<longleftrightarrow> (\<exists>w \<in> set rows. client_addr (wl_ip w) = Some a)"

lemma from_config_loop_admits:
  assumes "rows \<noteq> []" and "list_all (\<lambda>w. client_addr (wl_ip w) \<noteq> None) rows" and "ip_wf a"
  shows "is_allowed \<lparr>acl_entries = from_config_loop [] rows, acl_ufw_sync = b\<rparr> (show_ip a) \<longleftrightarrow> rows_admit rows a"
proof -
  let ?acl = "\<lparr>acl_entries = from_config_loop [] rows, acl_ufw_sync = b\<rparr>"
  have get: "acl_abs ?acl x \<noteq> None \<longleftrightarrow> rows_admit rows x" if "ip_wf x" for x
    using that from_config_loop_get [OF bt.inv_empty, of rows "show_ip x"] client_addr_wf
    by (fastforce simp: acl_abs_def rows_admit_def normalize_addr show_ip_inj bt.get_empty find_None_iff
        split: option.splits dest: find_SomeD)
  obtain w x where "w \<in> set rows" "client_addr (wl_ip w) = Some x"
    using assms(1,2) by (cases rows) auto
  then have "acl_abs ?acl x \<noteq> None" using get [OF client_addr_wf] by (auto simp: rows_admit_def)
  then have "acl_abs ?acl \<noteq> Map.empty" by auto
  moreover have "client_addr (show_ip a) = Some a"
    unfolding client_addr_def using assms(3) parse_show_ip no_ws_show_ip no_ws_trim by metis
  ultimately show ?thesis
    using is_allowed_abs [OF from_config_loop_ok [OF acl_ok_empty], of rows b "show_ip a"] get [OF assms(3)] by simp
qed

lemma panel_request_service:
  "rp_panel rp = Some p \<Longrightarrow>
     rp_service (panel_request env cookie r rp) = publish (fst (api_router r env cookie (with_counters rp p))) (rp_service rp)"
  by (simp add: panel_request_def Let_def)

lemma put_whitelist_acl:
  assumes "require_auth env cookie p" and "list_all (\<lambda>w. client_addr (wl_ip w) \<noteq> None) (payload_rows body)"
  shows "\<exists>b. pa_acl (fst (api_router (PutWhitelist body) env cookie p)) =
    \<lparr>acl_entries = from_config_loop [] (payload_rows body), acl_ufw_sync = b\<rparr>"
proof -
  have "list_all (\<lambda>w. normalize_client_ip (wl_ip w) \<noteq> None) (payload_rows body)"
    using assms(2) by (simp add: normalize_addr)
  note loop = from_parts_loop_config [OF this, of "[]"]
  show ?thesis
    using assms(1) loop by (auto simp: put_whitelist_def authed_def from_parts_def Let_def split: prod.split)
qed

lemma put_hosts_table:
  assumes "require_auth env cookie p" and "rows_ok (pv_rx env) rows" and "rows \<noteq> []"
  obtains t where "compile (pv_rx env) rows = Inr t"
    and "pa_hosts_live (fst (api_router (PutHosts rows) env cookie p)) = Some t"
proof -
  obtain t where t: "compile (pv_rx env) rows = Inr t" using assms(2) compile_ok_iff by blast
  then have "pa_hosts_live (fst (api_router (PutHosts rows) env cookie p)) = Some t"
    using assms(1,3) by (simp add: put_hosts_def authed_def compile_hosts_table_def on_fs_def Let_def split: prod.split)
  with t that show ?thesis by blast
qed

end
