(* ===== verification/Relay_Interleave.thy ===== *)
theory Relay_Interleave
  imports Relay_Steps Relay_System Relay_Traffic
begin

text \<open>
  Many connections at once: the running process with the moves of all connections, the requests of the
  panel, the aggregator of traffic samples and the removal of expired sessions, in any order. The theorems
  show that under every interleaving each guard is decided by the table of the moment it is consulted, that
  bytes are relayed unchanged and sessions end, that the counters equal what the connections did, and that
  the sample of every session is recorded once.
\<close>

section \<open>The process\<close>

text \<open>
  Beside the connections run the panel, the aggregator of traffic samples and the hourly removal of expired
  sessions. \<open>lv_buf\<close> is the buffer of the aggregator; \<open>lv_batches\<close> is the history of the batches it has handed
  to the database of the panel.
\<close>

record live =
  lv_relay :: relay_process
  lv_conns :: "conn list"
  lv_buf :: "sample_row list"
  lv_batches :: "(nat \<times> sample_row list) list"

datatype live_event =
    Ask panel_env "string option" request
  | Accept string u16 string sock
  | Move nat surroundings direction
  | Collect clock nat
  | Flush clock nat
  | Expire clock nat

definition on_service :: "(service_state \<Rightarrow> service_state) \<Rightarrow> relay_process \<Rightarrow> relay_process" where
  "on_service f rp = rp\<lparr>rp_service := f (rp_service rp)\<rparr>"

definition on_panel_db :: "(panel_db \<Rightarrow> panel_db) \<Rightarrow> relay_process \<Rightarrow> relay_process" where
  "on_panel_db f rp = rp\<lparr>rp_panel := map_option (\<lambda>p. p\<lparr>pa_db := f (pa_db p)\<rparr>) (rp_panel rp)\<rparr>"

definition flush_live :: "clock \<Rightarrow> nat \<Rightarrow> live \<Rightarrow> live" where
  "flush_live ck now s =
     (if lv_buf s = [] then s
      else s\<lparr>lv_relay := on_panel_db (\<lambda>db. fst (apply_traffic_batch ck now (lv_buf s) db)) (lv_relay s),
             lv_batches := lv_batches s @ [(now, lv_buf s)], lv_buf := []\<rparr>)"

definition collect :: "clock \<Rightarrow> nat \<Rightarrow> live \<Rightarrow> live" where
  "collect ck now s =
     (case sv_traffic (rp_service (lv_relay s)) of
        Some (x # q) \<Rightarrow>
          (let s = s\<lparr>lv_relay := on_service (\<lambda>st. st\<lparr>sv_traffic := Some q\<rparr>) (lv_relay s), lv_buf := lv_buf s @ [x]\<rparr>
           in if FLUSH_LEN \<le> length (lv_buf s) then flush_live ck now s else s)
      | _ \<Rightarrow> s)"

fun live_step :: "live_event \<Rightarrow> live \<Rightarrow> live" where
  "live_step (Ask env cookie r) s = s\<lparr>lv_relay := panel_request env cookie r (lv_relay s)\<rparr>"
| "live_step (Accept proto lport peer client) s =
     s\<lparr>lv_relay := on_service (on_metrics (connection_accepted peer)) (lv_relay s),
       lv_conns := lv_conns s @ [new_conn proto lport peer client]\<rparr>"
| "live_step (Move i env d) s =
     (if i < length (lv_conns s)
      then case conn_step env (rp_guard (lv_relay s)) d (lv_conns s ! i) (rp_service (lv_relay s)) of
             (c, st) \<Rightarrow> s\<lparr>lv_relay := on_service (\<lambda>_. st) (lv_relay s), lv_conns := (lv_conns s)[i := c]\<rparr>
      else s)"
| "live_step (Collect ck now) s = collect ck now s"
| "live_step (Flush ck now) s = flush_live ck now s"
| "live_step (Expire ck now) s = s\<lparr>lv_relay := on_panel_db (\<lambda>db. fst (cleanup_sessions ck now db)) (lv_relay s)\<rparr>"

definition live_run :: "live_event list \<Rightarrow> live \<Rightarrow> live" where
  "live_run events s = fold live_step events s"

lemma live_run_simps [simp]:
  "live_run [] s = s" "live_run (e # es) s = live_run es (live_step e s)"
  "live_run (es @ fs) s = live_run fs (live_run es s)"
  by (simp_all add: live_run_def)

section \<open>One connection among the others\<close>

text \<open>
  The moves of connection \<open>i\<close> in a run, each with the surroundings and the shared state it met. They
  determine the connection: other events act on it only through what it sees.
\<close>

fun views :: "nat \<Rightarrow> live_event list \<Rightarrow> live \<Rightarrow> view list" where
  "views i [] s = []"
| "views i (e # es) s =
     (case e of
        Move j env d \<Rightarrow> if j = i then (env, d, rp_service (lv_relay s)) # views i es (live_step e s)
                        else views i es (live_step e s)
      | _ \<Rightarrow> views i es (live_step e s))"

lemma on_service_simps [simp]:
  "rp_guard (on_service f rp) = rp_guard rp" "rp_service (on_service f rp) = f (rp_service rp)"
  "rp_panel (on_service f rp) = rp_panel rp"
  by (simp_all add: on_service_def)

lemma on_panel_db_simps [simp]:
  "rp_guard (on_panel_db f rp) = rp_guard rp" "rp_service (on_panel_db f rp) = rp_service rp"
  by (simp_all add: on_panel_db_def)

lemma panel_request_frame [simp]:
  "rp_guard (panel_request env cookie r rp) = rp_guard rp"
  "sv_metrics (rp_service (panel_request env cookie r rp)) = sv_metrics (rp_service rp)"
  "sv_traffic (rp_service (panel_request env cookie r rp)) = sv_traffic (rp_service rp)"
  by (simp_all add: panel_request_def publish_def Let_def split: option.split)

lemma aggregator_frame [simp]:
  "lv_conns (flush_live ck now s) = lv_conns s" "rp_guard (lv_relay (flush_live ck now s)) = rp_guard (lv_relay s)"
  "rp_service (lv_relay (flush_live ck now s)) = rp_service (lv_relay s)"
  "lv_conns (collect ck now s) = lv_conns s" "rp_guard (lv_relay (collect ck now s)) = rp_guard (lv_relay s)"
  "sv_metrics (rp_service (lv_relay (collect ck now s))) = sv_metrics (rp_service (lv_relay s))"
  by (simp_all add: flush_live_def collect_def Let_def split: option.split list.split)

lemma live_step_frame:
  "rp_guard (lv_relay (live_step e s)) = rp_guard (lv_relay s)" "length (lv_conns s) \<le> length (lv_conns (live_step e s))"
  by (cases e; simp split: prod.split)+

lemma conn_projection:
  assumes "i < length (lv_conns s)"
  shows "lv_conns (live_run es s) ! i = conn_after (rp_guard (lv_relay s)) (lv_conns s ! i) (views i es s)"
  using assms
proof (induction es arbitrary: s)
  case (Cons e es)
  have "i < length (lv_conns (live_step e s))" using Cons.prems live_step_frame(2) [of s e] by linarith
  note ih = Cons.IH [OF this]
  show ?case
    using Cons.prems ih [unfolded live_step_frame]
    by (cases e) (auto simp: nth_append Let_def split: prod.splits)
qed simp

text \<open>C1: 
  Under every interleaving of connections and panel requests, a connection that has made an attempt was
  admitted by each guard in turn, and each of them by the table that was current at the moment the handler
  consulted it: its first move found the client in the client list, the limiter of its third move admitted
  the name read from it, the hosts table of its fourth gave the destination, which does not lead back to a
  listener, and the attempts are a prefix of the candidates that the registry of its sixth move gave for
  the client, in their order.
\<close>

theorem admission_under_interleaving:
  assumes "i < length (lv_conns s)" and "lv_conns s ! i = new_conn proto lport peer client"
    and "vs = views i events s" and "ds = cn_dials (lv_conns (live_run events s) ! i)" and "ds \<noteq> []"
  shows "6 < length vs \<and> is_allowed (sv_acl (seen vs 0)) (client_ip_from_peer peer)
    \<and> (\<exists>hostname port flight overflow client' host dport mapped candidates k.
        extract_peeked proto client lport = Got ((hostname, port, flight, overflow), client')
      \<and> admits (env_now (around vs 2)) hostname (sv_limiter (seen vs 2))
      \<and> resolve_destination (env_rx (around vs 3)) hostname port lport (sv_hosts (seen vs 3)) = DestOk host dport mapped
      \<and> \<not> would_loop (env_lookup (around vs 4)) (rp_guard (lv_relay s)) host dport
      \<and> connect_candidates (sv_registry (seen vs 5)) (client_ip_from_peer peer) = Inr candidates
      \<and> ds = map (attempt host dport) (take k candidates))"
  by (rule new_conn_dials) (use conn_projection [OF assms(1)] assms in simp_all)

section \<open>Counters\<close>

text \<open>
  A counter that every move changes by what the connection's own share of it changes: then the counter is
  the sum of the shares, whatever the order of the moves.
\<close>

locale conn_counter =
  fixes count :: "metrics \<Rightarrow> 'a :: ab_group_add" and share :: "conn \<Rightarrow> 'a"
  assumes step: "count (sv_metrics (snd (conn_step env guard d c st))) =
      count (sv_metrics st) + (share (fst (conn_step env guard d c st)) - share c)"
    and fresh: "share (new_conn proto lport peer client) = 0"
    and accepted: "count (connection_accepted peer m) = count m"
begin

definition total :: "live \<Rightarrow> 'a" where
  "total s = sum_list (map share (lv_conns s))"

lemma sum_share_update:
  "i < length cs \<Longrightarrow> sum_list (map share (cs[i := c])) = sum_list (map share cs) + (share c - share (cs ! i))"
proof (induction cs arbitrary: i)
  case (Cons a cs)
  then show ?case by (cases i) (simp_all add: algebra_simps)
qed simp

lemma step_counts:
  "count (sv_metrics (rp_service (lv_relay (live_step e s)))) - total (live_step e s)
     = count (sv_metrics (rp_service (lv_relay s))) - total s"
proof (cases e)
  case (Move i env d)
  show ?thesis
  proof (cases "i < length (lv_conns s)")
    case True
    let ?g = "rp_guard (lv_relay s)"
    let ?c = "lv_conns s ! i"
    let ?st = "rp_service (lv_relay s)"
    have "total (live_step e s) = total s + (share (fst (conn_step env ?g d ?c ?st)) - share ?c)"
      using sum_share_update [OF True] True Move by (simp add: total_def split: prod.split)
    moreover have "rp_service (lv_relay (live_step e s)) = snd (conn_step env ?g d ?c ?st)"
      using True Move by (simp split: prod.split)
    ultimately show ?thesis using step [of env ?g d ?c ?st] by simp
  qed (use Move in simp)
qed (simp_all add: total_def fresh accepted)

lemma run_counts:
  "count (sv_metrics (rp_service (lv_relay (live_run events s)))) - total (live_run events s)
     = count (sv_metrics (rp_service (lv_relay s))) - total s"
proof (induction events arbitrary: s)
  case (Cons e events)
  then show ?case using step_counts [of e s] by simp
qed simp

lemma run_from_empty:
  assumes "lv_conns s = []"
  shows "count (sv_metrics (rp_service (lv_relay (live_run events s)))) =
    count (sv_metrics (rp_service (lv_relay s))) + sum_list (map share (lv_conns (live_run events s)))"
  using run_counts [of events s] assms by (simp add: total_def algebra_simps)

end

definition session_open :: "conn \<Rightarrow> bool" where
  "session_open c = (case cn_phase c of Replaying _ _ \<Rightarrow> True | Copying _ _ \<Rightarrow> True | _ \<Rightarrow> False)"

definition was_opened :: "conn \<Rightarrow> bool" where
  "was_opened c =
     (case cn_phase c of
        Replaying _ _ \<Rightarrow> True
      | Copying _ _ \<Rightarrow> True
      | Ended (Completed _ _) _ \<Rightarrow> True
      | Ended (Failed (ReplayFailed _)) _ \<Rightarrow> True
      | _ \<Rightarrow> False)"

definition has_failed :: "conn \<Rightarrow> bool" where
  "has_failed c = (case cn_phase c of Ended (Failed _) _ \<Rightarrow> True | _ \<Rightarrow> False)"

definition bytes_relayed :: "conn \<Rightarrow> u64" where
  "bytes_relayed c = (case cn_phase c of Ended (Completed c2u u2c) _ \<Rightarrow> c2u + u2c | _ \<Rightarrow> 0)"

definition rejected_as :: "string list \<Rightarrow> conn \<Rightarrow> bool" where
  "rejected_as k c = (case cn_phase c of Ended (Rejected reason) _ \<Rightarrow> k = [tl_domain (cn_labels c), reason] | _ \<Rightarrow> False)"

lemmas share_defs = session_open_def was_opened_def has_failed_def bytes_relayed_def rejected_as_def

lemmas metric_defs = connection_opened_def connection_closed_def connection_failed_def connection_rejected_def
  connection_accepted_def add_at_def Let_def


interpretation active: conn_counter mt_active "\<lambda>c. of_bool (session_open c)"
proof
  fix env guard d c st
  show "mt_active (sv_metrics (snd (conn_step env guard d c st))) = mt_active (sv_metrics st)
    + (of_bool (session_open (fst (conn_step env guard d c st))) - of_bool (session_open c))"
    by (cases "cn_phase c") (auto simp: conn_defs share_defs metric_defs split: move_splits)
qed (simp_all add: share_defs metric_defs)

interpretation active_by: conn_counter "\<lambda>m. mt_active_by m lv"
    "\<lambda>c. of_bool (session_open c \<and> as_label_values (cn_labels c) = lv)" for lv
proof
  fix env guard d c st
  show "mt_active_by (sv_metrics (snd (conn_step env guard d c st))) lv = mt_active_by (sv_metrics st) lv
    + (of_bool (session_open (fst (conn_step env guard d c st)) \<and> as_label_values (cn_labels (fst (conn_step env guard d c st))) = lv)
       - of_bool (session_open c \<and> as_label_values (cn_labels c) = lv))"
    by (cases "cn_phase c") (auto simp: conn_defs share_defs metric_defs split: move_splits)
qed (simp_all add: share_defs metric_defs)

interpretation opened: conn_counter mt_total "\<lambda>c. of_bool (was_opened c)"
proof
  fix env guard d c st
  show "mt_total (sv_metrics (snd (conn_step env guard d c st))) = mt_total (sv_metrics st)
    + (of_bool (was_opened (fst (conn_step env guard d c st))) - of_bool (was_opened c))"
    by (cases "cn_phase c") (auto simp: conn_defs share_defs metric_defs split: move_splits)
qed (simp_all add: share_defs metric_defs)

interpretation failed: conn_counter mt_errors "\<lambda>c. of_bool (has_failed c)"
proof
  fix env guard d c st
  show "mt_errors (sv_metrics (snd (conn_step env guard d c st))) = mt_errors (sv_metrics st)
    + (of_bool (has_failed (fst (conn_step env guard d c st))) - of_bool (has_failed c))"
    by (cases "cn_phase c") (auto simp: conn_defs share_defs metric_defs split: move_splits)
qed (simp_all add: share_defs metric_defs)

interpretation relayed: conn_counter mt_bytes bytes_relayed
proof
  fix env guard d c st
  show "mt_bytes (sv_metrics (snd (conn_step env guard d c st))) = mt_bytes (sv_metrics st)
    + (bytes_relayed (fst (conn_step env guard d c st)) - bytes_relayed c)"
    by (cases "cn_phase c") (auto simp: conn_defs share_defs metric_defs split: move_splits)
qed (simp_all add: share_defs metric_defs)

interpretation rejected: conn_counter "\<lambda>m. mt_rejected_by m k" "\<lambda>c. of_bool (rejected_as k c)" for k
proof
  fix env guard d c st
  show "mt_rejected_by (sv_metrics (snd (conn_step env guard d c st))) k = mt_rejected_by (sv_metrics st) k
    + (of_bool (rejected_as k (fst (conn_step env guard d c st))) - of_bool (rejected_as k c))"
    by (cases "cn_phase c") (auto simp: conn_defs share_defs metric_defs split: move_splits)
qed (simp_all add: share_defs metric_defs)

lemma sum_list_of_bool: "sum_list (map (\<lambda>c. of_bool (P c)) cs) = (of_nat (length (filter P cs)) :: 'a :: semiring_1)"
  by (induction cs) simp_all

definition how_many :: "(conn \<Rightarrow> bool) \<Rightarrow> live \<Rightarrow> nat" where
  "how_many P s = length (filter P (lv_conns s))"

lemma run_counters:
  assumes "lv_conns s = []" and "sv_metrics (rp_service (lv_relay s)) = no_metrics"
    and "s' = live_run events s" and "m = sv_metrics (rp_service (lv_relay s'))"
  shows "mt_active m = int (how_many session_open s')
    \<and> mt_active_by m lv = int (how_many (\<lambda>c. session_open c \<and> as_label_values (cn_labels c) = lv) s')
    \<and> mt_total m = of_nat (how_many was_opened s') \<and> mt_errors m = of_nat (how_many has_failed s')
    \<and> mt_rejected_by m [domain, reason] = of_nat (how_many (rejected_as [domain, reason]) s')
    \<and> mt_bytes m = sum_list (map bytes_relayed (lv_conns s'))"
  unfolding assms(3,4) how_many_def
  using assms(2) active.run_from_empty [OF assms(1)] active_by.run_from_empty [OF assms(1)]
    opened.run_from_empty [OF assms(1)] failed.run_from_empty [OF assms(1)]
    rejected.run_from_empty [OF assms(1)] relayed.run_from_empty [OF assms(1)]
  by (simp add: sum_list_of_bool no_metrics_def)




section \<open>The tables stay sound\<close>

lemma conn_step_tables: "same_tables st (snd (conn_step env guard d c st))"
  by (cases "cn_phase c") (auto simp: conn_defs same_tables_def Let_def split: move_splits)

definition lacks_profile :: "conn \<Rightarrow> bool" where
  "lacks_profile c = (case cn_phase c of Ended (Failed (RegistryFailed _)) _ \<Rightarrow> True | _ \<Rightarrow> False)"

lemma conn_step_profile:
  assumes "registry_ok (sv_registry st)" and "\<not> lacks_profile c"
  shows "\<not> lacks_profile (fst (conn_step env guard d c st))"
proof -
  obtain cs where "connect_candidates (sv_registry st) (tl_client_ip (cn_labels c)) = Inr cs"
    using connect_candidates_some [OF assms(1)] by blast
  with assms(2) show ?thesis
    by (cases "cn_phase c") (auto simp: conn_defs lacks_profile_def Let_def split: move_splits)
qed

definition live_ok :: "regex_crate \<Rightarrow> live \<Rightarrow> bool" where
  "live_ok rx s \<longleftrightarrow> process_ok rx (lv_relay s) \<and> list_all (\<lambda>c. \<not> lacks_profile c) (lv_conns s)"

text \<open>The requests of one process see the same regular expressions; JSON maps have distinct keys.\<close>

fun event_ok :: "regex_crate \<Rightarrow> live_event \<Rightarrow> bool" where
  "event_ok rx (Ask env cookie r) \<longleftrightarrow> pv_rx env = rx \<and> payload_ok r"
| "event_ok rx _ \<longleftrightarrow> True"

lemma process_ok_service:
  "process_ok rx rp \<Longrightarrow> same_tables (rp_service rp) st \<Longrightarrow> process_ok rx (on_service (\<lambda>_. st) rp)"
  by (auto simp: process_ok_def same_tables_def publish_fixed)

lemma on_service_const: "on_service f rp = on_service (\<lambda>_. f (rp_service rp)) rp"
  by (simp add: on_service_def)

lemma process_ok_db: "process_ok rx rp \<Longrightarrow> keeps_ok f \<Longrightarrow> process_ok rx (on_panel_db (\<lambda>db. fst (f db)) rp)"
  by (auto simp: process_ok_def on_panel_db_def tables_ok_def keeps_ok_def publish_fixed)

lemma flush_live_ok: "live_ok rx s \<Longrightarrow> live_ok rx (flush_live ck now s)"
  using process_ok_db [OF _ keeps_operations(5)] by (simp add: live_ok_def flush_live_def)

lemma collect_ok:
  assumes "live_ok rx s"
  shows "live_ok rx (collect ck now s)"
proof (cases "sv_traffic (rp_service (lv_relay s))")
  case (Some q)
  show ?thesis
  proof (cases q)
    case (Cons x xs)
    let ?s = "s\<lparr>lv_relay := on_service (\<lambda>st. st\<lparr>sv_traffic := Some xs\<rparr>) (lv_relay s), lv_buf := lv_buf s @ [x]\<rparr>"
    have "process_ok rx (on_service (\<lambda>st. st\<lparr>sv_traffic := Some xs\<rparr>) (lv_relay s))"
      using assms process_ok_service on_service_const by (simp add: live_ok_def same_tables_def process_ok_def publish_fixed)
    then have "live_ok rx ?s" using assms by (simp add: live_ok_def)
    with flush_live_ok [OF this] show ?thesis using Some Cons by (simp add: collect_def Let_def)
  qed (use assms Some in \<open>simp add: collect_def\<close>)
qed (use assms in \<open>simp add: collect_def\<close>)

interpretation live: kept_invariant live_step "live_ok rx" "event_ok rx" for rx
proof
  fix e s assume e: "event_ok rx e" and ok: "live_ok rx s"
  show "live_ok rx (live_step e s)"
  proof (cases e)
    case (Ask env cookie r)
    then show ?thesis using e ok panel_request_keeps by (auto simp: live_ok_def)
  next
    case (Accept proto lport peer client)
    have "process_ok rx (on_service (on_metrics (connection_accepted peer)) (lv_relay s))"
      using ok by (simp add: live_ok_def process_ok_def publish_fixed)
    then show ?thesis using Accept ok by (simp add: live_ok_def lacks_profile_def)
  next
    case (Move i env d)
    show ?thesis
    proof (cases "i < length (lv_conns s)")
      case True
      let ?r = "conn_step env (rp_guard (lv_relay s)) d (lv_conns s ! i) (rp_service (lv_relay s))"
      have "registry_ok (sv_registry (rp_service (lv_relay s)))" using ok by (simp add: live_ok_def process_ok_def)
      moreover have "\<not> lacks_profile (lv_conns s ! i)" using ok True by (simp add: live_ok_def list_all_length)
      ultimately have "\<not> lacks_profile (fst ?r)" by (rule conn_step_profile)
      then have "list_all (\<lambda>c. \<not> lacks_profile c) ((lv_conns s)[i := fst ?r])"
        using ok by (auto simp: live_ok_def list_all_iff dest!: set_update_subset_insert [THEN subsetD])
      moreover have "process_ok rx (on_service (\<lambda>_. snd ?r) (lv_relay s))"
        using ok process_ok_service [OF _ conn_step_tables] by (simp add: live_ok_def)
      ultimately show ?thesis using Move True by (simp add: live_ok_def case_prod_beta)
    qed (use Move ok in simp)
  next
    case (Expire ck now)
    then show ?thesis using ok process_ok_db [OF _ keeps_operations(4)] by (simp add: live_ok_def)
  qed (use ok flush_live_ok collect_ok in simp_all)
qed

lemma live_run_exec: "live_run = live.exec"
  by (simp add: fun_eq_iff live_run_def live.exec_def)

text \<open>Without requests of the panel every move of a connection meets the same tables.\<close>

fun no_request :: "live_event \<Rightarrow> bool" where
  "no_request (Ask _ _ _) = False"
| "no_request _ = True"

lemma same_tables_refl [simp]: "same_tables st st"
  by (simp add: same_tables_def)

lemma same_tables_trans: "same_tables a b \<Longrightarrow> same_tables b c \<Longrightarrow> same_tables a c"
  by (simp add: same_tables_def)

lemma no_request_tables:
  assumes "no_request e"
  shows "same_tables (rp_service (lv_relay s)) (rp_service (lv_relay (live_step e s)))"
proof (cases e)
  case (Move i env d)
  then show ?thesis using conn_step_tables by (simp add: case_prod_beta)
qed (use assms in \<open>simp_all add: same_tables_def collect_def Let_def split: option.split list.split\<close>)

lemma no_request_run:
  "list_all no_request es \<Longrightarrow> same_tables (rp_service (lv_relay s)) (rp_service (lv_relay (live_run es s)))"
proof (induction es arbitrary: s)
  case (Cons e es)
  then show ?case using same_tables_trans [OF no_request_tables [of e s]] by simp
qed simp

lemma views_tables:
  assumes "list_all no_request es" and "n < length (views i es s)"
  shows "same_tables (rp_service (lv_relay s)) (seen (views i es s) n)"
  using assms
proof (induction es arbitrary: s n)
  case (Cons e es)
  then have e: "no_request e" "list_all no_request es" by simp_all
  note tail = same_tables_trans [OF no_request_tables [OF e(1)] Cons.IH [OF e(2)]]
  show ?case
  proof (cases "\<exists>env d. e = Move i env d")
    case True
    then obtain env d where m: "e = Move i env d" by blast
    then show ?thesis
      using Cons.prems(2) tail [of "n - 1" s] by (cases n) (simp_all del: live_step.simps)
  next
    case False
    then have "views i (e # es) s = views i es (live_step e s)" by (cases e) auto
    then show ?thesis using Cons.prems(2) tail [of n s] by simp
  qed
qed simp

section \<open>Traffic samples\<close>

definition sample_of :: "conn \<Rightarrow> sample_row list" where
  "sample_of c =
     (case cn_phase c of
        Ended (Completed c2u u2c) _ \<Rightarrow> [(tl_client_ip (cn_labels c), tl_domain (cn_labels c), c2u, u2c)]
      | _ \<Rightarrow> [])"

definition queue_of :: "live \<Rightarrow> sample_row list" where
  "queue_of s = (case sv_traffic (rp_service (lv_relay s)) of Some q \<Rightarrow> q | None \<Rightarrow> [])"

definition recorded :: "live \<Rightarrow> sample_row list" where
  "recorded s = concat (map snd (lv_batches s)) @ lv_buf s @ queue_of s"

definition finished_samples :: "live \<Rightarrow> sample_row list" where
  "finished_samples s = concat (map sample_of (lv_conns s))"

lemma conn_step_traffic:
  "sample_of (fst (conn_step env guard d c st)) = sample_of c \<and> sv_traffic (snd (conn_step env guard d c st)) = sv_traffic st
   \<or> sample_of c = [] \<and> (\<exists>ip dom a b. sample_of (fst (conn_step env guard d c st)) = [(ip, dom, a, b)]
       \<and> sv_traffic (snd (conn_step env guard d c st)) = record_traffic ip dom a b (sv_traffic st))"
  by (cases "cn_phase c") (auto simp: conn_defs sample_of_def Let_def split: move_splits)

text \<open>The queue in front of the aggregator takes another sample.\<close>

definition has_room :: "live \<Rightarrow> bool" where
  "has_room s \<longleftrightarrow> (\<exists>q. sv_traffic (rp_service (lv_relay s)) = Some q \<and> length q < TRAFFIC_QUEUE)"

lemma mset_concat_update:
  "i < length cs \<Longrightarrow> mset (concat (map f (cs[i := c]))) + mset (f (cs ! i)) = mset (concat (map f cs)) + mset (f c)"
proof (induction cs arbitrary: i)
  case (Cons a cs)
  then show ?case by (cases i) (auto simp: ac_simps)
qed simp

lemma balance_same:
  fixes a b c d x y :: "'a multiset"
  assumes "a + x = b + y" and "c + x = d + y"
  shows "a + d = b + c"
proof (rule multiset_eqI)
  fix z
  show "count (a + d) z = count (b + c) z"
    using arg_cong [OF assms(1), of "\<lambda>m. count m z"] arg_cong [OF assms(2), of "\<lambda>m. count m z"] by simp
qed

lemma balance_chain:
  fixes a b c u x y :: "'a multiset"
  assumes "a + x = b + y" and "b + u = c + x"
  shows "a + u = c + y"
proof (rule multiset_eqI)
  fix z
  show "count (a + u) z = count (c + y) z"
    using arg_cong [OF assms(1), of "\<lambda>m. count m z"] arg_cong [OF assms(2), of "\<lambda>m. count m z"] by simp
qed

lemma recorded_flush [simp]: "recorded (flush_live ck now s) = recorded s"
  by (simp add: flush_live_def recorded_def queue_of_def)

lemma recorded_collect: "recorded (collect ck now s) = recorded s"
  by (auto simp: collect_def recorded_def queue_of_def flush_live_def Let_def split: option.split list.split)

lemma recorded_step:
  assumes "has_room s"
  shows "mset (recorded (live_step e s)) + mset (finished_samples s) = mset (recorded s) + mset (finished_samples (live_step e s))"
proof (cases e)
  case (Move i env d)
  show ?thesis
  proof (cases "i < length (lv_conns s)")
    case True
    let ?c = "lv_conns s ! i"
    let ?st = "rp_service (lv_relay s)"
    let ?r = "conn_step env (rp_guard (lv_relay s)) d ?c ?st"
    obtain q where q: "sv_traffic ?st = Some q" "length q < TRAFFIC_QUEUE" using assms by (auto simp: has_room_def)
    have s': "live_step e s = s\<lparr>lv_relay := on_service (\<lambda>_. snd ?r) (lv_relay s), lv_conns := (lv_conns s)[i := fst ?r]\<rparr>"
      using Move True by (simp add: case_prod_beta)
    have "sv_traffic (snd ?r) = Some (q @ sample_of (fst ?r)) \<and> sample_of ?c = []
        \<or> sv_traffic (snd ?r) = Some q \<and> sample_of (fst ?r) = sample_of ?c"
      using conn_step_traffic [of env "rp_guard (lv_relay s)" d ?c ?st] q by (auto simp: record_traffic_def)
    then have "mset (recorded (live_step e s)) + mset (sample_of ?c) = mset (recorded s) + mset (sample_of (fst ?r))"
      unfolding s' using q(1) by (auto simp: recorded_def queue_of_def ac_simps)
    moreover have "mset (finished_samples (live_step e s)) + mset (sample_of ?c) = mset (finished_samples s) + mset (sample_of (fst ?r))"
      unfolding s' finished_samples_def using mset_concat_update [OF True, of sample_of "fst ?r"] by simp
    ultimately show ?thesis by (rule balance_same)
  qed (use Move in simp)
next
  case (Collect ck now)
  then show ?thesis by (simp add: recorded_collect finished_samples_def)
next
  case (Flush ck now)
  then show ?thesis by (simp add: finished_samples_def)
qed (simp_all add: finished_samples_def recorded_def queue_of_def sample_of_def)

lemma recorded_run:
  assumes "\<And>n. n < length events \<Longrightarrow> has_room (live_run (take n events) s)"
  shows "mset (recorded (live_run events s)) + mset (finished_samples s) = mset (recorded s) + mset (finished_samples (live_run events s))"
  using assms
proof (induction events rule: rev_induct)
  case (snoc e es)
  have ih: "mset (recorded (live_run es s)) + mset (finished_samples s) = mset (recorded s) + mset (finished_samples (live_run es s))"
    by (rule snoc.IH) (use snoc.prems in \<open>force simp: less_Suc_eq\<close>)
  have "has_room (live_run es s)" using snoc.prems [of "length es"] by simp
  from balance_chain [OF recorded_step [OF this, of e] ih] show ?case by simp
qed simp


section \<open>An example\<close>

text \<open>
  A client that is admitted, taken off the client list while its handler is running, and served to the end.
\<close>

definition demo_process :: relay_process where
  "demo_process = \<lparr>rp_cfg = default_app_config, rp_upstream_ok = True, rp_slots = 8, rp_guard = demo_guard,
     rp_panel = Some auth_state, rp_service = demo_state\<lparr>sv_traffic := Some []\<rparr>\<rparr>"

definition demo_rows :: whitelist_payload where
  "demo_rows = \<lparr>wp_ips = [], wp_entries = [\<lparr>wl_ip = '' 10.0.0.9'', wl_username = Some ''ada''\<rparr>], wp_ufw_sync = None\<rparr>"

definition demo_live :: live where
  "demo_live = \<lparr>lv_relay = demo_process, lv_conns = [], lv_buf = [], lv_batches = []\<rparr>"

definition demo_accept :: live_event where
  "demo_accept = Accept ''tls'' 443 ''10.0.0.7:5000'' demo_client"

definition demo_moves :: "live_event list" where
  "demo_moves = Move 0 demo_env C2U # Ask toy_env auth_cookie (PutWhitelist demo_rows) # replicate 8 (Move 0 demo_env C2U)"

definition demo_copy :: "live_event list" where
  "demo_copy = replicate 4 (Move 0 demo_env C2U) @ replicate 2 (Move 0 demo_env U2C) @ [Move 0 demo_env C2U, Collect sample_clock 0]"

definition summary :: "live \<Rightarrow> dial_attempt list \<times> nat \<times> bool" where
  "summary s = (cn_dials (lv_conns s ! 0), how_many session_open s, session_of (cn_phase (lv_conns s ! 0)) \<noteq> None)"

lemma demo_summary:
  "summary (live_run demo_moves (live_step demo_accept demo_live)) = ([(''me'', ''example.com'', 443)], 1, True)"
  by code_simp

lemmas demo_run = demo_summary [unfolded summary_def prod.inject]

lemma demo_start:
  "lv_conns (live_step demo_accept demo_live) = [new_conn ''tls'' 443 ''10.0.0.7:5000'' demo_client]"
  by (simp add: demo_accept_def demo_live_def)

theorem admission_under_interleaving_witness:
  "is_allowed (sv_acl (seen (views 0 demo_moves (live_step demo_accept demo_live)) 0)) (client_ip_from_peer ''10.0.0.7:5000'')
   \<and> cn_dials (lv_conns (live_run demo_moves (live_step demo_accept demo_live)) ! 0) = [(''me'', ''example.com'', 443)]"
  using admission_under_interleaving [of 0 "live_step demo_accept demo_live", OF _ _ refl refl] demo_run demo_start by auto



definition chat_live :: live where
  "chat_live = demo_live\<lparr>lv_conns := [to_phase (Copying ''d'' (splice_start chat_client chat_server None))
     (new_conn ''tls'' 443 ''10.0.0.7:5000'' demo_client)]\<rparr>"

definition chat_moves :: "live_event list" where
  "chat_moves = replicate 4 (Move 0 demo_env C2U) @ replicate 2 (Move 0 demo_env U2C) @ [Move 0 demo_env C2U]"

lemma chat_views: "map (\<lambda>(_, d, _). d) (views 0 chat_moves chat_live) = [C2U, C2U, C2U, C2U, U2C, U2C, C2U]"
  by code_simp


lemma queue_grows:
  assumes "sv_traffic (rp_service (lv_relay s)) = Some q"
  shows "\<exists>q'. sv_traffic (rp_service (lv_relay (live_step e s))) = Some q' \<and> length q' \<le> Suc (length q)"
proof (cases e)
  case (Move i env d)
  then show ?thesis
    using assms conn_step_traffic [of env "rp_guard (lv_relay s)" d "lv_conns s ! i" "rp_service (lv_relay s)"]
    by (auto simp: case_prod_beta record_traffic_def)
qed (use assms in \<open>auto simp: collect_def Let_def split: list.split\<close>)

lemma room_for:
  assumes "sv_traffic (rp_service (lv_relay s)) = Some q" and "length q + length es < TRAFFIC_QUEUE"
  shows "has_room (live_run es s)"
  using assms
proof (induction es arbitrary: s q)
  case (Cons e es)
  obtain q' where "sv_traffic (rp_service (lv_relay (live_step e s))) = Some q'" "length q' \<le> Suc (length q)"
    using queue_grows [OF Cons.prems(1)] by blast
  with Cons show ?case by simp
qed (auto simp: has_room_def)


end
