(* ===== verification/Relay_Tasks.thy ===== *)
theory Relay_Tasks
  imports Relay_Interleave Relay_QueryLog
begin

text \<open>
  The whole process with its last background task, the reader of the dnsmasq query log
  (\<open>src/panel/dnsmasq_query_log.rs\<close>, started by \<open>src/panel/mod.rs\<close>). It shares the database with the panel,
  the aggregator and the clean-up of sessions, and takes the lock of the database once for every line, so
  that a tick is cut into the lines it handles. The theorems show that a tick which is not disturbed is
  \<open>ingest_tick\<close>, and that an answer in the log is only ever booked on a query it belongs to, whatever the
  panel deletes meanwhile.
\<close>

section \<open>A tick in steps\<close>

text \<open>
  The lines of the buffer that are still to be handled, and how many it had; \<open>None\<close> while the task waits
  for its next tick.
\<close>

type_synonym log_job = "(string list \<times> nat) option"

definition tick_begin :: "log_file \<Rightarrow> ingest \<Rightarrow> ingest \<times> log_job" where
  "tick_begin f st =
     (case f of
        Missing \<Rightarrow> (st, None)
      | StatFails \<Rightarrow> (st, None)
      | OpenFails len \<Rightarrow> (rewind len st, None)
      | LogFile len content \<Rightarrow>
          (let st = rewind len st
           in if len = ig_offset st then (st, None)
              else case from_utf8 (drop (ig_offset st) content) of
                     None \<Rightarrow> (st, None)
                   | Some buf \<Rightarrow> (st\<lparr>ig_offset := len\<rparr>, Some (lines buf, length (lines buf)))))"

definition tick_end :: "nat \<Rightarrow> ingest \<Rightarrow> ingest" where
  "tick_end n st =
     (let st = (if MAX_PENDING < length (ig_pending st) then st\<lparr>ig_pending := []\<rparr> else st)
      in if 0 < n then st\<lparr>ig_db := fst (set_setting ''dnsmasq_log_offset'' (show_nat (ig_offset st)) (ig_db st))\<rparr> else st)"

text \<open>\<open>None\<close> is a panic, which ends the process.\<close>

definition tick_line :: "log_env \<Rightarrow> nat \<Rightarrow> ingest \<times> log_job \<Rightarrow> (ingest \<times> log_job) option" where
  "tick_line env now r =
     (case r of
        (st, None) \<Rightarrow> Some (st, None)
      | (st, Some ([], n)) \<Rightarrow> Some (tick_end n st, None)
      | (st, Some (line # ls, n)) \<Rightarrow>
          (case parse_dnsmasq_line env now line of
             None \<Rightarrow> None
           | Some None \<Rightarrow> Some (st, Some (ls, n))
           | Some (Some ev) \<Rightarrow> Some (handle_event ev st, Some (ls, n))))"

fun tick_lines :: "nat \<Rightarrow> log_env \<Rightarrow> nat \<Rightarrow> ingest \<times> log_job \<Rightarrow> (ingest \<times> log_job) option" where
  "tick_lines 0 env now r = Some r"
| "tick_lines (Suc k) env now r = (case tick_line env now r of None \<Rightarrow> None | Some r \<Rightarrow> tick_lines k env now r)"

definition steps_of :: "log_job \<Rightarrow> nat" where
  "steps_of job = (case job of Some (ls, n) \<Rightarrow> Suc (length ls) | None \<Rightarrow> 0)"

lemma tick_lines_job:
  "tick_lines (Suc (length ls)) env now (st, Some (ls, n)) =
     map_option (\<lambda>st. (tick_end n st, None)) (ingest_lines env now ls st)"
proof (induction ls arbitrary: st)
  case (Cons l ls)
  then show ?case
    by (cases "parse_dnsmasq_line env now l") (auto simp: tick_line_def split: option.splits)
qed (simp add: tick_line_def)

text \<open>
  A tick that runs without interference does what the tick of the sequential model does: the lines of the
  buffer, one step for each and one for the end, leave the same table, pending queries and offset, and
  panic on the same logs.
\<close>

theorem tick_in_steps:
  "(case tick_begin f st of (st, job) \<Rightarrow> tick_lines (steps_of job) env now (st, job)) =
     map_option (\<lambda>st. (st, None)) (ingest_tick env now f st)"
proof (cases f)
  case (LogFile len content)
  let ?st = "rewind len st"
  show ?thesis
  proof (cases "len = ig_offset ?st")
    case False
    show ?thesis
    proof (cases "from_utf8 (drop (ig_offset ?st) content)")
      case (Some buf)
      let ?r = "ingest_lines env now (lines buf) (?st\<lparr>ig_offset := len\<rparr>)"
      have "(case tick_begin f st of (st, job) \<Rightarrow> tick_lines (steps_of job) env now (st, job))
          = map_option (\<lambda>st. (tick_end (length (lines buf)) st, None)) ?r"
        using LogFile False Some by (simp add: tick_begin_def steps_of_def tick_lines_job Let_def del: tick_lines.simps)
      also have "\<dots> = map_option (\<lambda>st. (st, None)) (ingest_tick env now f st)"
        using LogFile False Some
        by (cases ?r) (simp_all add: ingest_tick_def ingest_once_def read_log_def tick_end_def Let_def)
      finally show ?thesis .
    qed (use LogFile False in \<open>simp add: tick_begin_def steps_of_def ingest_tick_def ingest_once_def read_log_def Let_def\<close>)
  qed (use LogFile in \<open>simp add: tick_begin_def steps_of_def ingest_tick_def ingest_once_def Let_def\<close>)
qed (auto simp: tick_begin_def steps_of_def ingest_tick_def ingest_once_def Let_def)

section \<open>The process with all its tasks\<close>

record tasks =
  tk_live :: live
  tk_offset :: nat
  tk_pending :: "(string, nat) hash_map"
  tk_job :: log_job

datatype task_event =
    Relay live_event
  | LogTick log_file
  | LogLine log_env nat
  | LogPrune clock nat nat

definition ingest_of :: "panel_db \<Rightarrow> tasks \<Rightarrow> ingest" where
  "ingest_of db s = \<lparr>ig_offset = tk_offset s, ig_pending = tk_pending s, ig_db = db\<rparr>"

definition put_ingest :: "ingest \<times> log_job \<Rightarrow> tasks \<Rightarrow> tasks" where
  "put_ingest r s =
     (case r of (st, job) \<Rightarrow>
        s\<lparr>tk_live := (tk_live s)\<lparr>lv_relay := on_panel_db (\<lambda>_. ig_db st) (lv_relay (tk_live s))\<rparr>,
          tk_offset := ig_offset st, tk_pending := ig_pending st, tk_job := job\<rparr>)"

text \<open>
  The task reads the log only when it has handled the lines of the tick before. Without a panel it is not
  started.
\<close>

fun task_step :: "task_event \<Rightarrow> tasks \<Rightarrow> tasks option" where
  "task_step (Relay e) s = Some (s\<lparr>tk_live := live_step e (tk_live s)\<rparr>)"
| "task_step (LogTick f) s =
     Some (case (rp_panel (lv_relay (tk_live s)), tk_job s) of
             (Some p, None) \<Rightarrow> put_ingest (tick_begin f (ingest_of (pa_db p) s)) s
           | _ \<Rightarrow> s)"
| "task_step (LogLine env now) s =
     (case rp_panel (lv_relay (tk_live s)) of
        None \<Rightarrow> Some s
      | Some p \<Rightarrow> map_option (\<lambda>r. put_ingest r s) (tick_line env now (ingest_of (pa_db p) s, tk_job s)))"
| "task_step (LogPrune ck now hours) s =
     Some (case (rp_panel (lv_relay (tk_live s)), tk_job s) of
             (Some p, None) \<Rightarrow> put_ingest (ingest_of (fst (prune_dns_queries ck now hours (pa_db p))) s, None) s
           | _ \<Rightarrow> s)"

fun task_run :: "task_event list \<Rightarrow> tasks \<Rightarrow> tasks option" where
  "task_run [] s = Some s"
| "task_run (e # es) s = (case task_step e s of None \<Rightarrow> None | Some s \<Rightarrow> task_run es s)"

definition tasks_start :: "relay_process \<Rightarrow> tasks" where
  "tasks_start rp =
     \<lparr>tk_live = \<lparr>lv_relay = rp, lv_conns = [], lv_buf = [], lv_batches = []\<rparr>,
      tk_offset = (case rp_panel rp of Some p \<Rightarrow> ig_offset (start_query_log_ingest (pa_db p)) | None \<Rightarrow> 0),
      tk_pending = [], tk_job = None\<rparr>"

section \<open>The invariant of the process\<close>

fun task_event_ok :: "regex_crate \<Rightarrow> task_event \<Rightarrow> bool" where
  "task_event_ok rx (Relay e) = event_ok rx e"
| "task_event_ok rx _ = True"

lemma handle_query_db:
  "pe_kind ev = ''query'' \<Longrightarrow> ig_db (handle_event ev st) = fst (insert_dns_query (event_row ev ''query'' []) (ig_db st))"
  by (simp add: handle_event_def split: prod.split sum.split)

lemma handle_event_db:
  "(\<exists>row. ig_db (handle_event ev st) = fst (insert_dns_query row (ig_db st)))
   \<or> (\<exists>i action answer. ig_db (handle_event ev st) = fst (update_dns_query_result i action answer (ig_db st)))"
proof (cases "pe_kind ev = ''query''")
  case False
  then show ?thesis
    by (cases "hm_get (ig_pending st) (full_key ev)"; cases "hm_get (ig_pending st) (pe_domain ev)")
      (auto simp: handle_event_def)
qed (use handle_query_db in blast)

lemma handle_event_ok: "db_ok (ig_db st) \<Longrightarrow> db_ok (ig_db (handle_event ev st))"
  using handle_event_db [of ev st] keeps_operations(10,12) by (auto simp: keeps_ok_def)

lemma tick_begin_db [simp]: "ig_db (fst (tick_begin f st)) = ig_db st"
  by (auto simp: tick_begin_def rewind_def Let_def split: log_file.split option.split)

lemma tick_end_ok: "db_ok (ig_db st) \<Longrightarrow> db_ok (ig_db (tick_end n st))"
  using keeps_operations(1) by (auto simp: tick_end_def keeps_ok_def Let_def)

lemma tick_line_ok: "tick_line env now (st, job) = Some r \<Longrightarrow> db_ok (ig_db st) \<Longrightarrow> db_ok (ig_db (fst r))"
  by (auto simp: tick_line_def tick_end_ok handle_event_ok split: option.splits list.splits prod.splits)

lemma panel_db_ok: "live_ok rx s \<Longrightarrow> rp_panel (lv_relay s) = Some p \<Longrightarrow> db_ok (pa_db p)"
  by (simp add: live_ok_def process_ok_def tables_ok_def)

lemma put_ingest_ok:
  assumes "live_ok rx (tk_live s)" and "db_ok (ig_db (fst r))"
  shows "live_ok rx (tk_live (put_ingest r s))"
proof -
  have "keeps_ok (\<lambda>_. (ig_db (fst r), Inr ()))" using assms(2) by (simp add: keeps_ok_def)
  from process_ok_db [OF _ this] assms(1) show ?thesis
    by (simp add: put_ingest_def live_ok_def case_prod_beta)
qed

lemma task_step_keeps:
  assumes "task_step e s = Some s'" and "task_event_ok rx e" and "live_ok rx (tk_live s)"
  shows "live_ok rx (tk_live s')"
proof (cases e)
  case (Relay e')
  then show ?thesis using assms live.keep by auto
next
  case (LogTick f)
  then show ?thesis
    using assms(1,3) panel_db_ok [OF assms(3)]
    by (auto simp: ingest_of_def split: option.splits intro!: put_ingest_ok)
next
  case (LogLine env now)
  then show ?thesis
    using assms(1,3) put_ingest_ok panel_db_ok [OF assms(3)] tick_line_ok
    by (fastforce simp: ingest_of_def split: option.splits)
next
  case (LogPrune ck now hours)
  have "keeps_ok (prune_dns_queries ck now hours)" by (rule keeps_operations)
  then show ?thesis
    using LogPrune assms(1,3) put_ingest_ok panel_db_ok [OF assms(3)]
    by (auto simp: ingest_of_def keeps_ok_def split: option.splits)
qed

lemma task_run_keeps:
  "task_run es s = Some s' \<Longrightarrow> list_all (task_event_ok rx) es \<Longrightarrow> live_ok rx (tk_live s) \<Longrightarrow> live_ok rx (tk_live s')"
proof (induction es arbitrary: s)
  case (Cons e es)
  then show ?case using task_step_keeps [of e s] by (auto split: option.splits)
qed simp

text \<open>Only a line of the log that was read can end the process.\<close>

definition line_of_log :: "task_event list \<Rightarrow> string \<Rightarrow> bool" where
  "line_of_log es line \<longleftrightarrow>
     (\<exists>len content k buf. LogTick (LogFile len content) \<in> set es \<and> from_utf8 (drop k content) = Some buf \<and> line \<in> set (lines buf))"

lemma line_of_log_mono: "set es \<subseteq> set fs \<Longrightarrow> line_of_log es line \<Longrightarrow> line_of_log fs line"
  unfolding line_of_log_def by blast

definition job_lines :: "log_job \<Rightarrow> string list" where
  "job_lines job = (case job of Some (ls, _) \<Rightarrow> ls | None \<Rightarrow> [])"

lemma tick_begin_lines:
  "line \<in> set (job_lines (snd (tick_begin f st))) \<Longrightarrow>
     \<exists>len content k buf. f = LogFile len content \<and> from_utf8 (drop k content) = Some buf \<and> line \<in> set (lines buf)"
  by (auto simp: tick_begin_def job_lines_def Let_def split: log_file.splits option.splits if_splits)

lemma task_step_lines:
  assumes "task_step e s = Some s'" and "line \<in> set (job_lines (tk_job s'))"
  shows "line \<in> set (job_lines (tk_job s)) \<or> line_of_log [e] line"
proof (cases e)
  case (LogTick f)
  have "line \<in> set (job_lines (tk_job s)) \<or> (\<exists>st. line \<in> set (job_lines (snd (tick_begin f st))))"
    using LogTick assms by (auto simp: put_ingest_def split: option.splits prod.splits) (metis snd_conv)
  then show ?thesis using tick_begin_lines [of line f] LogTick unfolding line_of_log_def by force
next
  case (LogLine env now)
  then show ?thesis
    using assms
    by (auto simp: tick_line_def put_ingest_def job_lines_def split: option.splits prod.splits list.splits)
qed (use assms in \<open>auto simp: put_ingest_def split: option.splits\<close>)

lemma task_run_stops:
  assumes "task_run es s = None" and "\<And>line. line \<in> set (job_lines (tk_job s)) \<Longrightarrow> P line"
    and "\<And>line. line_of_log es line \<Longrightarrow> P line"
  shows "\<exists>env now line. LogLine env now \<in> set es \<and> P line \<and> parse_dnsmasq_line env now line = None"
  using assms
proof (induction es arbitrary: s)
  case (Cons e es)
  show ?case
  proof (cases "task_step e s")
    case None
    then obtain env now where e: "e = LogLine env now" by (cases e) auto
    with None obtain line where "parse_dnsmasq_line env now line = None" "line \<in> set (job_lines (tk_job s))"
      by (auto simp: tick_line_def job_lines_def split: option.splits prod.splits list.splits)
    with e Cons.prems(2) show ?thesis by auto
  next
    case (Some s')
    have "P line" if "line \<in> set (job_lines (tk_job s'))" for line
      using task_step_lines [OF Some that] Cons.prems(2,3) line_of_log_mono [of "[e]" "e # es" line] by auto
    moreover have "P line" if "line_of_log es line" for line
      using Cons.prems(3) line_of_log_mono [OF _ that, of "e # es"] by auto
    ultimately show ?thesis using Cons.IH [of s'] Cons.prems(1) Some by auto
  qed
qed simp

section \<open>Answers and queries\<close>

text \<open>The names under which a query waits for its answer, and the names an answer asks for.\<close>

definition row_keys :: "dns_query_insert \<Rightarrow> string set" where
  "row_keys row = {dq_domain row, dq_client_ip row @ ''|'' @ dq_qtype row @ ''|'' @ dq_domain row}"

definition event_keys :: "parsed_event \<Rightarrow> string set" where
  "event_keys ev = {full_key ev, pe_domain ev}"

definition pending_ok :: "(string, nat) hash_map \<Rightarrow> panel_db \<Rightarrow> bool" where
  "pending_ok m db \<longleftrightarrow> (\<forall>(i, row) \<in> set (pd_dns_queries db). i \<le> pd_dns_seq db)
   \<and> (\<forall>(k, i) \<in> set m. i \<le> pd_dns_seq db \<and> (\<forall>row. (i, row) \<in> set (pd_dns_queries db) \<longrightarrow> k \<in> row_keys row))"

text \<open>What everybody but the reader of the log does to the table of queries: rows go, numbers stay used.\<close>

definition log_shrinks :: "panel_db \<Rightarrow> panel_db \<Rightarrow> bool" where
  "log_shrinks db db' \<longleftrightarrow> pd_dns_seq db' = pd_dns_seq db \<and> set (pd_dns_queries db') \<subseteq> set (pd_dns_queries db)"

lemma log_shrinks_refl [simp]: "log_shrinks db db"
  by (simp add: log_shrinks_def)

lemma pending_ok_shrinks: "pending_ok m db \<Longrightarrow> log_shrinks db db' \<Longrightarrow> pending_ok m db'"
  by (fastforce simp: pending_ok_def log_shrinks_def)

lemma pending_ok_subset: "pending_ok m db \<Longrightarrow> set m' \<subseteq> set m \<Longrightarrow> pending_ok m' db"
  by (fastforce simp: pending_ok_def)

lemma foldl_log_shrinks:
  assumes "\<And>x db. log_shrinks db (f x db)"
  shows "log_shrinks db (foldl (\<lambda>db x. f x db) db xs)"
proof (induction xs arbitrary: db)
  case (Cons x xs)
  then show ?case using assms [of db x] by (fastforce simp: log_shrinks_def)
qed simp

lemma fold_upserts_shrink:
  "log_shrinks db (foldl (\<lambda>db row. upsert_ip_domain day row (upsert_ip day now row db)) db rows)"
  by (rule foldl_log_shrinks) (auto simp: log_shrinks_def upsert_ip_def upsert_ip_domain_def split: prod.split)

lemma fold_import_shrinks: "log_shrinks db (foldl (upsert_domain mode created) db kps)"
proof -
  have "log_shrinks db (upsert_domain mode created db kp)" for kp db
    by (auto simp: log_shrinks_def upsert_domain_def insert_domain_def Let_def split: prod.splits)
  from foldl_log_shrinks [of "\<lambda>kp db. upsert_domain mode created db kp", OF this] show ?thesis .
qed

lemma operations_shrink:
  "log_shrinks db (fst (set_setting key v db))" "log_shrinks db (fst (create_session ck now token ttl db))"
  "log_shrinks db (fst (delete_session token db))" "log_shrinks db (fst (cleanup_sessions ck now db))"
  "log_shrinks db (fst (apply_traffic_batch ck now rows db))"
  "log_shrinks db (fst (add_domain ck now pattern kind mode note db))"
  "log_shrinks db (fst (update_domain i pattern kind mode note db))" "log_shrinks db (fst (delete_domain i db))"
  "log_shrinks db (fst (import_domains ck now txt mode db))" "log_shrinks db (fst (clear_dns_queries db))"
  "log_shrinks db (fst (prune_dns_queries ck now hours db))"
proof -
  show "log_shrinks db (fst (apply_traffic_batch ck now rows db))"
    using fold_upserts_shrink by (simp add: apply_traffic_batch_def statement_def)
  show "log_shrinks db (fst (import_domains ck now txt mode db))"
    using fold_import_shrinks by (simp add: import_domains_def statement_def Let_def)
  show "log_shrinks db (fst (prune_dns_queries ck now hours db))"
    by (auto simp: prune_dns_queries_def statement_def log_shrinks_def Let_def)
  show "log_shrinks db (fst (add_domain ck now pattern kind mode note db))"
    by (auto simp: add_domain_def statement_def log_shrinks_def insert_domain_def Let_def)
qed (auto simp: set_setting_def create_session_def delete_session_def cleanup_sessions_def update_domain_def
    delete_domain_def clear_dns_queries_def statement_def log_shrinks_def Let_def)

text \<open>A request of the panel never adds a query.\<close>

definition shrinks :: "panel_env \<Rightarrow> handler \<Rightarrow> bool" where
  "shrinks env h \<longleftrightarrow> (\<forall>cookie st. log_shrinks (pa_db st) (pa_db (fst (h env cookie st))))"

lemma shrinks_authed: "(\<And>cookie st. log_shrinks (pa_db st) (pa_db (fst (h env cookie st)))) \<Longrightarrow> shrinks env (authed h)"
  by (simp add: shrinks_def authed_def)

lemma shrinks_read_only: "(\<And>cookie st. fst (h env cookie st) = st) \<Longrightarrow> shrinks env h"
  by (simp add: shrinks_def)

lemma on_fs_db: "pa_db (fst (on_fs f st)) = pa_db st" "on_fs f st = (st', r) \<Longrightarrow> pa_db st' = pa_db st"
  by (auto simp: on_fs_def split: prod.splits)

lemma on_db_shrinks:
  "log_shrinks (pa_db st) (fst (f (pa_db st))) \<Longrightarrow> log_shrinks (pa_db st) (pa_db (fst (on_db f st)))"
  by (auto simp: on_db_def split: prod.splits)

lemma save_dnsmasq_db: "pa_db (fst (save_dnsmasq env ds st)) = pa_db st"
  by (auto simp: save_dnsmasq_def split: option.splits prod.splits sum.splits)

lemma with_rules_db: "pa_db (fst (with_rules env paths edit st)) = pa_db st"
  using save_dnsmasq_db [of env _ st]
  by (auto simp: with_rules_def saved_response_def case_prod_beta split: sum.splits)

lemma db_handler_shrinks:
  "log_shrinks (pa_db st) (fst (f (pa_db st))) \<Longrightarrow>
   log_shrinks (pa_db st) (pa_db (fst (case on_db f st of (st, Inr i) \<Rightarrow> (st, good i) | (st, Inl e) \<Rightarrow> (st, bad e))))"
  using on_db_shrinks [of st f] by (cases "on_db f st"; cases "snd (on_db f st)") auto

lemmas shrink_simps = db_handler_shrinks on_db_shrinks operations_shrink with_rules_db save_dnsmasq_db on_fs_db

lemma shrinks_db_routes:
  "shrinks env (login password)" "shrinks env logout" "shrinks env (change_password current new)"
  "shrinks env (create_domain body)" "shrinks env (api_update_domain pattern body)"
  "shrinks env (api_delete_domain pattern mode)" "shrinks env api_clear_dns_queries"
proof -
  show "shrinks env (login password)"
    using operations_shrink(2)
    by (auto simp: shrinks_def login_def on_db_def split: option.splits sum.splits prod.splits) (metis fst_conv)+
  show "shrinks env logout"
    by (auto simp: shrinks_def logout_def Let_def shrink_simps split: option.splits)
  show "shrinks env (change_password current new)"
    unfolding change_password_def
    by (intro shrinks_authed) (simp add: Let_def shrink_simps split: option.split)
  show "shrinks env (create_domain body)"
    unfolding create_domain_def by (intro shrinks_authed) (simp add: Let_def shrink_simps split: option.split)
  show "shrinks env (api_update_domain pattern body)"
    unfolding api_update_domain_def by (intro shrinks_authed) (simp add: Let_def shrink_simps split: option.split)
  show "shrinks env (api_delete_domain pattern mode)"
    unfolding api_delete_domain_def by (intro shrinks_authed) (simp add: Let_def shrink_simps split: option.split)
  show "shrinks env api_clear_dns_queries"
    unfolding api_clear_dns_queries_def by (intro shrinks_authed) (simp add: shrink_simps)
qed

lemma shrinks_rule_routes:
  "shrinks env (replace_domains items)" "shrinks env dnsmasq_apply" "shrinks env dnsmasq_reload"
  "shrinks env (api_import_domains txt mode)"
proof -
  show "shrinks env (replace_domains items)"
    unfolding replace_domains_def
    by (intro shrinks_authed) (auto simp: saved_response_def case_prod_beta save_dnsmasq_db split: sum.splits)
  show "shrinks env dnsmasq_apply"
    unfolding dnsmasq_apply_def by (intro shrinks_authed) (simp add: with_rules_db split: option.split)
  show "shrinks env dnsmasq_reload"
    unfolding dnsmasq_reload_def by (intro shrinks_authed) (simp split: option.split prod.split sum.split)
  show "shrinks env (api_import_domains txt mode)"
    unfolding api_import_domains_def
    by (intro shrinks_authed)
      (auto simp: Let_def shrink_simps case_prod_beta split: option.split sum.split)
qed

lemma shrinks_table_routes:
  "shrinks env (put_hosts hs)" "shrinks env (put_upstreams ups)"
  "shrinks env (add_client_upstream ip profile)" "shrinks env (delete_client_upstream ip)"
  "shrinks env get_whitelist" "shrinks env (put_whitelist wl)" "shrinks env (add_whitelist_ip ip user)"
  "shrinks env (delete_whitelist_ip ip)"
  unfolding put_hosts_def put_upstreams_def add_client_upstream_def delete_client_upstream_def get_whitelist_def
    put_whitelist_def add_whitelist_ip_def delete_whitelist_ip_def
  by (intro shrinks_authed, auto simp: Let_def on_fs_def split: sum.splits prod.splits option.splits)+

lemma request_shrinks: "log_shrinks (pa_db st) (pa_db (fst (api_router r env cookie st)))"
proof -
  have "shrinks env (api_router r)"
    by (cases r) (simp_all add: shrinks_db_routes shrinks_rule_routes shrinks_table_routes
        shrinks_read_only read_only_routes)
  then show ?thesis by (simp add: shrinks_def)
qed

section \<open>Booking answers\<close>

lemma pending_ok_hm_insert: "pending_ok m db \<Longrightarrow> pending_ok [(k, i)] db \<Longrightarrow> pending_ok (hm_insert k i m) db"
  using set_hm_insert [of k i m] by (fastforce simp: pending_ok_def)

text \<open>A new row has a number that no waiting name refers to.\<close>

lemma pending_ok_insert_row:
  assumes "pending_ok m db" and "insert_dns_query row db = (db', r)"
  shows "pending_ok m db'" and "r = Inr i \<Longrightarrow> k \<in> row_keys row \<Longrightarrow> pending_ok [(k, i)] db'"
  using assms
  by (fastforce simp: pending_ok_def insert_dns_query_def statement_def Let_def split: if_splits)+

lemma pending_ok_update: "pending_ok m db \<Longrightarrow> pending_ok m (fst (update_dns_query_result i action answer db))"
  by (fastforce simp: pending_ok_def update_dns_query_result_def statement_def row_keys_def split: if_splits)

lemma event_row_keys: "full_key ev \<in> row_keys (event_row ev action answer)" "pe_domain ev \<in> row_keys (event_row ev action answer)"
  by (simp_all add: row_keys_def event_row_def full_key_def)

lemma handle_query_pending:
  assumes "pe_kind ev = ''query''" and "pending_ok (ig_pending st) (ig_db st)"
  shows "pending_ok (ig_pending (handle_event ev st)) (ig_db (handle_event ev st))"
proof -
  obtain db r where i: "insert_dns_query (event_row ev ''query'' []) (ig_db st) = (db, r)" by fastforce
  show ?thesis
    using assms(1) i pending_ok_insert_row [OF assms(2) i] event_row_keys [of ev "''query''" "[]"]
    by (cases r) (simp_all add: handle_event_def pending_ok_hm_insert)
qed

text \<open>The number an answer finds under one of its names, and the names that wait afterwards.\<close>

definition found_id :: "parsed_event \<Rightarrow> ingest \<Rightarrow> nat option" where
  "found_id ev st =
     (case hm_get (ig_pending st) (full_key ev) of Some i \<Rightarrow> Some i | None \<Rightarrow> hm_get (ig_pending st) (pe_domain ev))"

lemma found_id_key: "found_id ev st = Some i \<Longrightarrow> \<exists>k \<in> event_keys ev. (k, i) \<in> set (ig_pending st)"
  by (auto simp: found_id_def event_keys_def dest: hm_get_SomeD split: option.splits)

lemma handle_answer:
  assumes "pe_kind ev \<noteq> ''query''"
  shows "ig_db (handle_event ev st) =
      fst (case found_id ev st of
             Some i \<Rightarrow> update_dns_query_result i (pe_kind ev) (pe_answer ev) (ig_db st)
           | None \<Rightarrow> (fst (insert_dns_query (event_row ev (pe_kind ev) (pe_answer ev)) (ig_db st)), Inr ()))"
    and "set (ig_pending (handle_event ev st)) \<subseteq> set (ig_pending st)"
  using assms
  by (auto simp: handle_event_def found_id_def hm_remove_def split: option.splits)

lemma handle_event_pending:
  assumes "pending_ok (ig_pending st) (ig_db st)"
  shows "pending_ok (ig_pending (handle_event ev st)) (ig_db (handle_event ev st))"
proof (cases "pe_kind ev = ''query''")
  case False
  have "pending_ok (ig_pending st) (ig_db (handle_event ev st))"
  proof (cases "found_id ev st")
    case None
    obtain db r where "insert_dns_query (event_row ev (pe_kind ev) (pe_answer ev)) (ig_db st) = (db, r)" by fastforce
    then show ?thesis using None handle_answer(1) [OF False, of st] pending_ok_insert_row(1) [OF assms] by simp
  next
    case (Some i)
    then show ?thesis using handle_answer(1) [OF False, of st] pending_ok_update [OF assms] by simp
  qed
  then show ?thesis using handle_answer(2) [OF False] pending_ok_subset by blast
qed (use assms handle_query_pending in blast)

definition log_inv :: "tasks \<Rightarrow> bool" where
  "log_inv s \<longleftrightarrow> (\<forall>p. rp_panel (lv_relay (tk_live s)) = Some p \<longrightarrow> pending_ok (tk_pending s) (pa_db p))"

lemma on_panel_db_shrinks:
  assumes "\<And>db. log_shrinks db (f db)" and "rp_panel (on_panel_db f rp) = Some p'"
  shows "\<exists>p. rp_panel rp = Some p \<and> log_shrinks (pa_db p) (pa_db p')"
  using assms by (auto simp: on_panel_db_def)

lemma flush_live_shrinks:
  assumes "rp_panel (lv_relay (flush_live ck now s)) = Some p'"
  shows "\<exists>p. rp_panel (lv_relay s) = Some p \<and> log_shrinks (pa_db p) (pa_db p')"
proof (cases "lv_buf s = []")
  case False
  then show ?thesis using on_panel_db_shrinks [OF operations_shrink(5)] assms by (auto simp: flush_live_def)
qed (use assms in \<open>simp add: flush_live_def\<close>)

lemma collect_shrinks:
  assumes "rp_panel (lv_relay (collect ck now s)) = Some p'"
  shows "\<exists>p. rp_panel (lv_relay s) = Some p \<and> log_shrinks (pa_db p) (pa_db p')"
  using assms
  by (auto simp: collect_def Let_def dest!: flush_live_shrinks split: option.splits list.splits if_splits)

lemma live_step_shrinks:
  assumes "rp_panel (lv_relay (live_step e s)) = Some p'"
  shows "\<exists>p. rp_panel (lv_relay s) = Some p \<and> log_shrinks (pa_db p) (pa_db p')"
proof (cases e)
  case (Ask env cookie r)
  then obtain p where p: "rp_panel (lv_relay s) = Some p" "p' = fst (api_router r env cookie (with_counters (lv_relay s) p))"
    using assms by (auto simp: panel_request_def Let_def split: option.splits)
  moreover have "pa_db (with_counters (lv_relay s) p) = pa_db p" by (simp add: with_counters_def)
  ultimately show ?thesis using request_shrinks [of "with_counters (lv_relay s) p"] by simp
next
  case (Move i env d)
  then show ?thesis using assms by (auto split: if_splits prod.splits)
next
  case (Expire ck now)
  then show ?thesis using assms on_panel_db_shrinks [OF operations_shrink(4)] by simp
qed (use assms flush_live_shrinks collect_shrinks in auto)

lemma put_ingest_panel:
  "rp_panel (lv_relay (tk_live (put_ingest (st, job) s))) =
     map_option (\<lambda>p. p\<lparr>pa_db := ig_db st\<rparr>) (rp_panel (lv_relay (tk_live s)))"
  by (simp add: put_ingest_def on_panel_db_def)

lemma put_ingest_inv: "pending_ok (ig_pending (fst r)) (ig_db (fst r)) \<Longrightarrow> log_inv (put_ingest r s)"
  by (cases r) (auto simp: log_inv_def put_ingest_panel, simp add: put_ingest_def)

lemma tick_begin_pending: "pending_ok (ig_pending st) (ig_db st) \<Longrightarrow> pending_ok (ig_pending (fst (tick_begin f st))) (ig_db st)"
  by (auto simp: tick_begin_def rewind_def Let_def intro: pending_ok_subset split: log_file.split option.split)

lemma tick_end_pending:
  assumes "pending_ok (ig_pending st) (ig_db st)"
  shows "pending_ok (ig_pending (tick_end n st)) (ig_db (tick_end n st))"
proof -
  have "set (ig_pending (tick_end n st)) \<subseteq> set (ig_pending st)" by (simp add: tick_end_def Let_def)
  moreover have "log_shrinks (ig_db st) (ig_db (tick_end n st))" by (simp add: tick_end_def Let_def operations_shrink)
  ultimately show ?thesis using assms pending_ok_subset pending_ok_shrinks by blast
qed

lemma tick_line_pending:
  "tick_line env now (st, job) = Some r \<Longrightarrow> pending_ok (ig_pending st) (ig_db st)
     \<Longrightarrow> pending_ok (ig_pending (fst r)) (ig_db (fst r))"
  by (auto simp: tick_line_def tick_end_pending handle_event_pending split: option.splits list.splits prod.splits)

lemma ingest_of_inv:
  "log_inv s \<Longrightarrow> rp_panel (lv_relay (tk_live s)) = Some p \<Longrightarrow>
     pending_ok (ig_pending (ingest_of (pa_db p) s)) (ig_db (ingest_of (pa_db p) s))"
  by (simp add: log_inv_def ingest_of_def)

lemma task_step_log_inv:
  assumes "task_step e s = Some s'" and "log_inv s"
  shows "log_inv s'"
proof (cases e)
  case (Relay e')
  then have s': "s' = s\<lparr>tk_live := live_step e' (tk_live s)\<rparr>" using assms(1) by simp
  show ?thesis
    unfolding log_inv_def
  proof (intro allI impI)
    fix p' assume "rp_panel (lv_relay (tk_live s')) = Some p'"
    then obtain p where "rp_panel (lv_relay (tk_live s)) = Some p" "log_shrinks (pa_db p) (pa_db p')"
      using live_step_shrinks [of e' "tk_live s"] s' by auto
    then show "pending_ok (tk_pending s') (pa_db p')" using assms(2) pending_ok_shrinks s' by (auto simp: log_inv_def)
  qed
next
  case (LogTick f)
  show ?thesis
  proof (cases "rp_panel (lv_relay (tk_live s)) = None \<or> tk_job s \<noteq> None")
    case False
    then obtain p where p: "rp_panel (lv_relay (tk_live s)) = Some p" "tk_job s = None" by (meson option.exhaust)
    then show ?thesis
      using put_ingest_inv [of "tick_begin f (ingest_of (pa_db p) s)" s] tick_begin_pending [OF ingest_of_inv [OF assms(2) p(1)]]
        LogTick assms(1) by simp
  qed (use LogTick assms in \<open>auto split: option.splits\<close>)
next
  case (LogLine env now)
  show ?thesis
  proof (cases "rp_panel (lv_relay (tk_live s))")
    case (Some p)
    then obtain r where r: "tick_line env now (ingest_of (pa_db p) s, tk_job s) = Some r" "s' = put_ingest r s"
      using LogLine assms(1) by auto
    then show ?thesis using put_ingest_inv tick_line_pending [OF r(1) ingest_of_inv [OF assms(2) Some]] by simp
  qed (use LogLine assms in simp)
next
  case (LogPrune ck now hours)
  show ?thesis
  proof (cases "rp_panel (lv_relay (tk_live s)) = None \<or> tk_job s \<noteq> None")
    case False
    then obtain p where p: "rp_panel (lv_relay (tk_live s)) = Some p" "tk_job s = None" by (meson option.exhaust)
    have "pending_ok (tk_pending s) (fst (prune_dns_queries ck now hours (pa_db p)))"
      using assms(2) p(1) pending_ok_shrinks [OF _ operations_shrink(11)] by (simp add: log_inv_def)
    then show ?thesis
      using put_ingest_inv [of "(ingest_of (fst (prune_dns_queries ck now hours (pa_db p))) s, None)" s] p LogPrune assms(1)
      by (simp add: ingest_of_def)
  qed (use LogPrune assms in \<open>auto split: option.splits\<close>)
qed

lemma task_run_log_inv: "task_run es s = Some s' \<Longrightarrow> log_inv s \<Longrightarrow> log_inv s'"
proof (induction es arbitrary: s)
  case (Cons e es)
  then show ?case using task_step_log_inv [of e s] by (auto split: option.splits)
qed simp

lemma tasks_start_inv: "process_ok rx rp \<Longrightarrow> log_inv (tasks_start rp)"
  by (fastforce simp: log_inv_def tasks_start_def process_ok_def tables_ok_def db_ok_def queries_ok_def pending_ok_def)

lemma update_rows:
  "(j, row) \<in> set (pd_dns_queries db) \<Longrightarrow>
   (j, row) \<in> set (pd_dns_queries (fst (update_dns_query_result i action answer db)))
   \<or> j = i \<and> (j, row\<lparr>dq_action := action, dq_answer := answer\<rparr>) \<in> set (pd_dns_queries (fst (update_dns_query_result i action answer db)))"
  by (cases "j = i") (force simp: update_dns_query_result_def statement_def image_iff)+

lemma handle_event_rows:
  assumes "pending_ok (ig_pending st) (ig_db st)"
  shows "\<exists>i. \<forall>(j, row) \<in> set (pd_dns_queries (ig_db st)). (j, row) \<in> set (pd_dns_queries (ig_db (handle_event ev st)))
    \<or> j = i \<and> pe_kind ev \<noteq> ''query'' \<and> event_keys ev \<inter> row_keys row \<noteq> {}
      \<and> (j, row\<lparr>dq_action := pe_kind ev, dq_answer := pe_answer ev\<rparr>) \<in> set (pd_dns_queries (ig_db (handle_event ev st)))"
proof (cases "pe_kind ev \<noteq> ''query'' \<and> found_id ev st \<noteq> None")
  case True
  then obtain i where i: "found_id ev st = Some i" by blast
  then obtain k where "k \<in> event_keys ev" "(k, i) \<in> set (ig_pending st)" using found_id_key by blast
  then have "event_keys ev \<inter> row_keys row \<noteq> {}" if "(i, row) \<in> set (pd_dns_queries (ig_db st))" for row
    using assms that by (fastforce simp: pending_ok_def)
  moreover have "ig_db (handle_event ev st) = fst (update_dns_query_result i (pe_kind ev) (pe_answer ev) (ig_db st))"
    using handle_answer(1) [of ev st] True i by simp
  ultimately show ?thesis
    using True update_rows by (intro exI [of _ i] ballI) (simp add: split_beta, metis prod.collapse)
next
  case False
  have "\<exists>row. ig_db (handle_event ev st) = fst (insert_dns_query row (ig_db st))"
  proof (cases "pe_kind ev = ''query''")
    case True
    then show ?thesis using handle_query_db by blast
  next
    case other: False
    then show ?thesis using False handle_answer(1) [OF other, of st] by auto
  qed
  then have "set (pd_dns_queries (ig_db st)) \<subseteq> set (pd_dns_queries (ig_db (handle_event ev st)))"
    by (auto simp: insert_dns_query_def statement_def Let_def)
  then show ?thesis by blast
qed


text \<open>A log in which two clients ask for the same name before the answers arrive.\<close>

definition two_clients :: log_env where
  "two_clients =
     \<lparr>lx_query = (\<lambda>l. if starts_with l ''query'' then Some (''A'', ''a.com'', drop 6 l) else None), lx_config = (\<lambda>_. None),
      lx_cached = (\<lambda>_. None), lx_reply = (\<lambda>l. Some (''a.com'', drop 6 l)), lx_fwd = (\<lambda>_. None), lx_rfc3339 = (\<lambda>_. None),
      lx_local = (\<lambda>_. None), lx_year = (\<lambda>_. 2026), lx_clock = sample_clock\<rparr>"

definition two_queries :: string where
  "two_queries = unlines [''query 10.0.0.5'', ''query 10.0.0.6'', ''reply 1.1.1.1'', ''reply 1.1.1.1'']"

text \<open>
  An answer carries no client, so it never finds the name that includes the client. Of two clients that
  ask for the same name at the same time only the last gets the answer; the first one stays without, and
  the second answer becomes a row of its own.
\<close>

lemma first_asker_stays_unanswered:
  "map_option (\<lambda>st. map (\<lambda>(_, row). (dq_client_ip row, dq_action row, dq_answer row)) (pd_dns_queries (ig_db st)))
     (ingest_tick two_clients 1 (LogFile (length two_queries) (as_bytes two_queries)) (start_query_log_ingest empty_db))
   = Some [(''10.0.0.5'', ''query'', []), (''10.0.0.6'', ''reply'', ''1.1.1.1''), ([], ''reply'', ''1.1.1.1'')]"
  by code_simp

definition log_process :: relay_process where
  "log_process = demo_process\<lparr>rp_service := publish auth_state (rp_service demo_process)\<rparr>"

lemma log_process_ok: "process_ok any_rx log_process"
proof -
  have "registry_ok (pa_registry auth_state)" by (rule auth_state_registry)
  moreover have "acl_ok (pa_acl auth_state)" by code_simp
  moreover have "db_ok (pa_db auth_state)" by code_simp
  moreover have "compile_hosts_table any_rx (pa_hosts_entries auth_state) = Inr (pa_hosts_live auth_state)"
    by (simp add: auth_state_def toy_state_def compile_hosts_table_def)
  ultimately show ?thesis
    by (simp add: process_ok_def tables_ok_def log_process_def demo_process_def publish_def)
qed

definition log_events :: "task_event list" where
  "log_events =
     [LogTick (LogFile (length two_queries) (as_bytes two_queries)), LogLine two_clients 1, Relay (Expire sample_clock 1),
      LogLine two_clients 2]"

definition query_rows :: "tasks \<Rightarrow> (nat \<times> dns_query_insert) list option" where
  "query_rows s = map_option (\<lambda>p. pd_dns_queries (pa_db p)) (rp_panel (lv_relay (tk_live s)))"

lemma log_events_run:
  "map_option (\<lambda>s. (tk_job s, map_option length (query_rows s))) (task_run log_events (tasks_start log_process))
   = Some (Some ([''reply 1.1.1.1'', ''reply 1.1.1.1''], 4), Some 2)"
  by code_simp

definition reply_event :: parsed_event where
  "reply_event = answer_event (ck_rfc3339 sample_clock 3) ''reply'' (''a.com'', ''1.1.1.1'')"

lemma reply_parsed: "parse_dnsmasq_line two_clients 3 ''reply 1.1.1.1'' = Some (Some reply_event)"
  by code_simp


end
