(* ===== verification/Relay_Serve.thy ===== *)
theory Relay_Serve
  imports Relay_Interleave Relay_Listener
begin

text \<open>
  Listeners and connections together: \<open>run_listener\<close> of \<open>src/service.rs\<close> hands the permit it took from the
  shared semaphore to the task of the connection it accepted, and the task releases it when the handler
  returns. The joint system moves the loops of \<open>Relay_Listener\<close> and the process of \<open>Relay_Interleave\<close> in any
  order. The theorems bound the sessions that are open at any moment by \<open>max_connections\<close> and show that
  handlers that wait for a silent peer keep their permits.
\<close>

section \<open>The joint system\<close>

record served =
  sd_listeners :: relay
  sd_live :: live

text \<open>A handler that has returned; one that waits for ever has not.\<close>

fun returned :: "Relay_Steps.phase \<Rightarrow> bool" where
  "returned (Ended Waiting _) = False"
| "returned (Ended _ _) = True"
| "returned _ = False"

definition running :: "live \<Rightarrow> nat" where
  "running s = length (filter (\<lambda>c. \<not> returned (cn_phase c)) (lv_conns s))"

text \<open>The events of the listeners that neither start nor end a connection.\<close>

fun loop_event :: "event \<Rightarrow> bool" where
  "loop_event (Relay_Listener.Accept _) = False"
| "loop_event SessionEnd = False"
| "loop_event _ = True"

text \<open>The events of the process that are not about one connection.\<close>

fun side_event :: "live_event \<Rightarrow> bool" where
  "side_event (Relay_Interleave.Accept _ _ _ _) = False"
| "side_event (Move _ _ _) = False"
| "side_event _ = True"

inductive serve :: "served \<Rightarrow> served \<Rightarrow> bool" where
  serve_loop: "loop_event e \<Longrightarrow> step e (sd_listeners x) rl \<Longrightarrow> serve x (x\<lparr>sd_listeners := rl\<rparr>)"
| serve_accept: "step (Relay_Listener.Accept i) (sd_listeners x) rl \<Longrightarrow>
    serve x (x\<lparr>sd_listeners := rl, sd_live := live_step (Relay_Interleave.Accept proto lport peer client) (sd_live x)\<rparr>)"
| serve_side: "side_event e \<Longrightarrow> serve x (x\<lparr>sd_live := live_step e (sd_live x)\<rparr>)"
| serve_move: "i < length (lv_conns (sd_live x)) \<Longrightarrow> s = live_step (Move i env d) (sd_live x) \<Longrightarrow>
    returned (cn_phase (lv_conns s ! i)) = returned (cn_phase (lv_conns (sd_live x) ! i)) \<Longrightarrow>
    serve x (x\<lparr>sd_live := s\<rparr>)"
| serve_return: "i < length (lv_conns (sd_live x)) \<Longrightarrow> s = live_step (Move i env d) (sd_live x) \<Longrightarrow>
    \<not> returned (cn_phase (lv_conns (sd_live x) ! i)) \<Longrightarrow> returned (cn_phase (lv_conns s ! i)) \<Longrightarrow>
    step SessionEnd (sd_listeners x) rl \<Longrightarrow> serve x (x\<lparr>sd_listeners := rl, sd_live := s\<rparr>)"

inductive_cases serveE: "serve x y"

section \<open>One permit per running handler\<close>

definition permits_ok :: "nat \<Rightarrow> served \<Rightarrow> bool" where
  "permits_ok slots x \<longleftrightarrow> permits (sd_listeners x) = slots \<and> rl_sessions (sd_listeners x) = running (sd_live x)"

lemma step_sessions:
  "step e s s' \<Longrightarrow> rl_sessions s' =
     (case e of Relay_Listener.Accept _ \<Rightarrow> Suc (rl_sessions s) | SessionEnd \<Rightarrow> rl_sessions s - 1 | _ \<Rightarrow> rl_sessions s)"
  by (cases rule: step.cases) auto

lemma step_session_end: "step SessionEnd s s' \<Longrightarrow> 0 < rl_sessions s"
  by (cases rule: step.cases) auto

lemma running_side: "side_event e \<Longrightarrow> running (live_step e s) = running s"
  by (cases e) (simp_all add: running_def)

lemma running_accept: "running (live_step (Relay_Interleave.Accept proto lport peer client) s) = Suc (running s)"
  by (simp add: running_def)

lemma running_move:
  assumes "i < length (lv_conns s)" and "s' = live_step (Move i env d) s"
  shows "running s' + of_bool (\<not> returned (cn_phase (lv_conns s ! i)))
    = running s + of_bool (\<not> returned (cn_phase (lv_conns s' ! i)))"
proof -
  obtain c where "lv_conns s' = (lv_conns s)[i := c]" using assms by (simp add: case_prod_beta)
  then show ?thesis
    using assms(1) length_filter_update [OF assms(1), of "\<lambda>c. \<not> returned (cn_phase c)" c] by (simp add: running_def)
qed

lemma serve_permits:
  assumes "serve x y" and "permits_ok slots x"
  shows "permits_ok slots y"
  using assms(1)
proof (cases rule: serve.cases)
  case (serve_loop e rl)
  then show ?thesis
    using assms(2) step_permits [OF serve_loop(3)] step_sessions [OF serve_loop(3)]
    by (cases e) (simp_all add: permits_ok_def)
next
  case (serve_accept i rl proto lport peer client)
  then show ?thesis
    using assms(2) step_permits [OF serve_accept(2)] step_sessions [OF serve_accept(2)] running_accept
    by (simp add: permits_ok_def del: live_step.simps)
next
  case (serve_side e)
  then show ?thesis using assms(2) running_side by (simp add: permits_ok_def)
next
  case (serve_move i s env d)
  then show ?thesis using assms(2) running_move [OF serve_move(2,3)] by (simp add: permits_ok_def del: live_step.simps)
next
  case (serve_return i s env d rl)
  then show ?thesis
    using assms(2) running_move [OF serve_return(2,3)] step_permits [OF serve_return(6)] step_sessions [OF serve_return(6)]
    by (simp add: permits_ok_def del: live_step.simps)
qed

lemma serve_reachable: "serve\<^sup>*\<^sup>* x y \<Longrightarrow> permits_ok slots x \<Longrightarrow> permits_ok slots y"
  by (induction rule: rtranclp_induct) (auto intro: serve_permits)

text \<open>What the process sees is a run of its own events.\<close>

lemma serve_live: "serve\<^sup>*\<^sup>* x y \<Longrightarrow> \<exists>events. sd_live y = live_run events (sd_live x)"
proof (induction rule: rtranclp_induct)
  case (step y z)
  then obtain es where es: "sd_live y = live_run es (sd_live x)" by blast
  from step(2) have "sd_live z = sd_live y \<or> (\<exists>e. sd_live z = live_step e (sd_live y))"
    by (cases rule: serve.cases) (auto simp del: live_step.simps)
  then show ?case
  proof
    assume "\<exists>e. sd_live z = live_step e (sd_live y)"
    then obtain e where "sd_live z = live_step e (sd_live y)" by blast
    then have "sd_live z = live_run (es @ [e]) (sd_live x)" using es by simp
    then show ?thesis by blast
  qed (use es in auto)
qed (auto intro: exI [of _ "[]"])

definition served_start :: "nat \<Rightarrow> nat \<Rightarrow> live \<Rightarrow> served" where
  "served_start slots listeners s = \<lparr>sd_listeners = relay_start slots listeners, sd_live = s\<rparr>"

lemma open_running: "how_many session_open s \<le> running s"
proof -
  have "session_open c \<Longrightarrow> \<not> returned (cn_phase c)" for c by (cases "cn_phase c") (simp_all add: session_open_def)
  then show ?thesis unfolding how_many_def running_def by (rule length_filter_mono)
qed

text \<open>C11: 
  Slots bound the relay. Under every interleaving of the listeners, the connections, the panel and the
  background tasks, the free permits, the listeners that wait in \<open>accept\<close> with one and the handlers that have
  not returned add up to \<open>max_connections\<close>, so the gauge of active sessions never shows more.
\<close>

theorem sessions_within_slots:
  assumes "lv_conns s = []" and "sv_metrics (rp_service (lv_relay s)) = no_metrics"
    and "serve\<^sup>*\<^sup>* (served_start slots listeners s) x"
  shows "rl_free (sd_listeners x) + accepting (sd_listeners x) + running (sd_live x) = slots
    \<and> mt_active (sv_metrics (rp_service (lv_relay (sd_live x)))) \<le> int slots"
proof -
  have "permits_ok slots (served_start slots listeners s)"
    using assms(1) by (simp add: permits_ok_def served_start_def permits_def relay_start_def accepting_def running_def)
  from serve_reachable [OF assms(3) this]
  have sum: "rl_free (sd_listeners x) + accepting (sd_listeners x) + running (sd_live x) = slots"
    by (simp add: permits_ok_def permits_def)
  obtain events where "sd_live x = live_run events s" using serve_live [OF assms(3)] by (auto simp: served_start_def)
  then have "mt_active (sv_metrics (rp_service (lv_relay (sd_live x)))) = int (how_many session_open (sd_live x))"
    using run_counters [OF assms(1,2)] by blast
  with sum open_running [of "sd_live x"] show ?thesis by simp
qed

section \<open>Silent peers\<close>

fun waits :: "Relay_Steps.phase \<Rightarrow> bool" where
  "waits (Ended Waiting _) = True"
| "waits _ = False"

definition stuck :: "live \<Rightarrow> nat" where
  "stuck s = length (filter (\<lambda>c. waits (cn_phase c)) (lv_conns s))"

lemma stuck_running: "stuck s \<le> running s"
proof -
  have "waits p \<Longrightarrow> \<not> returned p" for p by (cases p rule: waits.cases) simp_all
  then show ?thesis unfolding stuck_def running_def by (intro length_filter_mono) simp
qed

lemma waits_stays: "waits (cn_phase c) \<Longrightarrow> conn_step env guard d c st = (c, st)"
  by (rule conn_step_ended) (cases "cn_phase c" rule: waits.cases; simp)

lemma stuck_step: "stuck s \<le> stuck (live_step e s)"
proof (cases e)
  case (Move i env d)
  show ?thesis
  proof (cases "i < length (lv_conns s)")
    case True
    let ?c = "fst (conn_step env (rp_guard (lv_relay s)) d (lv_conns s ! i) (rp_service (lv_relay s)))"
    have "waits (cn_phase (lv_conns s ! i)) \<Longrightarrow> waits (cn_phase ?c)" using waits_stays by simp
    then have "length (filter (\<lambda>c. waits (cn_phase c)) (lv_conns s)) \<le> length (filter (\<lambda>c. waits (cn_phase c)) ((lv_conns s)[i := ?c]))"
      using length_filter_update [OF True, of "\<lambda>c. waits (cn_phase c)" ?c] by (cases "waits (cn_phase (lv_conns s ! i))") auto
    then show ?thesis using Move True by (simp add: stuck_def case_prod_beta)
  qed (use Move in \<open>simp add: stuck_def\<close>)
qed (simp_all add: stuck_def)

lemma serve_stuck: "serve x y \<Longrightarrow> stuck (sd_live x) \<le> stuck (sd_live y)"
  by (cases rule: serve.cases) (auto simp: stuck_step simp del: live_step.simps)

lemma exhausted:
  assumes "permits_ok slots x" and "slots \<le> stuck (sd_live x)"
  shows "rl_free (sd_listeners x) = 0" and "accepting (sd_listeners x) = 0"
  using assms stuck_running [of "sd_live x"] by (simp_all add: permits_ok_def permits_def)

lemma accept_needs_permit: "step (Relay_Listener.Accept i) s s' \<Longrightarrow> 0 < accepting s"
  by (cases rule: step.cases) (auto simp: phase_of_def accepting_def filter_empty_conv in_set_conv_nth split: if_splits)

lemma side_length: "side_event e \<Longrightarrow> length (lv_conns (live_step e s)) = length (lv_conns s)"
  by (cases e) simp_all

lemma exhausted_step:
  assumes "serve x y" and "permits_ok slots x" and "slots \<le> stuck (sd_live x)"
  shows "length (lv_conns (sd_live y)) = length (lv_conns (sd_live x))"
  using assms(1)
proof (cases rule: serve.cases)
  case (serve_accept i rl proto lport peer client)
  then show ?thesis using accept_needs_permit exhausted(2) [OF assms(2,3)] by fastforce
qed (auto simp: side_length case_prod_beta)

text \<open>C39: 
  Silent peers take the relay down for good. Once as many handlers as there are slots wait for a peer that
  does not answer, no permit is free and no listener holds one, and no connection is ever accepted again,
  whatever happens afterwards.
\<close>

theorem silent_peers_exhaust_slots:
  assumes "permits_ok slots x" and "slots \<le> stuck (sd_live x)" and "serve\<^sup>*\<^sup>* x y"
  shows "rl_free (sd_listeners y) = 0 \<and> accepting (sd_listeners y) = 0
    \<and> length (lv_conns (sd_live y)) = length (lv_conns (sd_live x))"
proof -
  have "permits_ok slots y \<and> slots \<le> stuck (sd_live y) \<and> length (lv_conns (sd_live y)) = length (lv_conns (sd_live x))"
    using assms(3)
  proof (induction rule: rtranclp_induct)
    case (step y z)
    then show ?case
      using serve_permits [OF step(2)] exhausted_step [OF step(2)] serve_stuck [OF step(2)] by fastforce
  qed (use assms in simp)
  then show ?thesis using exhausted by blast
qed

section \<open>Examples\<close>

theorem sessions_within_slots_witness:
  "\<exists>x. serve\<^sup>*\<^sup>* (served_start 2 1 demo_live) x \<and> phase_of 0 (sd_listeners x) = Some Looping
     \<and> mt_active (sv_metrics (rp_service (lv_relay (sd_live x)))) \<le> 2"
proof -
  let ?x = "served_start 2 1 demo_live"
  let ?y = "?x\<lparr>sd_listeners := set_phase 0 Looping (sd_listeners ?x)\<rparr>"
  have start: "lv_conns demo_live = []" "sv_metrics (rp_service (lv_relay demo_live)) = no_metrics"
    by (simp_all add: demo_live_def demo_process_def demo_state_def)
  have "step (Bind 0) (sd_listeners ?x) (set_phase 0 Looping (sd_listeners ?x))"
    by (rule bound) (simp add: served_start_def relay_start_def phase_of_def)
  then have r: "serve\<^sup>*\<^sup>* ?x ?y" using serve_loop [of "Bind 0" ?x] by auto
  moreover have "phase_of 0 (sd_listeners ?y) = Some Looping"
    by (simp add: served_start_def relay_start_def phase_of_def set_phase_def)
  ultimately show ?thesis using sessions_within_slots [OF start r] by fastforce
qed

definition stuck_system :: served where
  "stuck_system = \<lparr>sd_listeners = \<lparr>rl_free = 0, rl_phases = [Relay_Listener.Selecting], rl_sessions = 1, rl_shutdown = False\<rparr>,
     sd_live = demo_live\<lparr>lv_conns := [to_phase (Ended Waiting None) (new_conn ''tls'' 443 ''10.0.0.7:5000'' demo_client)]\<rparr>\<rparr>"

theorem silent_peers_exhaust_slots_witness:
  "\<exists>y. serve\<^sup>*\<^sup>* stuck_system y \<and> rl_shutdown (sd_listeners y) \<and> rl_free (sd_listeners y) = 0"
proof -
  let ?y = "stuck_system\<lparr>sd_listeners := (sd_listeners stuck_system)\<lparr>rl_shutdown := True\<rparr>\<rparr>"
  have r: "serve\<^sup>*\<^sup>* stuck_system ?y" using serve_loop [of Signal stuck_system, OF _ signal] by auto
  have "permits_ok 1 stuck_system" "1 \<le> stuck (sd_live stuck_system)"
    by (simp_all add: permits_ok_def permits_def accepting_def running_def stuck_def stuck_system_def)
  from silent_peers_exhaust_slots [OF this r] r show ?thesis by fastforce
qed

end
