(* ===== verification/Relay_ByteSize.thy ===== *)
theory Relay_ByteSize
  imports Complex_Main Relay_Prelude
begin

text \<open>
  Byte sizes of the configuration (\<open>parse_byte_size\<close> and the \<open>ByteSize\<close> visitor of \<open>src/config.rs\<close>).
  The number in front of a unit is read as an \<open>f64\<close>, multiplied and cast to \<open>u64\<close>; a double is modelled
  by the rational it stands for, rounded to 53 significant bits, ties to even, with gradual underflow and
  overflow to infinity. The theorems show that whole numbers are exact below \<open>2\<^sup>5\<^sup>3\<close> whatever the unit and
  its spelling, and which odd texts are accepted.
\<close>

section \<open>Doubles\<close>

datatype f64 = Finite rat | PosInf | NegInf | NotANumber

definition pow2 :: "int \<Rightarrow> rat" where
  "pow2 e = (if 0 \<le> e then of_int (2 ^ nat e) else 1 / of_int (2 ^ nat (- e)))"

fun ilog2 :: "nat \<Rightarrow> nat" where
  "ilog2 n = (if n < 2 then 0 else Suc (ilog2 (n div 2)))"

declare ilog2.simps [simp del]

text \<open>The exponent of the leading binary digit of a positive rational.\<close>

definition exponent_of :: "rat \<Rightarrow> int" where
  "exponent_of q =
     (let (a, b) = quotient_of q;
          e = int (ilog2 (nat a)) - int (ilog2 (nat b))
      in if pow2 e \<le> q then e else e - 1)"

definition round_half_even :: "rat \<Rightarrow> int" where
  "round_half_even q =
     (let f = \<lfloor>q\<rfloor>; r = q - of_int f
      in if r < 1 / 2 then f else if r > 1 / 2 then f + 1 else if even f then f else f + 1)"

definition round_pos :: "rat \<Rightarrow> f64" where
  "round_pos q =
     (if q = 0 then Finite 0
      else
        (let u = max (exponent_of q - 52) (- 1074);
             v = of_int (round_half_even (q / pow2 u)) * pow2 u
         in if v \<noteq> 0 \<and> 1024 \<le> exponent_of v then PosInf else Finite v))"

definition round_f64 :: "rat \<Rightarrow> f64" where
  "round_f64 q =
     (if 0 \<le> q then round_pos q
      else case round_pos (- q) of Finite v \<Rightarrow> Finite (- v) | PosInf \<Rightarrow> NegInf | x \<Rightarrow> x)"

text \<open>\<open>str::parse::<f64>\<close>: sign, then a name or digits with an optional point and exponent.\<close>

definition all_digits :: "string \<Rightarrow> bool" where
  "all_digits s \<longleftrightarrow> list_all (\<lambda>c. to_digit 10 c \<noteq> None) s"

definition digits_value :: "string \<Rightarrow> nat" where
  "digits_value s = (case digits_acc 10 0 s of Some n \<Rightarrow> n | None \<Rightarrow> 0)"

definition parse_exponent :: "string \<Rightarrow> int option" where
  "parse_exponent s =
     (let (neg, t) = (case s of c # r \<Rightarrow> if c = CHR ''-'' then (True, r) else if c = CHR ''+'' then (False, r) else (False, s)
                      | [] \<Rightarrow> (False, []))
      in if t = [] \<or> \<not> all_digits t then None
         else Some ((if neg then - 1 else 1) * int (digits_value t)))"

definition pow10 :: "int \<Rightarrow> rat" where
  "pow10 e = (if 0 \<le> e then of_int (10 ^ nat e) else 1 / of_int (10 ^ nat (- e)))"

definition parse_mantissa :: "string \<Rightarrow> rat option" where
  "parse_mantissa s =
     (case split_once CHR ''.'' s of
        None \<Rightarrow> if s = [] \<or> \<not> all_digits s then None else Some (of_nat (digits_value s))
      | Some (a, b) \<Rightarrow>
          if a @ b = [] \<or> \<not> all_digits (a @ b) then None
          else Some (of_nat (digits_value (a @ b)) * pow10 (- int (length b))))"

definition parse_number :: "string \<Rightarrow> rat option" where
  "parse_number s =
     (let m = takeWhile (\<lambda>c. c \<noteq> CHR ''e'' \<and> c \<noteq> CHR ''E'') s;
          e = drop (length m) s
      in case parse_mantissa m of
           None \<Rightarrow> None
         | Some q \<Rightarrow>
             if e = [] then Some q
             else case parse_exponent (tl e) of None \<Rightarrow> None | Some x \<Rightarrow> Some (q * pow10 x))"

fun negate :: "f64 \<Rightarrow> f64" where
  "negate (Finite q) = Finite (- q)"
| "negate PosInf = NegInf"
| "negate NegInf = PosInf"
| "negate NotANumber = NotANumber"

definition parse_f64 :: "string \<Rightarrow> f64 option" where
  "parse_f64 s =
     (let (neg, t) = (case s of c # r \<Rightarrow> if c = CHR ''-'' then (True, r) else if c = CHR ''+'' then (False, r) else (False, s)
                      | [] \<Rightarrow> (False, []));
          v = (if eq_ignore_ascii_case t ''inf'' \<or> eq_ignore_ascii_case t ''infinity'' then Some PosInf
               else if eq_ignore_ascii_case t ''nan'' then Some NotANumber
               else map_option round_f64 (parse_number t))
      in if neg then map_option negate v else v)"

fun is_negative :: "f64 \<Rightarrow> bool" where
  "is_negative (Finite q) = (q < 0)"
| "is_negative NegInf = True"
| "is_negative _ = False"

text \<open>Multiplication by a positive number that is itself a double, and the saturating cast.\<close>

fun times_pos :: "f64 \<Rightarrow> nat \<Rightarrow> f64" where
  "times_pos (Finite q) k = round_f64 (q * of_nat k)"
| "times_pos x k = x"

fun as_u64_cast :: "f64 \<Rightarrow> u64" where
  "as_u64_cast (Finite q) = (if q \<ge> 2 ^ 64 then - 1 else if q < 0 then 0 else of_int \<lfloor>q\<rfloor>)"
| "as_u64_cast PosInf = - 1"
| "as_u64_cast NegInf = 0"
| "as_u64_cast NotANumber = 0"

section \<open>Sizes\<close>

definition SUFFIXES :: "(string \<times> nat) list" where
  "SUFFIXES = [(''TiB'', 1099511627776), (''GiB'', 1073741824), (''MiB'', 1048576), (''KiB'', 1024),
     (''TB'', 1000000000000), (''GB'', 1000000000), (''MB'', 1000000), (''KB'', 1000), (''B'', 1)]"

datatype size_error = BadNumber string string | NegativeSize string | NotASize string | NegativeInteger | WrongType

text \<open>\<open>&s[i..]\<close> panics, here \<open>None\<close>, when byte i is inside a character.\<close>

definition str_from :: "string \<Rightarrow> nat \<Rightarrow> string option" where
  "str_from s i = (if i < length s \<and> is_cont (of_char (s ! i)) then None else Some (drop i s))"

fun find_suffix :: "string \<Rightarrow> (string \<times> nat) list \<Rightarrow> (string \<times> nat) option option" where
  "find_suffix s [] = Some None"
| "find_suffix s ((sfx, factor) # rest) =
     (if length sfx \<le> length s then
        (case str_from s (length s - length sfx) of
           None \<Rightarrow> None
         | Some t \<Rightarrow> if eq_ignore_ascii_case t sfx then Some (Some (sfx, factor)) else find_suffix s rest)
      else find_suffix s rest)"

definition parse_byte_size :: "string \<Rightarrow> (size_error + u64) option" where
  "parse_byte_size text =
     (let s = trim text
      in case find_suffix s SUFFIXES of
           None \<Rightarrow> None
         | Some (Some (sfx, factor)) \<Rightarrow>
             Some (case parse_f64 (trim (take (length s - length sfx) s)) of
                     None \<Rightarrow> Inl (BadNumber sfx s)
                   | Some n \<Rightarrow> if is_negative n then Inl (NegativeSize s) else Inr (as_u64_cast (times_pos n factor)))
         | Some None \<Rightarrow>
             Some (case parse_u64 s of None \<Rightarrow> Inl (NotASize s) | Some n \<Rightarrow> Inr n))"

datatype yaml_size = SizeU64 u64 | SizeI64 int | SizeStr string | SizeOther

fun deserialize_byte_size :: "yaml_size \<Rightarrow> (size_error + u64) option" where
  "deserialize_byte_size (SizeU64 v) = Some (Inr v)"
| "deserialize_byte_size (SizeI64 v) = Some (if v < 0 then Inl NegativeInteger else Inr (of_int v))"
| "deserialize_byte_size (SizeStr s) = parse_byte_size s"
| "deserialize_byte_size SizeOther = Some (Inl WrongType)"

section \<open>Whole numbers below \<open>2\<^sup>5\<^sup>3\<close> are exact\<close>

lemma ilog2_bound: "n < 2 ^ Suc k \<Longrightarrow> ilog2 n \<le> k"
proof (induction k arbitrary: n)
  case 0
  then show ?case by (subst ilog2.simps) simp
next
  case (Suc k)
  then have "n div 2 < 2 ^ Suc k" by (simp add: less_mult_imp_div_less mult.commute)
  from Suc.IH [OF this] show ?case by (subst ilog2.simps) simp
qed

lemma exponent_of_nat: "n < 2 ^ 53 \<Longrightarrow> exponent_of (of_nat n) \<le> 52"
proof -
  assume "n < 2 ^ 53"
  then have "ilog2 n \<le> 52" using ilog2_bound [of n 52] by simp
  moreover have "quotient_of (of_nat n) = (int n, 1)" using quotient_of_int [of "int n"] by simp
  moreover have "ilog2 1 = 0" by (subst ilog2.simps) simp
  ultimately show ?thesis by (simp add: exponent_of_def Let_def)
qed

lemma round_half_even_int [simp]: "round_half_even (of_int i) = i"
  by (simp add: round_half_even_def)

lemma pow2_neg: "u \<le> 0 \<Longrightarrow> pow2 u = 1 / of_int (2 ^ nat (- u))"
  by (cases "u = 0") (simp_all add: pow2_def)

lemma round_f64_nat:
  assumes "n < 2 ^ 53"
  shows "round_f64 (of_nat n) = Finite (of_nat n)"
proof (cases "n = 0")
  case False
  define u where "u = max (exponent_of (of_nat n) - 52) (- 1074)"
  have u: "u \<le> 0" using exponent_of_nat [OF assms] by (simp add: u_def)
  have "(of_nat n :: rat) / pow2 u = of_int (int n * 2 ^ nat (- u))" by (simp add: pow2_neg [OF u])
  then have "round_half_even (of_nat n / pow2 u) = int n * 2 ^ nat (- u)" by (simp only: round_half_even_int)
  then have "of_int (round_half_even (of_nat n / pow2 u)) * pow2 u = of_nat n" by (simp only: pow2_neg [OF u]) simp
  with False exponent_of_nat [OF assms] show ?thesis
    by (simp add: round_f64_def round_pos_def Let_def u_def [symmetric])
qed (simp add: round_f64_def round_pos_def)

lemma digit_cases: "d < 10 \<Longrightarrow> of_char (digit_char d) = 48 + d"
  by (simp add: digit_char_def)

lemma show_nat_char: "c \<in> set (show_nat n) \<Longrightarrow> \<exists>d < 10. c = digit_char d"
  using show_radix_digits [of 10 c n] by auto

lemma digit_char_neqs:
  assumes "d < 10"
  shows "digit_char d \<noteq> CHR ''-''" "digit_char d \<noteq> CHR ''+''" "digit_char d \<noteq> CHR ''.''"
    "digit_char d \<noteq> CHR ''e''" "digit_char d \<noteq> CHR ''E''" "ascii_lower (digit_char d) = digit_char d"
    "digit_char d \<noteq> CHR ''i''" "digit_char d \<noteq> CHR ''n''" "\<not> is_whitespace (digit_char d)"
  using digit_cases [OF assms] assms by (auto simp: ascii_lower_def is_whitespace_def)

lemma parse_f64_show:
  assumes "n < 2 ^ 53"
  shows "parse_f64 (show_nat n) = Some (Finite (of_nat n))"
proof -
  obtain c r where cr: "show_nat n = c # r" by (cases "show_nat n") auto
  then obtain d where d: "d < 10" "c = digit_char d" using show_nat_char [of c n] by auto
  have ne: "\<not> eq_ignore_ascii_case (show_nat n) t" if "t \<in> {''inf'', ''infinity'', ''nan''}" for t
    using that digit_char_neqs [OF d(1)] by (auto simp: eq_ignore_ascii_case_def to_lowercase_def cr d(2) ascii_lower_def)
  have set: "c' \<noteq> CHR ''e'' \<and> c' \<noteq> CHR ''E'' \<and> c' \<noteq> CHR ''.'' \<and> to_digit 10 c' \<noteq> None" if "c' \<in> set (show_nat n)" for c'
    using show_nat_char [OF that] digit_char_neqs by auto
  then have tw: "takeWhile (\<lambda>c. c \<noteq> CHR ''e'' \<and> c \<noteq> CHR ''E'') (show_nat n) = show_nat n"
    by (intro takeWhile_eq_all_conv [THEN iffD2]) blast
  have "CHR ''.'' \<notin> set (show_nat n)" using set by blast
  then have "parse_mantissa (show_nat n) = Some (of_nat n)"
    using set by (simp add: parse_mantissa_def split_once_def all_digits_def list_all_iff digits_value_def digits_acc_show)
  then have "parse_number (show_nat n) = Some (of_nat n)"
    unfolding parse_number_def Let_def tw by simp
  moreover have "c \<noteq> CHR ''-''" "c \<noteq> CHR ''+''" using digit_char_neqs [OF d(1)] d(2) by simp_all
  ultimately show ?thesis
    using ne [unfolded cr] by (simp add: parse_f64_def cr round_f64_nat [OF assms])
qed

section \<open>The unit is found\<close>

definition unit_matches :: "string \<Rightarrow> string \<Rightarrow> bool" where
  "unit_matches given sfx \<longleftrightarrow>
     length sfx \<le> length given \<and> drop (length given - length sfx) (to_lowercase given) = to_lowercase sfx"

text \<open>Digits and white space come before all letters.\<close>

definition below_letters :: "string \<Rightarrow> bool" where
  "below_letters pre \<longleftrightarrow> list_all (\<lambda>c. (of_char c :: nat) < 65) pre"

definition unit_name :: "string \<Rightarrow> bool" where
  "unit_name sfx \<longleftrightarrow> sfx \<noteq> [] \<and> list_all (\<lambda>c. (of_char c :: nat) \<in> {65..<123}) sfx"

lemma ascii_lower_bounds:
  "(of_char c :: nat) < 65 \<Longrightarrow> ascii_lower c = c"
  "(of_char c :: nat) \<in> {65..<123} \<Longrightarrow> 65 \<le> (of_char (ascii_lower c) :: nat)"
  "128 \<le> (of_char c :: nat) \<Longrightarrow> ascii_lower c = c"
  by (auto simp: ascii_lower_def Let_def)

lemma to_lowercase_drop: "to_lowercase (drop k s) = drop k (to_lowercase s)"
  by (simp add: to_lowercase_def drop_map)

lemma unit_match_iff:
  assumes "pre \<noteq> []" and "below_letters pre" and "unit_name sfx" and "length sfx \<le> length (pre @ given)"
  shows "eq_ignore_ascii_case (drop (length (pre @ given) - length sfx) (pre @ given)) sfx = unit_matches given sfx"
proof (cases "length sfx \<le> length given")
  case True
  then have "drop (length (pre @ given) - length sfx) (pre @ given) = drop (length given - length sfx) given"
    by simp
  with True show ?thesis
    by (simp only: eq_ignore_ascii_case_def unit_matches_def to_lowercase_drop) simp
next
  case False
  let ?j = "length (pre @ given) - length sfx"
  have j: "?j < length pre" using False assms(4) by simp
  then have "hd (drop ?j (pre @ given)) = pre ! ?j" by (simp add: hd_drop_conv_nth nth_append)
  moreover have "(of_char (pre ! ?j) :: nat) < 65" using assms(2) j by (simp add: below_letters_def list_all_length)
  ultimately have "(of_char (hd (to_lowercase (drop ?j (pre @ given)))) :: nat) < 65"
    using j by (simp add: to_lowercase_def hd_map ascii_lower_bounds(1))
  moreover have "65 \<le> (of_char (hd (to_lowercase sfx)) :: nat)"
    using assms(3) by (cases sfx) (auto simp: unit_name_def to_lowercase_def intro: ascii_lower_bounds(2))
  ultimately show ?thesis using False by (auto simp: eq_ignore_ascii_case_def unit_matches_def)
qed

lemma find_suffix_units:
  assumes "pre \<noteq> []" and "below_letters pre" and "is_ascii given" and "list_all (\<lambda>(u, _). unit_name u) us"
  shows "find_suffix (pre @ given) us = Some (find (\<lambda>(u, _). unit_matches given u) us)"
  using assms(4)
proof (induction us)
  case (Cons uf us)
  obtain u f where uf: "uf = (u, f)" by fastforce
  with Cons.prems have u: "unit_name u" by simp
  have "\<not> is_cont (of_char ((pre @ given) ! i))" if "i < length (pre @ given)" for i
  proof -
    have "(pre @ given) ! i \<in> set pre \<union> set given" using that by (metis nth_mem set_append)
    then have "(of_char ((pre @ given) ! i) :: nat) < 128"
      using assms(2,3) by (auto simp: below_letters_def is_ascii_def list_all_iff)
    then show ?thesis by (simp add: is_cont_def)
  qed
  then have "str_from (pre @ given) i = Some (drop i (pre @ given))" for i by (simp add: str_from_def)
  with Cons uf unit_match_iff [OF assms(1,2) u, of given] show ?case
    by (auto simp: unit_matches_def)
qed simp

lemma suffixes_ok:
  "list_all (\<lambda>(u, _). unit_name u) SUFFIXES"
  "list_all (\<lambda>(u, f). find (\<lambda>(v, _). unit_matches u v) SUFFIXES = Some (u, f) \<and> 0 < f) SUFFIXES"
  by code_simp+

lemma unit_matches_case:
  assumes "eq_ignore_ascii_case given sfx"
  shows "unit_matches given = unit_matches sfx" "length given = length sfx"
proof -
  have e: "to_lowercase given = to_lowercase sfx" using assms by (simp add: eq_ignore_ascii_case_def)
  then show l: "length given = length sfx" by (metis length_to_lowercase)
  show "unit_matches given = unit_matches sfx" by (rule ext) (simp add: unit_matches_def e l)
qed

lemma unit_chars:
  assumes "eq_ignore_ascii_case given sfx" and "unit_name sfx"
  shows "is_ascii given" "given \<noteq> []" "\<not> is_whitespace (last given)"
proof -
  have ge: "65 \<le> (of_char c :: nat) \<and> (of_char c :: nat) < 128" if "c \<in> set given" for c
  proof -
    have "ascii_lower c \<in> set (to_lowercase sfx)"
      using that assms(1) by (metis eq_ignore_ascii_case_def image_eqI set_map to_lowercase_def)
    then obtain b where "b \<in> set sfx" "ascii_lower c = ascii_lower b" by (auto simp: to_lowercase_def)
    moreover from this assms(2) have "(of_char b :: nat) \<in> {65..<123}" by (auto simp: unit_name_def list_all_iff)
    ultimately show ?thesis by (auto simp: ascii_lower_def Let_def split: if_splits)
  qed
  then show "is_ascii given" by (auto simp: is_ascii_def list_all_iff)
  show ne: "given \<noteq> []" using unit_matches_case(2) [OF assms(1)] assms(2) by (auto simp: unit_name_def)
  show "\<not> is_whitespace (last given)" using ge [OF last_in_set [OF ne]] by (auto simp: is_whitespace_def)
qed

lemma trim_show_ws: "list_all is_whitespace ws \<Longrightarrow> trim (show_nat n @ ws) = show_nat n"
proof -
  assume ws: "list_all is_whitespace ws"
  have digits: "\<not> is_whitespace c" if "c \<in> set (show_nat n)" for c
    using show_nat_char [OF that] digit_char_neqs(9) by auto
  then have "trim_start (show_nat n @ ws) = show_nat n @ ws"
    by (cases "show_nat n") (auto simp: trim_start_def)
  moreover have "dropWhile is_whitespace (rev (show_nat n)) = rev (show_nat n)"
    using digits by (intro dropWhile_fixed) (simp add: hd_rev)
  then have "dropWhile is_whitespace (rev ws @ rev (show_nat n)) = rev (show_nat n)"
    using ws by (subst dropWhile_append2) (auto simp: list_all_iff)
  ultimately show ?thesis by (simp add: trim_def trim_end_def)
qed

lemma cast_nat: "m < 2 ^ 64 \<Longrightarrow> as_u64_cast (Finite (of_nat m)) = of_nat m"
proof -
  assume "m < 2 ^ 64"
  then have "(of_nat m :: rat) < of_nat (2 ^ 64)" by (simp only: of_nat_less_iff)
  then show ?thesis by simp
qed

text \<open>C30: 
  A whole number with a unit means what it says: for every unit, in any capitalisation and with any
  white space in front of it, the size is the number times the factor, exactly, as long as the product
  is below \<open>2\<^sup>5\<^sup>3\<close>.
\<close>

theorem byte_size_exact:
  assumes "(sfx, f) \<in> set SUFFIXES" and "eq_ignore_ascii_case given sfx" and "list_all is_whitespace ws"
    and "n * f < 2 ^ 53"
  shows "parse_byte_size (show_nat n @ ws @ given) = Some (Inr (of_nat (n * f)))"
proof -
  let ?pre = "show_nat n @ ws"
  have sfx: "unit_name sfx" "find (\<lambda>(v, _). unit_matches sfx v) SUFFIXES = Some (sfx, f)" "0 < f"
    using suffixes_ok assms(1) by (auto simp: list_all_iff)
  note given = unit_chars [OF assms(2) sfx(1)] unit_matches_case [OF assms(2)]
  have "c \<in> set (show_nat n) \<Longrightarrow> (of_char c :: nat) < 65" for c using show_nat_char [of c n] digit_cases by auto
  then have pre: "?pre \<noteq> []" "below_letters ?pre"
    using assms(3) by (auto simp: below_letters_def list_all_iff is_whitespace_def Let_def)
  have "\<not> is_whitespace (hd (show_nat n))"
    using show_nat_char [of "hd (show_nat n)" n] digit_char_neqs(9) by auto
  then have trim: "trim (?pre @ given) = ?pre @ given"
    using given(2,3) by (intro trim_id) simp
  have find: "find_suffix (?pre @ given) SUFFIXES = Some (Some (sfx, f))"
    using find_suffix_units [OF pre given(1) suffixes_ok(1)] sfx(2) given(4) by simp
  have num: "trim (take (length (?pre @ given) - length sfx) (?pre @ given)) = show_nat n"
    using trim_show_ws [OF assms(3)] given(5) by simp
  have "n * 1 \<le> n * f" using sfx(3) by (intro mult_le_mono2) simp
  with assms(4) have n: "n < 2 ^ 53" by (simp only: mult_1_right)
  have "times_pos (Finite (of_nat n)) f = Finite (of_nat (n * f))" using round_f64_nat [OF assms(4)] by simp
  moreover have "n * f < 2 ^ 64" using assms(4) by simp
  ultimately show ?thesis
    using trim find num parse_f64_show [OF n] cast_nat [of "n * f"]
    by (simp add: parse_byte_size_def Let_def del: times_pos.simps as_u64_cast.simps)
qed

theorem byte_size_exact_witness:
  "parse_byte_size ''100 gib'' = Some (Inr 107374182400)"
proof -
  have "show_nat 100 = ''100''" by code_simp
  moreover have "(''GiB'', 1073741824) \<in> set SUFFIXES" "eq_ignore_ascii_case ''gib'' ''GiB''" "list_all is_whitespace '' ''"
    by code_simp+
  ultimately show ?thesis using byte_size_exact [of "''GiB''" 1073741824 "''gib''" "'' ''" 100] by simp
qed

text \<open>
  Texts that are accepted although they name no size, and one that stops the program: not-a-number gives
  the limit 0, infinity the largest one, and a character of several bytes at the end panics.
\<close>

lemma odd_sizes:
  "parse_byte_size ''nanGB'' = Some (Inr 0)" "parse_byte_size ''inf B'' = Some (Inr (- 1))"
  "parse_byte_size ''-1GB'' = Some (Inl (NegativeSize ''-1GB''))"
  "parse_byte_size (''5'' @ [CHR 0xE2, CHR 0x82, CHR 0xAC]) = None"
  by code_simp+

end
