(* ===== verification/Relay_MetricsServer.thy ===== *)
theory Relay_MetricsServer
  imports Relay_Metrics Relay_Connector
begin

text \<open>
  The metrics endpoint of \<open>src/metrics.rs\<close>: the snapshot that a background task refreshes and the answer
  to a scrape. The text of the snapshot is made by the prometheus crate and is a parameter. The theorems
  show that at most one refresh runs at a time, that a scrape gets the latest finished snapshot, and that
  the answer is a well-formed HTTP message.
\<close>

section \<open>Refreshing the snapshot\<close>

text \<open>\<open>mp_encoders\<close> counts the refresh tasks that are running.\<close>

record publisher =
  mp_busy :: bool
  mp_encoders :: nat
  mp_snapshot :: bytes

datatype refresh_event = RefreshTick | Encoded bytes | EncodeFailed

definition publish_snapshot :: "bytes option \<Rightarrow> publisher \<Rightarrow> publisher" where
  "publish_snapshot body p = (case body of Some b \<Rightarrow> p\<lparr>mp_snapshot := b\<rparr> | None \<Rightarrow> p)"

definition publisher_start :: "bytes option \<Rightarrow> publisher" where
  "publisher_start first = publish_snapshot first \<lparr>mp_busy = False, mp_encoders = 0, mp_snapshot = []\<rparr>"

definition refresh_done :: "bytes option \<Rightarrow> publisher \<Rightarrow> publisher" where
  "refresh_done body p =
     (let p = publish_snapshot body p in p\<lparr>mp_busy := False, mp_encoders := mp_encoders p - 1\<rparr>)"

fun refresh_step :: "refresh_event \<Rightarrow> publisher \<Rightarrow> publisher option" where
  "refresh_step RefreshTick p =
     Some (if mp_busy p then p else p\<lparr>mp_busy := True, mp_encoders := Suc (mp_encoders p)\<rparr>)"
| "refresh_step (Encoded b) p = (if mp_encoders p = 0 then None else Some (refresh_done (Some b) p))"
| "refresh_step EncodeFailed p = (if mp_encoders p = 0 then None else Some (refresh_done None p))"

fun refresh_run :: "refresh_event list \<Rightarrow> publisher \<Rightarrow> publisher option" where
  "refresh_run [] p = Some p"
| "refresh_run (e # es) p = (case refresh_step e p of None \<Rightarrow> None | Some p \<Rightarrow> refresh_run es p)"

section \<open>Answering a scrape\<close>

definition http_response :: "string \<Rightarrow> bytes \<Rightarrow> bytes" where
  "http_response status body =
     as_bytes (''HTTP/1.1 '' @ status @ crlf @ ''Content-Type: text/plain; version=0.0.4; charset=utf-8'' @ crlf
       @ ''Connection: close'' @ crlf @ ''Content-Length: '' @ show_nat (length body) @ crlf @ crlf) @ body"

text \<open>Nothing is answered when the request does not arrive within its time; \<open>later\<close> is a snapshot published
  within the second waiting time.\<close>

definition serve_metrics :: "sock \<Rightarrow> bytes \<Rightarrow> bytes option \<Rightarrow> bytes option" where
  "serve_metrics s snapshot later =
     (case read 4096 s of
        Got _ \<Rightarrow>
          Some (if snapshot \<noteq> [] then http_response ''200 OK'' snapshot
                else case later of
                       Some body \<Rightarrow> http_response ''200 OK'' body
                     | None \<Rightarrow> http_response ''503 Service Unavailable'' (as_bytes (''metrics snapshot not ready yet'' @ [CHR 0x0A])))
      | _ \<Rightarrow> None)"

section \<open>The endpoint\<close>

text \<open>
  The first snapshot is taken before the address is bound. Every accepted connection is answered by a task
  of its own, from the snapshot of the moment its request has arrived; \<open>me_answers\<close> is the history of the
  answers. A failed \<open>accept\<close> is logged.
\<close>

record endpoint =
  me_publisher :: publisher
  me_answers :: "bytes option list"

datatype metrics_event = Refresh refresh_event | Scrape sock "bytes option" | ScrapeLost

definition start_metrics_server :: "(string \<Rightarrow> bool) \<Rightarrow> bytes option \<Rightarrow> string \<Rightarrow> string + endpoint" where
  "start_metrics_server binds first addr =
     (let p = publisher_start first in if binds addr then Inr \<lparr>me_publisher = p, me_answers = []\<rparr> else Inl addr)"

fun metrics_step :: "metrics_event \<Rightarrow> endpoint \<Rightarrow> endpoint option" where
  "metrics_step (Refresh e) m = map_option (\<lambda>p. m\<lparr>me_publisher := p\<rparr>) (refresh_step e (me_publisher m))"
| "metrics_step (Scrape s later) m =
     Some (m\<lparr>me_answers := me_answers m @ [serve_metrics s (mp_snapshot (me_publisher m)) later]\<rparr>)"
| "metrics_step ScrapeLost m = Some m"

fun metrics_run :: "metrics_event list \<Rightarrow> endpoint \<Rightarrow> endpoint option" where
  "metrics_run [] m = Some m"
| "metrics_run (e # es) m = (case metrics_step e m of None \<Rightarrow> None | Some m \<Rightarrow> metrics_run es m)"

section \<open>Properties\<close>

definition last_encoded :: "bytes \<Rightarrow> refresh_event list \<Rightarrow> bytes" where
  "last_encoded b es = foldl (\<lambda>b e. case e of Encoded b' \<Rightarrow> b' | _ \<Rightarrow> b) b es"

lemma refresh_run_inv:
  assumes "refresh_run es p = Some q" and "mp_encoders p = (if mp_busy p then 1 else 0)"
  shows "mp_encoders q = (if mp_busy q then 1 else 0) \<and> mp_snapshot q = last_encoded (mp_snapshot p) es"
  using assms
proof (induction es arbitrary: p)
  case (Cons e es)
  then show ?case
    by (cases e) (auto simp: refresh_done_def publish_snapshot_def last_encoded_def Let_def split: if_splits)
qed (simp add: last_encoded_def)

text \<open>
  However ticks and finished refreshes follow each other, at most one refresh runs at a time, the busy flag
  says whether one does, and the snapshot that scrapes see is the one of the last refresh that succeeded.
\<close>

theorem metrics_refresh_exclusive:
  assumes "refresh_run es (publisher_start first) = Some p"
  shows "mp_encoders p = (if mp_busy p then 1 else 0)
    \<and> mp_snapshot p = last_encoded (case first of Some b \<Rightarrow> b | None \<Rightarrow> []) es"
  using refresh_run_inv [OF assms] by (cases first) (simp_all add: publisher_start_def publish_snapshot_def)

theorem metrics_refresh_exclusive_witness:
  "\<exists>p. refresh_run [RefreshTick, RefreshTick, Encoded [1], RefreshTick, EncodeFailed] (publisher_start None) = Some p
     \<and> mp_snapshot p = [1] \<and> mp_encoders p = 0"
proof -
  obtain p where p: "refresh_run [RefreshTick, RefreshTick, Encoded [1], RefreshTick, EncodeFailed] (publisher_start None) = Some p"
    "\<not> mp_busy p"
    by (simp add: publisher_start_def publish_snapshot_def refresh_done_def)
  from metrics_refresh_exclusive [OF p(1)] p show ?thesis by (simp add: last_encoded_def)
qed

text \<open>The end of a header block: lines without CR.\<close>

lemma find_sub_skip:
  "list_all (\<lambda>b. b \<noteq> 0x0D) l \<Longrightarrow> find_sub (0x0D # p) (l @ rest) i = find_sub (0x0D # p) rest (i + length l)"
  by (induction l arbitrary: i) (auto simp: prefix_def)

lemma find_sub_line:
  assumes "b \<noteq> 0x0D"
  shows "find_sub [0x0D, 0x0A, 0x0D, 0x0A] (0x0D # 0x0A # b # rest) i = find_sub [0x0D, 0x0A, 0x0D, 0x0A] (b # rest) (i + 2)"
  using assms by simp

definition header_line :: "bytes \<Rightarrow> bool" where
  "header_line l \<longleftrightarrow> l \<noteq> [] \<and> list_all (\<lambda>b. b \<noteq> 0x0D) l"

lemma find_crlfcrlf_lines:
  assumes "list_all header_line ls" and "ls \<noteq> []"
  shows "find_sub [0x0D, 0x0A, 0x0D, 0x0A] (concat (map (\<lambda>l. l @ [0x0D, 0x0A]) ls) @ 0x0D # 0x0A # body) i
    = Some (i + length (concat (map (\<lambda>l. l @ [0x0D, 0x0A]) ls)) - 2)"
  using assms
proof (induction ls arbitrary: i)
  case (Cons l ls)
  then have l: "header_line l" by simp
  show ?case
  proof (cases ls)
    case Nil
    then show ?thesis using l by (simp add: header_line_def find_sub_skip)
  next
    case (Cons m ms)
    then obtain b bs where m: "m = b # bs" "b \<noteq> 0x0D" using Cons.prems(1) by (cases m) (auto simp: header_line_def)
    have "find_sub [0x0D, 0x0A, 0x0D, 0x0A] (concat (map (\<lambda>l. l @ [0x0D, 0x0A]) ls) @ 0x0D # 0x0A # body) (i + length l + 2)
      = Some (i + length l + 2 + length (concat (map (\<lambda>l. l @ [0x0D, 0x0A]) ls)) - 2)"
      using Cons.IH [of "i + length l + 2"] Cons.prems Cons by simp
    then show ?thesis using l m Cons by (simp add: header_line_def find_sub_skip)
  qed
qed simp

definition response_lines :: "string \<Rightarrow> nat \<Rightarrow> bytes list" where
  "response_lines status n =
     [as_bytes (''HTTP/1.1 '' @ status), as_bytes ''Content-Type: text/plain; version=0.0.4; charset=utf-8'',
      as_bytes ''Connection: close'', as_bytes (''Content-Length: '' @ show_nat n)]"

lemma http_response_lines:
  "http_response status body =
     concat (map (\<lambda>l. l @ [0x0D, 0x0A]) (response_lines status (length body))) @ 0x0D # 0x0A # body"
  by (simp add: http_response_def response_lines_def crlf_def as_bytes_def byte_of_char_def)

lemma as_bytes_no_cr: "CHR 0x0D \<notin> set s \<Longrightarrow> list_all (\<lambda>b. b \<noteq> 0x0D) (as_bytes s)"
proof -
  assume s: "CHR 0x0D \<notin> set s"
  have "byte_of_char c \<noteq> 0x0D" if "c \<in> set s" for c
  proof
    assume "byte_of_char c = 0x0D"
    then have "char_of_byte (byte_of_char c) = char_of_byte 0x0D" by simp
    moreover have "char_of_byte 0x0D = CHR 0x0D" by code_simp
    ultimately have "c = CHR 0x0D" by simp
    with s that show False by simp
  qed
  then show ?thesis by (auto simp: as_bytes_def list_all_iff)
qed

lemma response_lines_ok:
  assumes "CHR 0x0D \<notin> set status"
  shows "list_all header_line (response_lines status n)"
proof -
  have "CHR 0x0D \<notin> set (show_nat n)"
  proof
    assume "CHR 0x0D \<in> set (show_nat n)"
    then obtain d where "d < 10" "CHR 0x0D = digit_char d" using show_radix_digits [of 10 "CHR 0x0D" n] by auto
    moreover have "is_whitespace (CHR 0x0D)" by code_simp
    ultimately show False using digit_char_neq(5) [of d] by simp
  qed
  then show ?thesis
    using assms by (simp add: response_lines_def header_line_def as_bytes_no_cr) (simp add: as_bytes_def)
qed

text \<open>
  Every scrape that is answered gets a message a client can take apart: the first empty line ends the
  header block, the last header gives the length of the body in decimal, and what follows is the body,
  byte for byte. The body is the snapshot unless that is empty.
\<close>

theorem metrics_response:
  assumes "serve_metrics s snapshot later = Some r"
  shows "\<exists>status body k. r = http_response status body \<and> find_crlfcrlf r = Some k \<and> drop (k + 4) r = body
    \<and> suffix (as_bytes (''Content-Length: '' @ show_nat (length body))) (take k r)
    \<and> (if snapshot \<noteq> [] then status = ''200 OK'' \<and> body = snapshot
       else case later of Some b \<Rightarrow> status = ''200 OK'' \<and> body = b | None \<Rightarrow> status = ''503 Service Unavailable'')"
proof -
  obtain status body where r: "r = http_response status body" "CHR 0x0D \<notin> set status"
    "if snapshot \<noteq> [] then status = ''200 OK'' \<and> body = snapshot
     else case later of Some b \<Rightarrow> status = ''200 OK'' \<and> body = b | None \<Rightarrow> status = ''503 Service Unavailable''"
    using assms by (auto simp: serve_metrics_def split: outcome.splits if_splits option.splits)
  let ?ls = "response_lines status (length body)"
  let ?h = "concat (map (\<lambda>l. l @ [0x0D, 0x0A]) ?ls)"
  define k where "k = length ?h - 2"
  have k: "find_crlfcrlf r = Some k"
    unfolding find_crlfcrlf_def r(1) http_response_lines k_def
    using find_crlfcrlf_lines [OF response_lines_ok [OF r(2)], of "length body" body 0] by (simp add: response_lines_def)
  obtain h where h: "?h = h @ as_bytes (''Content-Length: '' @ show_nat (length body)) @ [0x0D, 0x0A]"
    by (simp add: response_lines_def)
  have "take k r = h @ as_bytes (''Content-Length: '' @ show_nat (length body))" "drop (k + 4) r = body"
    unfolding k_def r(1) http_response_lines h by simp_all
  with k r show ?thesis by (metis suffixI)
qed

theorem metrics_response_witness:
  "\<exists>k. find_crlfcrlf (http_response ''200 OK'' [1, 2, 3]) = Some k
     \<and> drop (k + 4) (http_response ''200 OK'' [1, 2, 3]) = [1, 2, 3]"
proof -
  have "serve_metrics \<lparr>sk_in = [], sk_end = Closed, sk_out = [], sk_room = None\<rparr> [1, 2, 3] None = Some (http_response ''200 OK'' [1, 2, 3])"
    by (simp add: serve_metrics_def read_def)
  from metrics_response [OF this] show ?thesis by auto
qed

text \<open>The refreshes of a run, and its answers when the snapshot was \<open>b\<close> before.\<close>

definition refreshes :: "metrics_event list \<Rightarrow> refresh_event list" where
  "refreshes es = List.map_filter (\<lambda>e. case e of Refresh r \<Rightarrow> Some r | _ \<Rightarrow> None) es"

fun answers :: "bytes \<Rightarrow> metrics_event list \<Rightarrow> bytes option list" where
  "answers b [] = []"
| "answers b (Refresh e # es) = answers (last_encoded b [e]) es"
| "answers b (Scrape s later # es) = serve_metrics s b later # answers b es"
| "answers b (ScrapeLost # es) = answers b es"

lemma metrics_run_projection:
  assumes "metrics_run es m = Some m'"
  shows "refresh_run (refreshes es) (me_publisher m) = Some (me_publisher m')
    \<and> me_answers m' = me_answers m @ answers (mp_snapshot (me_publisher m)) es"
  using assms
proof (induction es arbitrary: m)
  case (Cons e es)
  show ?case
  proof (cases e)
    case (Refresh r)
    then obtain p where p: "refresh_step r (me_publisher m) = Some p" using Cons.prems by (auto split: option.splits)
    moreover have "mp_snapshot p = last_encoded (mp_snapshot (me_publisher m)) [r]"
      using p by (cases r) (auto simp: last_encoded_def refresh_done_def publish_snapshot_def Let_def split: if_splits)
    ultimately show ?thesis
      using Cons.IH [of "m\<lparr>me_publisher := p\<rparr>"] Cons.prems Refresh by (simp add: refreshes_def List.map_filter_def)
  qed (use Cons in \<open>force simp: refreshes_def List.map_filter_def\<close>)+
qed (simp add: refreshes_def List.map_filter_def)

text \<open>
  Scrapes do not disturb each other or the refreshes: in every run of an endpoint that was started, each
  scrape is answered from the last snapshot that was finished before it, at most one refresh is under way,
  and a start whose address cannot be bound fails.
\<close>

theorem scrapes_see_latest:
  assumes "start_metrics_server binds first addr = Inr m" and "metrics_run es m = Some m'"
  shows "binds addr \<and> me_answers m' = answers (case first of Some b \<Rightarrow> b | None \<Rightarrow> []) es
    \<and> mp_encoders (me_publisher m') \<le> 1
    \<and> mp_snapshot (me_publisher m') = last_encoded (case first of Some b \<Rightarrow> b | None \<Rightarrow> []) (refreshes es)"
proof -
  have m: "binds addr" "m = \<lparr>me_publisher = publisher_start first, me_answers = []\<rparr>"
    using assms(1) by (auto simp: start_metrics_server_def Let_def split: if_splits)
  have "mp_snapshot (publisher_start first) = (case first of Some b \<Rightarrow> b | None \<Rightarrow> [])"
    "mp_encoders (publisher_start first) = (if mp_busy (publisher_start first) then 1 else 0)"
    by (cases first; simp add: publisher_start_def publish_snapshot_def)+
  with m metrics_run_projection [OF assms(2)] refresh_run_inv [of "refreshes es" "publisher_start first"]
  show ?thesis by (auto split: if_splits)
qed

theorem scrapes_see_latest_witness:
  "\<exists>m'. metrics_run [Scrape \<lparr>sk_in = [], sk_end = Closed, sk_out = [], sk_room = None\<rparr> None, Refresh RefreshTick,
       Refresh (Encoded [7]), Scrape \<lparr>sk_in = [], sk_end = Closed, sk_out = [], sk_room = None\<rparr> None]
       \<lparr>me_publisher = publisher_start (Some [1]), me_answers = []\<rparr> = Some m'
     \<and> me_answers m' = [Some (http_response ''200 OK'' [1]), Some (http_response ''200 OK'' [7])]"
proof -
  let ?es = "[Scrape \<lparr>sk_in = [], sk_end = Closed, sk_out = [], sk_room = None\<rparr> None, Refresh RefreshTick,
       Refresh (Encoded [7]), Scrape \<lparr>sk_in = [], sk_end = Closed, sk_out = [], sk_room = None\<rparr> None]"
  have start: "start_metrics_server (\<lambda>_. True) (Some [1]) ''0.0.0.0:9090'' = Inr \<lparr>me_publisher = publisher_start (Some [1]), me_answers = []\<rparr>"
    by (simp add: start_metrics_server_def Let_def)
  obtain m' where run: "metrics_run ?es \<lparr>me_publisher = publisher_start (Some [1]), me_answers = []\<rparr> = Some m'"
    by (simp add: publisher_start_def publish_snapshot_def)
  have "answers [1] ?es = [Some (http_response ''200 OK'' [1]), Some (http_response ''200 OK'' [7])]"
    by (simp add: serve_metrics_def read_def last_encoded_def)
  then show ?thesis using scrapes_see_latest [OF start run] run by (simp del: answers.simps metrics_run.simps)
qed

end
