(* ===== verification/Spec2Isabelle.thy ===== *)
theory Spec2Isabelle
  imports Relay_Limiter_Steps Relay_Listener Relay_Monitor Relay_Traffic Relay_QueryLog Relay_Tasks Relay_Serve
    Relay_ByteSize Relay_MetricsServer
begin

text \<open>
  SNIrelay, the verification of the relay in \<open>src/\<close>

  \<^bold>\<open>The program.\<close> SNIrelay accepts TCP connections, reads the host name from the TLS ClientHello or the HTTP
  request line and headers without terminating TLS, decides whether client and host may be served, dials
  the destination directly or through a SOCKS5 or HTTP CONNECT upstream, replays the bytes it has peeked
  and then copies in both directions. Beside the data path run a monitor that probes the upstreams and
  reports transitions over Telegram, and an administration panel with a REST API, a SQLite database, a
  dnsmasq rule store, a reader of the dnsmasq query log and a mirror of the client list in the firewall.
  \<open>main\<close> loads the configuration, probes the default upstream, creates the shared tables (registry, client
  list, hosts table) and hands them to the panel and to the service.

  \<^bold>\<open>Theories and sources\<close> (paths below \<open>src/src/\<close>):
  \<^item> \<open>Relay_Prelude\<close>: what the code uses of Rust's strings, slices, integers and maps. A map type is the
    locale \<open>kv_map\<close>, interpreted as \<open>hm\<close> for \<open>HashMap\<close> (a list in iteration order) and \<open>bt\<close> for \<open>BTreeMap\<close>
    (a sorted list).
  \<^item> \<open>Relay_Net\<close>: parsing and display of IP and socket addresses as in \<open>std::net\<close>, with their round trip.
  \<^item> \<open>Relay_Sni\<close> (\<open>sni.rs\<close>), \<open>Relay_Hosts\<close> (\<open>hosts.rs\<close>), \<open>Relay_Config\<close> and \<open>Relay_ByteSize\<close> (\<open>config.rs\<close>), \<open>Relay_Acl\<close>
    (\<open>client_acl.rs\<close>), \<open>Relay_Registry\<close> (\<open>upstream_registry.rs\<close>), \<open>Relay_Limiter\<close> and \<open>Relay_Limiter_Steps\<close>
    (\<open>domain_limiter.rs\<close>, whole operations and the atomic steps of concurrent ones).
  \<^item> \<open>Relay_Stream\<close>: sockets as the chunks they deliver and how they end; an operation returns \<open>Got\<close>, \<open>Err\<close>
    or \<open>Hang\<close> (it waits for ever); the locale \<open>incremental_parser\<close> of parsers whose verdict is final.
  \<^item> \<open>Relay_Connector\<close> (\<open>proxy_connector.rs\<close>), \<open>Relay_SelfLoop\<close> (\<open>self_loop.rs\<close>), \<open>Relay_Limits\<close> (\<open>limits.rs\<close>),
    \<open>Relay_Metrics\<close> and \<open>Relay_MetricsServer\<close> (\<open>metrics.rs\<close>: counters; snapshots, scrapes and the endpoint),
    \<open>Relay_Extract\<close>, \<open>Relay_Splice\<close>, \<open>Relay_Service\<close>, \<open>Relay_Steps\<close>, \<open>Relay_Listener\<close> (\<open>service.rs\<close>: peeking and
    destinations, bidirectional copy, the connection handler as one function and as the steps between which
    other tasks run, the accept loops with the semaphore and the shutdown flag).
  \<^item> \<open>Relay_Telegram\<close> (\<open>telegram.rs\<close>), \<open>Relay_Monitor\<close> (\<open>upstream_monitor.rs\<close>).
  \<^item> \<open>Relay_Host\<close>: paths, a file system of texts and directories, and commands of the host, shared by
    \<open>Relay_Dnsmasq\<close> (\<open>panel/dnsmasq_store.rs\<close>), \<open>Relay_Ufw\<close> (\<open>ufw.rs\<close>) and \<open>Relay_Logging\<close> (\<open>logging.rs\<close>).
  \<^item> \<open>Relay_PanelDb\<close> (\<open>panel/db.rs\<close>), \<open>Relay_Traffic\<close> (\<open>panel/traffic.rs\<close>), \<open>Relay_QueryLog\<close>
    (\<open>panel/dnsmasq_query_log.rs\<close>), \<open>Relay_Panel\<close> (\<open>panel/mod.rs\<close> and the persisting functions of
    \<open>panel/api.rs\<close>), \<open>Relay_Api\<close> and \<open>Relay_Api_Laws\<close> (\<open>panel/api.rs\<close>, the handlers and their properties).
  \<^item> \<open>Relay_Main\<close> (\<open>main.rs\<close>); \<open>Relay_System\<close> (the tables that panel and service share, a request of the panel
    on them, the locale \<open>kept_invariant\<close>).
  \<^item> The running process, in three stages: \<open>Relay_Interleave\<close> (all connections in steps, panel requests, the
    aggregator and the removal of expired sessions, in any order; the locale \<open>conn_counter\<close>, interpreted for
    six counters), \<open>Relay_Serve\<close> (the same joined with the listeners and their permits) and \<open>Relay_Tasks\<close> (the
    same with the reader of the query log, line by line). This theory holds the properties that span
    components.

  \<^bold>\<open>Conventions.\<close> Strings are byte strings; case folding and white space are those of ASCII. Structs are
  records, enums datatypes, errors values of a sum type with one constructor per context of the source.
  Integers are words of their width, with saturation and wrap-around where the code has them (a release
  build does not check overflow). A slice or index out of range is \<open>None\<close>, which stands for a panic that
  ends the process. Locks and atomics: an operation that runs under a lock is one step; the lock-free
  limiter has a step per atomic access. A connection has a step per access to a table, a counter or a peer,
  the log reader one per line; a request of the panel is one step, although it takes several locks in turn. SQL statements are functions on tables that either take effect or
  leave them unchanged; integers beyond 63 bits become reals as in SQLite. A double is the
  rational it stands for, rounded explicitly. Parameters stand for code that
  is not in the repository: regular expressions, YAML and JSON, argon2, chrono, curl, ufw and the shell,
  the resolver and the network, the clock, the file system, interface addresses and the random token.
  Hypotheses about them are named predicates (for instance \<open>yaml_maps\<close>, \<open>texts_in_order\<close>, \<open>json_returns\<close>).

  \<^bold>\<open>Termination and fuel.\<close> Loops over bytes and lines are structural or have a measure. Loops that wait for
  a peer return \<open>Hang\<close> when it falls silent. \<open>ensure_loop\<close> is a partial function, and
  \<open>ensure_upstream_ready_returns\<close> shows that it ends, with a bound on the attempts. The copy runs along a
  finite list of turns; \<open>splice_ends\<close>, and \<open>session_ends_under_interleaving\<close> beside other tasks, show that
  enough turns end it. A run of the process is a finite list of events of any length. There is no fuel anywhere else.

  \<^bold>\<open>What is shown.\<close> For the data path: the parser never panics, recovers the name of every well-formed
  ClientHello and replays exactly the first flight; extraction does not depend on chunking. Under every
  interleaving with other connections and with the panel a connection is dialled only when client list,
  limiter, hosts table and self-loop guard admit it, each by its table of the moment, in candidate order;
  upstream and client receive a prefix of what the other sent; sessions end; the counters are exactly those
  of the connections made so far; the sample of every session is recorded once; no more handlers run than
  there are slots. A connection that is not disturbed does what the handler as one function does, and the
  theorems about that function hold for it. For the limiter: quotas hold over every history and under every
  interleaving of atomic steps, exactly within a stored day and up to twice the limit across a change of
  day; state survives restarts and crashes. For the monitor: thresholds and cooldown refine a specification
  on results in a row. For the panel: nothing but login, logout and health is served without a session;
  tables and database keep their invariants; passwords of upstreams do not leave it and survive an edit;
  rules saved for dnsmasq are the rules loaded, and foreign directives survive; the query log may be read in
  steps and its answers reach only the queries they belong to; persisting replaces only its own keys. For
  the whole: the start ends, keeps the log file and establishes the invariants; they hold under every
  interleaving of all tasks, and client lists and hosts rows saved in the panel decide the connections that
  look at them afterwards. Several theorems state limits of the code: silent peers use up the slots for
  ever, a silent proxy stops the monitor, a shutdown waits for one more client, a rollover loses admissions
  and a stale clock reopens a quota, a line of the query log can stop the process and the first of two
  askers gets no answer, a bypass rule is stored as a relay rule, managed files grow with every save, a
  shared file loses its relay rules.

  \<^bold>\<open>Not modelled.\<close> Command line parsing, the formatting of log records and the matching of log filters, the
  HTTP server of the panel (routing by axum, headers, CORS), the exposition text of the prometheus crate,
  the embedded web assets, TCP options, the installation of signal handlers (a signal is an event), and the
  interleaving of other tasks inside one request of the panel.
\<close>

section \<open>Properties that span components\<close>


definition demo_events :: "task_event list" where
  "demo_events = [Relay (Ask toy_env None (Login ''snirelay'')), Relay demo_accept,
     LogTick Missing, Relay (Ask toy_env (Some ''snirelay_session=t'') (PutHosts sample_rows)),
     LogPrune sample_clock 1 24, Relay (Move 0 demo_env C2U), Relay (Expire sample_clock 0), Relay (Flush sample_clock 1)]"


text \<open>C7: 
  A client list saved in the panel decides the connections that look at it afterwards: after an
  authenticated request with valid rows, and until the next request, every connection that has made its
  first move since is turned away exactly when no row names its address, whatever the list was before,
  however the addresses are written and whatever other connections do, and then it has dialled nothing.
\<close>

theorem panel_whitelist_governs_relay:
  assumes "rp_panel (lv_relay s) = Some p" and "require_auth env cookie p" and "payload_rows body \<noteq> []"
    and "list_all (\<lambda>w. client_addr (wl_ip w) \<noteq> None) (payload_rows body)"
    and "ip_wf (sa_ip a)" and "sa_scope a = 0 \<or> (\<exists>gs. sa_ip a = V6 gs)"
    and "s1 = live_run (Ask env cookie (PutWhitelist body) # es1) s" and "list_all no_request es1" and "list_all no_request es2"
    and "i < length (lv_conns s1)" and "lv_conns s1 ! i = new_conn proto lport (show_socket_addr a) client"
    and "views i es2 s1 \<noteq> []" and "c = lv_conns (live_run es2 s1) ! i"
  shows "(cn_phase c = Ended (Rejected ''acl_deny'') None) = (\<not> rows_admit (payload_rows body) (sa_ip a))
    \<and> (rows_admit (payload_rows body) (sa_ip a) \<or> cn_dials c = [])"
proof -
  let ?s0 = "live_step (Ask env cookie (PutWhitelist body)) s"
  let ?vs = "views i es2 s1"
  have c: "c = conn_after (rp_guard (lv_relay s1)) (new_conn proto lport (show_socket_addr a) client) ?vs"
    using conn_projection [OF assms(10)] assms(11,13) by simp
  obtain b where acl: "sv_acl (rp_service (lv_relay ?s0)) = \<lparr>acl_entries = from_config_loop [] (payload_rows body), acl_ufw_sync = b\<rparr>"
    using put_whitelist_acl [of env cookie "with_counters (lv_relay s) p" body] assms(2,4) panel_request_service [OF assms(1)]
    by auto
  have "sv_acl (seen ?vs 0) = sv_acl (rp_service (lv_relay ?s0))"
    using no_request_run [OF assms(8), of ?s0] views_tables [OF assms(9), of 0 i s1] assms(7,12)
    by (simp add: same_tables_def del: live_step.simps)
  then have "is_allowed (sv_acl (seen ?vs 0)) (client_ip_from_peer (show_socket_addr a)) = rows_admit (payload_rows body) (sa_ip a)"
    using acl from_config_loop_admits [OF assms(3-5)] client_label_canonical [OF assms(5,6)] by simp
  then show ?thesis
    using new_conn_acl [OF assms(12)] new_conn_dials [OF refl] unfolding c by metis
qed

definition demo_peer :: socket_addr where
  "demo_peer = \<lparr>sa_ip = V4 [10, 0, 0, 7], sa_port = 5000, sa_scope = 0\<rparr>"

definition peer_accept :: live_event where
  "peer_accept = live_event.Accept ''tls'' 443 (show_socket_addr demo_peer) demo_client"

definition listed_live :: live where
  "listed_live = live_run [Ask toy_env auth_cookie (PutWhitelist demo_rows), peer_accept] demo_live"

lemma listed_views: "views 0 [Move 0 demo_env C2U] t \<noteq> []"
  by simp

lemma demo_accepted:
  "lv_conns (live_run [Ask env cookie r, peer_accept] demo_live) = [new_conn ''tls'' 443 (show_socket_addr demo_peer) demo_client]"
  by (simp add: peer_accept_def demo_live_def)

theorem panel_whitelist_governs_relay_witness:
  "cn_phase (lv_conns (live_run [Move 0 demo_env C2U] listed_live) ! 0) = Ended (Rejected ''acl_deny'') None"
proof -
  have panel: "rp_panel (lv_relay demo_live) = Some auth_state" by (simp add: demo_live_def demo_process_def)
  have rows: "payload_rows demo_rows \<noteq> []" "list_all (\<lambda>w. client_addr (wl_ip w) \<noteq> None) (payload_rows demo_rows)"
    "\<not> rows_admit (payload_rows demo_rows) (sa_ip demo_peer)" "ip_wf (sa_ip demo_peer)"
    by code_simp+
  have conns: "0 < length (lv_conns listed_live)"
    "lv_conns listed_live ! 0 = new_conn ''tls'' 443 (show_socket_addr demo_peer) demo_client"
    unfolding listed_live_def demo_accepted by simp_all
  have free: "list_all no_request [peer_accept]" "list_all no_request [Move 0 demo_env C2U]" by (simp_all add: peer_accept_def)
  show ?thesis
    using panel_whitelist_governs_relay [OF panel auth_state_auth rows(1,2,4) _ listed_live_def free conns listed_views refl] rows(3)
    by (simp add: demo_peer_def)
qed

text \<open>C8: 
  Hosts rows saved in the panel decide where the connections go that look at them afterwards: until the next
  request, every address such a connection dials is the one the rows give for the host name it read from
  the client, and a name that no row lists is dialled only under a catch-all row.
\<close>

theorem panel_hosts_govern_relay:
  assumes "rp_panel (lv_relay s) = Some p" and "require_auth env cookie p" and "rows_ok (pv_rx env) rows" and "rows \<noteq> []"
    and "s1 = live_run (Ask env cookie (PutHosts rows) # es1) s" and "list_all no_request es1" and "list_all no_request es2"
    and "i < length (lv_conns s1)" and "lv_conns s1 ! i = new_conn proto lport peer client"
    and "list_all (\<lambda>v. env_rx (fst v) = pv_rx env) (views i es2 s1)"
    and "(profile, host, port) \<in> set (cn_dials (lv_conns (live_run es2 s1) ! i))"
  shows "\<exists>name nport flight overflow client'.
      extract_peeked proto client lport = Got ((name, nport, flight, overflow), client')
    \<and> (case rows_resolve (pv_rx env) rows name of
         Some d \<Rightarrow> (host, port) = apply_host_resolve name nport lport d
       | None \<Rightarrow> list_ex catchall_row rows \<and> (host, port) = (name, nport))"
proof -
  let ?s0 = "live_step (Ask env cookie (PutHosts rows)) s"
  let ?vs = "views i es2 s1"
  have c: "lv_conns (live_run es2 s1) ! i = conn_after (rp_guard (lv_relay s1)) (new_conn proto lport peer client) ?vs"
    using conn_projection [OF assms(8)] assms(9) by simp
  obtain t where t: "compile (pv_rx env) rows = Inr t" "sv_hosts (rp_service (lv_relay ?s0)) = Some t"
    using put_hosts_table [of env cookie "with_counters (lv_relay s) p" rows] assms(2-4) panel_request_service [OF assms(1)]
    by auto
  have "cn_dials (conn_after (rp_guard (lv_relay s1)) (new_conn proto lport peer client) ?vs) \<noteq> []"
    using assms(11) unfolding c by auto
  from new_conn_dials [OF refl this] obtain name nport flight overflow client' h dp mapped candidates k where
    x: "extract_peeked proto client lport = Got ((name, nport, flight, overflow), client')" and len: "6 < length ?vs"
    and d: "resolve_destination (env_rx (around ?vs 3)) name nport lport (sv_hosts (seen ?vs 3)) = DestOk h dp mapped"
    and ds: "cn_dials (conn_after (rp_guard (lv_relay s1)) (new_conn proto lport peer client) ?vs) = map (attempt h dp) (take k candidates)"
    by blast
  have hp: "(host, port) = (h, dp)" using assms(11) unfolding c ds by (auto simp: attempt_def)
  have rx: "env_rx (around ?vs 3) = pv_rx env" using assms(10) len by (simp add: around_def list_all_length)
  have "sv_hosts (seen ?vs 3) = Some t"
    using no_request_run [OF assms(6), of ?s0] views_tables [OF assms(7), of 3 i s1] len t(2) assms(5)
    by (simp add: same_tables_def del: live_step.simps)
  with d rx have "resolve_destination (pv_rx env) name nport lport (Some t) = DestOk h dp mapped" by simp
  then show ?thesis
    using x hp destination_follows_rows [OF t(1), of name nport lport]
    by (auto simp: list_ex_iff split: option.splits prod.splits if_splits)
qed

definition open_rows :: "hosts_entry list" where
  "open_rows = [\<lparr>he_pattern = ''.*'', he_address = ''*''\<rparr>]"

definition open_live :: live where
  "open_live = live_run [Ask toy_env auth_cookie (PutHosts open_rows), peer_accept] demo_live"

definition eight_moves :: "live_event list" where
  "eight_moves = replicate 8 (Move 0 demo_env C2U)"

lemma open_dials: "cn_dials (lv_conns (live_run eight_moves open_live) ! 0) = [(''me'', ''example.com'', 443)]"
  by code_simp

lemma views_replicate: "list_all (\<lambda>v. fst v = env) (views 0 (replicate n (Move 0 env d)) t)"
  by (induction n arbitrary: t) (simp_all del: live_step.simps)

theorem panel_hosts_govern_relay_witness:
  "\<exists>name nport flight overflow client'.
      extract_peeked ''tls'' demo_client 443 = Got ((name, nport, flight, overflow), client')
    \<and> (case rows_resolve any_rx open_rows name of
         Some d \<Rightarrow> (''example.com'', 443) = apply_host_resolve name nport 443 d
       | None \<Rightarrow> list_ex catchall_row open_rows \<and> (''example.com'', 443) = (name, nport))"
proof -
  have panel: "rp_panel (lv_relay demo_live) = Some auth_state" by (simp add: demo_live_def demo_process_def)
  have rows: "rows_ok (pv_rx toy_env) open_rows" "open_rows \<noteq> []" by code_simp+
  have rx: "env_rx demo_env = pv_rx toy_env" "pv_rx toy_env = any_rx" by (simp_all add: demo_env_def toy_env_def)
  have conns: "0 < length (lv_conns open_live)" "lv_conns open_live ! 0 = new_conn ''tls'' 443 (show_socket_addr demo_peer) demo_client"
    unfolding open_live_def demo_accepted by simp_all
  have free: "list_all no_request [peer_accept]" "list_all no_request eight_moves"
    by (simp_all add: peer_accept_def eight_moves_def list_all_iff)
  have vs: "list_all (\<lambda>v. env_rx (fst v) = pv_rx toy_env) (views 0 eight_moves open_live)"
    using views_replicate [of demo_env 8 C2U open_live] rx(1) by (simp add: eight_moves_def list_all_iff)
  show ?thesis
    using panel_hosts_govern_relay [OF panel auth_state_auth rows open_live_def free conns vs, of "''me''" "''example.com''" 443]
    unfolding open_dials rx(2) by simp
qed

text \<open>
  What the statistics page of the panel shows is what the relay does: in every interleaving from a start
  without connections, an authenticated request is answered with the number of sessions open at that
  moment, and with the numbers of sessions ever opened and of errors and the bytes relayed by the completed
  sessions, modulo the width of the counters.
\<close>

theorem panel_statistics_exact:
  assumes "lv_conns s = []" and "sv_metrics (rp_service (lv_relay s)) = no_metrics" and "s' = live_run events s"
    and "rp_panel (lv_relay s') = Some p" and "require_auth env cookie p"
  shows "\<exists>rest. rs_body (snd (api_router Stats env cookie (with_counters (lv_relay s') p))) =
    JObj ([(''active_connections'', JNum (int (how_many session_open s'))),
      (''total_connections'', jnat (how_many was_opened s' mod 2 ^ 64)),
      (''bytes_proxied'', jnat (unat (sum_list (map bytes_relayed (lv_conns s'))))),
      (''connection_errors'', jnat (how_many has_failed s' mod 2 ^ 64))] @ rest)"
proof -
  have "pa_metrics (with_counters (lv_relay s') p) = sv_metrics (rp_service (lv_relay s'))" by (simp add: with_counters_def)
  then show ?thesis
    using run_counters [OF assms(1-3) refl] assms(5) by (simp add: api_stats_def authed_def ok_json_def unat_of_nat)
qed

theorem panel_statistics_exact_witness:
  "\<exists>rest. rs_body (snd (api_router Stats toy_env auth_cookie
       (with_counters (lv_relay (live_run [demo_accept, Move 0 demo_env C2U] demo_live)) auth_state))) =
     JObj ((''active_connections'', JNum 0) # rest)"
proof -
  let ?s = "live_run [demo_accept, Move 0 demo_env C2U] demo_live"
  have start: "lv_conns demo_live = []" "sv_metrics (rp_service (lv_relay demo_live)) = no_metrics"
    by (simp_all add: demo_live_def demo_process_def demo_state_def)
  have panel: "rp_panel (lv_relay ?s) = Some auth_state"
    by (simp add: demo_accept_def demo_live_def demo_process_def case_prod_beta)
  have "how_many session_open ?s = 0"
    by (simp add: demo_accept_def demo_live_def how_many_def session_open_def conn_step_def case_prod_beta)
  with panel_statistics_exact [OF start refl panel auth_state_auth] show ?thesis by auto
qed

definition probe_hello :: "string \<Rightarrow> client_hello" where
  "probe_hello h = \<lparr>ch_length = take 3 (drop 6 (build_minimal_tls_client_hello h)), ch_version = [3, 3],
     ch_random = replicate 32 0, ch_session_id = [], ch_ciphers = [0x13, 0x01, 0xc0, 0x2f, 0x00, 0x2f],
     ch_compression = [0], ch_before = [], ch_host = h, ch_after = []\<rparr>"

lemma build_minimal_encoded: "build_minimal_tls_client_hello h = encode_record 1 (encode_hello (probe_hello h))"
  by (simp add: build_minimal_tls_client_hello_def probe_hello_def encode_record_def encode_hello_def hello_fixed_def
      hello_extensions_def encode_ext_def encode_server_name_def be16_of_def enc16_def Let_def u16_to_be_def)

lemma probe_hello_host [simp]: "ch_host (probe_hello h) = h"
  by (simp add: probe_hello_def)

lemma probe_hello_wf: "is_ascii h \<Longrightarrow> length h < 65476 \<Longrightarrow> hello_wf (probe_hello h)"
  by (simp add: hello_wf_def probe_hello_def build_minimal_tls_client_hello_def be16_of_def Let_def
      encode_hello_def hello_fixed_def hello_extensions_def encode_ext_def encode_server_name_def)

text \<open>
  The ClientHello the relay sends to probe an upstream is one its own parser understands: a relay behind
  the probed one routes it to the probed host.
\<close>

theorem probe_hello_recognised:
  assumes "is_ascii h" and "length h < 65476"
  shows "parse_sni (build_minimal_tls_client_hello h) = Some (Tls (to_lowercase h))"
proof -
  note wf = probe_hello_wf [OF assms]
  have "tls_flight [] (build_minimal_tls_client_hello h)"
    using wf by (simp add: tls_flight_def build_minimal_encoded tls_record_encoded hello_wf_def)
  from parse_sni_flight [OF this, of "[]"] show ?thesis
    using parse_encoded_hello [OF wf] by (simp add: parse_sni_def build_minimal_encoded parse_encoded_record)
qed

theorem probe_hello_recognised_witness:
  "parse_sni (build_minimal_tls_client_hello ''Example.org'') = Some (Tls ''example.org'')"
proof -
  have "is_ascii ''Example.org''" "to_lowercase ''Example.org'' = ''example.org''" by code_simp+
  with probe_hello_recognised [of "''Example.org''"] show ?thesis by simp
qed

end
